(* ===== verification/Pubky_Prelude.thy ===== *)
theory Pubky_Prelude
  imports Main "HOL-Library.Sublist" "HOL-Library.Char_ord" "HOL-Library.List_Lexorder"
    "HOL-Library.Code_Target_Numeral"
begin

text \<open>
  Shared vocabulary of the development.

  A Rust \<^verbatim>\<open>str\<close> is modelled by the list of its UTF-8 bytes, an Isabelle
  \<^typ>\<open>string\<close>: \<^verbatim>\<open>len\<close> is \<^const>\<open>length\<close>, \<^verbatim>\<open>starts_with\<close> and
  \<^verbatim>\<open>ends_with\<close> are \<^const>\<open>prefix\<close> and \<^const>\<open>suffix\<close>, and the derived
  \<^verbatim>\<open>Ord\<close> (and the C collation of the database) is the lexicographic order
  of the library theories Char\_ord and List\_Lexorder.  \<^verbatim>\<open>chars\<close> decodes the
  bytes to Unicode scalar values.  A \<^verbatim>\<open>Result\<close> is a sum with the error on
  the left.  The theory then collects the list, string and result lemmas the
  components share, and the two interfaces they have in common: a textual
  format with a parser and a printer, and a coverage preorder.
\<close>

named_theorems defs \<open>definitions unfolded in the proofs about one operation\<close>
named_theorems inv_intros \<open>operations that keep an invariant\<close>

section \<open>Results\<close>

type_synonym ('e, 'a) result = "'e + 'a"

abbreviation Ok :: "'a \<Rightarrow> ('e, 'a) result" where "Ok \<equiv> Inr"
abbreviation Err :: "'e \<Rightarrow> ('e, 'a) result" where "Err \<equiv> Inl"

text \<open>The question mark operator: continue with the value or return the error.\<close>

definition and_then :: "('e, 'a) result \<Rightarrow> ('a \<Rightarrow> ('e, 'b) result) \<Rightarrow> ('e, 'b) result" where
  "and_then r f = (case r of Inl e \<Rightarrow> Inl e | Inr x \<Rightarrow> f x)"

definition map_err :: "('e \<Rightarrow> 'f) \<Rightarrow> ('e, 'a) result \<Rightarrow> ('f, 'a) result" where
  "map_err g r = (case r of Inl e \<Rightarrow> Inl (g e) | Inr x \<Rightarrow> Inr x)"

definition map_ok :: "('a \<Rightarrow> 'b) \<Rightarrow> ('e, 'a) result \<Rightarrow> ('e, 'b) result" where
  "map_ok g r = (case r of Inl e \<Rightarrow> Inl e | Inr x \<Rightarrow> Inr (g x))"

definition ok_or :: "'e \<Rightarrow> 'a option \<Rightarrow> ('e, 'a) result" where
  "ok_or e x = (case x of None \<Rightarrow> Inl e | Some y \<Rightarrow> Inr y)"

definition is_ok :: "('e, 'a) result \<Rightarrow> bool" where
  "is_ok r = (case r of Inl _ \<Rightarrow> False | Inr _ \<Rightarrow> True)"

text \<open>\<^verbatim>\<open>?\<close> in code that changes state: an error returns with the state reached.\<close>

definition st_then :: "('e, 'a) result \<times> 's \<Rightarrow> ('a \<Rightarrow> 's \<Rightarrow> ('e, 'b) result \<times> 's) \<Rightarrow> ('e, 'b) result \<times> 's" where
  "st_then r f = (case r of (Inl e, s) \<Rightarrow> (Inl e, s) | (Inr x, s) \<Rightarrow> f x s)"

text \<open>\<^verbatim>\<open>ensure c e\<close> is the guard \<^verbatim>\<open>if !c { return Err(e) }\<close>.\<close>

definition ensure :: "bool \<Rightarrow> 'e \<Rightarrow> ('e, unit) result" where
  "ensure c e = (if c then Inr () else Inl e)"

text \<open>Collecting an iterator of results: the first error wins.\<close>

fun try_map :: "('a \<Rightarrow> ('e, 'b) result) \<Rightarrow> 'a list \<Rightarrow> ('e, 'b list) result" where
  "try_map f [] = Inr []"
| "try_map f (x # xs) = and_then (f x) (\<lambda>y. and_then (try_map f xs) (\<lambda>ys. Inr (y # ys)))"

section \<open>Strings\<close>

text \<open>\<^verbatim>\<open>str::split(c)\<close> for a one-byte separator; \<^verbatim>\<open>[T]::join(sep)\<close>.\<close>

fun split_on :: "'a \<Rightarrow> 'a list \<Rightarrow> 'a list list" where
  "split_on c [] = [[]]"
| "split_on c (x # xs) =
     (if x = c then [] # split_on c xs
      else (case split_on c xs of [] \<Rightarrow> [[x]] | y # ys \<Rightarrow> (x # y) # ys))"

fun join :: "'a list \<Rightarrow> 'a list list \<Rightarrow> 'a list" where
  "join sep [] = []"
| "join sep [x] = x"
| "join sep (x # y # ys) = x @ sep @ join sep (y # ys)"

text \<open>\<^verbatim>\<open>str::split_once(c)\<close>.\<close>

fun split_once :: "char \<Rightarrow> string \<Rightarrow> (string \<times> string) option" where
  "split_once c [] = None"
| "split_once c (x # xs) =
     (if x = c then Some ([], xs)
      else (case split_once c xs of None \<Rightarrow> None | Some (a, b) \<Rightarrow> Some (x # a, b)))"

text \<open>\<^verbatim>\<open>str::strip_prefix\<close>, and \<^verbatim>\<open>str::trim_start_matches\<close> for a non-empty
  pattern (the pattern is removed as often as it matches).\<close>

definition strip_prefix :: "string \<Rightarrow> string \<Rightarrow> string option" where
  "strip_prefix p s = (if prefix p s then Some (drop (length p) s) else None)"

definition strip_suffix :: "string \<Rightarrow> string \<Rightarrow> string option" where
  "strip_suffix p s = (if suffix p s then Some (take (length s - length p) s) else None)"

function trim_start_matches :: "string \<Rightarrow> string \<Rightarrow> string" where
  "trim_start_matches p s =
     (if p \<noteq> [] \<and> prefix p s then trim_start_matches p (drop (length p) s) else s)"
  by pat_completeness auto
termination
proof (relation "measure (\<lambda>(p, s). length s)")
  fix p s :: string
  assume a: "p \<noteq> [] \<and> prefix p s"
  then have "length p \<le> length s" by (simp add: prefix_length_le)
  with a show "((p, drop (length p) s), (p, s)) \<in> measure (\<lambda>(p, s). length s)"
    by (cases s) auto
qed simp

declare trim_start_matches.simps [simp del]

text \<open>\<^verbatim>\<open>str::trim\<close> of an ASCII string: the white space among the ASCII bytes.\<close>

definition is_ascii_space :: "char \<Rightarrow> bool" where
  "is_ascii_space c \<longleftrightarrow> (let n = (of_char c :: nat) in 9 \<le> n \<and> n \<le> 13 \<or> n = 32)"

definition trim_ascii :: "string \<Rightarrow> string" where
  "trim_ascii s = rev (dropWhile is_ascii_space (rev (dropWhile is_ascii_space s)))"

text \<open>\<^verbatim>\<open>str::chars\<close>: the UTF-8 decoder.  The leading byte gives the width of
  the scalar value, the continuation bytes six bits each.\<close>

definition utf8_width :: "char \<Rightarrow> nat" where
  "utf8_width b = (let n = (of_char b :: nat) in
     if n < 192 then 1 else if n < 224 then 2 else if n < 240 then 3 else 4)"

definition utf8_lead :: "char \<Rightarrow> nat" where
  "utf8_lead b = (let n = (of_char b :: nat) in
     if n < 192 then n else if n < 224 then n mod 32 else if n < 240 then n mod 16 else n mod 8)"

definition utf8_scalar :: "char \<Rightarrow> string \<Rightarrow> nat" where
  "utf8_scalar b cs = foldl (\<lambda>acc c. acc * 64 + (of_char c :: nat) mod 64) (utf8_lead b) cs"

fun chars :: "string \<Rightarrow> nat list" where
  "chars [] = []"
| "chars (b # bs) =
     utf8_scalar b (take (utf8_width b - 1) bs) # chars (drop (utf8_width b - 1) bs)"

text \<open>\<^verbatim>\<open>str::from_utf8\<close> accepts exactly the well-formed sequences: continuation
  bytes where they belong, no overlong forms, no surrogates, nothing above
  U+10FFFF.\<close>

definition utf8_chunk :: "char \<Rightarrow> string \<Rightarrow> bool" where
  "utf8_chunk b cs \<longleftrightarrow>
     (let n = (of_char b :: nat); c = (of_char (hd cs) :: nat) in
      length cs = utf8_width b - 1 \<and>
      list_all (\<lambda>x. 128 \<le> (of_char x :: nat) \<and> (of_char x :: nat) < 192) cs \<and>
      (n < 128 \<or> 194 \<le> n \<and> n < 224 \<or> n = 224 \<and> 160 \<le> c
       \<or> 225 \<le> n \<and> n < 240 \<and> (n = 237 \<longrightarrow> c < 160) \<or> n = 240 \<and> 144 \<le> c
       \<or> 241 \<le> n \<and> n < 244 \<or> n = 244 \<and> c < 144))"

fun valid_utf8 :: "string \<Rightarrow> bool" where
  "valid_utf8 [] = True"
| "valid_utf8 (b # bs) =
     (utf8_chunk b (take (utf8_width b - 1) bs) \<and> valid_utf8 (drop (utf8_width b - 1) bs))"

text \<open>\<^verbatim>\<open>char::is_control\<close> (general category Cc) and \<^verbatim>\<open>char::is_whitespace\<close>
  (White\_Space) on scalar values.\<close>

definition is_control :: "nat \<Rightarrow> bool" where
  "is_control n \<longleftrightarrow> n < 32 \<or> 127 \<le> n \<and> n < 160"

definition is_whitespace :: "nat \<Rightarrow> bool" where
  "is_whitespace n \<longleftrightarrow>
     9 \<le> n \<and> n \<le> 13 \<or> n = 32 \<or> n = 133 \<or> n = 160 \<or> n = 5760
     \<or> 8192 \<le> n \<and> n \<le> 8202 \<or> n = 8232 \<or> n = 8233 \<or> n = 8239 \<or> n = 8287 \<or> n = 12288"

definition is_ascii :: "string \<Rightarrow> bool" where
  "is_ascii s \<longleftrightarrow> list_all (\<lambda>c. (of_char c :: nat) < 128) s"

text \<open>\<^verbatim>\<open>to_lowercase\<close>, exact up to comparison with an ASCII literal: the ASCII
  capitals, and the Kelvin sign (bytes E2 84 AA), the only other scalar value
  whose lower case is an ASCII letter.\<close>

definition ascii_lower :: "char \<Rightarrow> char" where
  "ascii_lower c = (let n = (of_char c :: nat) in
     if 65 \<le> n \<and> n \<le> 90 then char_of (n + 32) else c)"

fun to_lowercase :: "string \<Rightarrow> string" where
  "to_lowercase [] = []"
| "to_lowercase (c # cs) =
     (if take 3 (c # cs) = [CHR 0xE2, CHR 0x84, CHR 0xAA]
      then CHR ''k'' # to_lowercase (drop 2 cs)
      else ascii_lower c # to_lowercase cs)"

definition eq_ignore_ascii_case :: "string \<Rightarrow> string \<Rightarrow> bool" where
  "eq_ignore_ascii_case a b \<longleftrightarrow> map ascii_lower a = map ascii_lower b"

section \<open>Integers in text\<close>

definition is_digit :: "char \<Rightarrow> bool" where
  "is_digit c \<longleftrightarrow> (let n = (of_char c :: nat) in 48 \<le> n \<and> n \<le> 57)"

definition digits_value :: "string \<Rightarrow> nat" where
  "digits_value ds = foldl (\<lambda>acc c. acc * 10 + ((of_char c :: nat) - 48)) 0 ds"

text \<open>\<^verbatim>\<open>str::parse\<close> of an unsigned integer type with \<^verbatim>\<open>w\<close> bits: an optional
  plus sign, at least one digit, no overflow.\<close>

definition parse_uint :: "nat \<Rightarrow> string \<Rightarrow> nat option" where
  "parse_uint w s =
     (let ds = (if prefix ''+'' s then tl s else s) in
      if ds \<noteq> [] \<and> list_all is_digit ds \<and> digits_value ds < 2 ^ w
      then Some (digits_value ds) else None)"

text \<open>\<^verbatim>\<open>str::parse::<i64>\<close>: a minus sign is accepted as well.\<close>

definition parse_i64 :: "string \<Rightarrow> int option" where
  "parse_i64 s =
     (if prefix ''-'' s
      then (let ds = tl s in
            if ds \<noteq> [] \<and> list_all is_digit ds \<and> digits_value ds \<le> 2 ^ 63
            then Some (- int (digits_value ds)) else None)
      else map_option int (parse_uint 63 s))"

text \<open>\<^verbatim>\<open>Display\<close> of an unsigned integer.\<close>

fun show_nat :: "nat \<Rightarrow> string" where
  "show_nat n = (if n < 10 then [char_of (48 + n)]
                 else show_nat (n div 10) @ [char_of (48 + n mod 10)])"

declare show_nat.simps [simp del]

section \<open>Lemmas on results\<close>

lemma and_then_simps [simp]:
  "and_then (Inl e) f = Inl e"
  "and_then (Inr x) f = f x"
  by (simp_all add: and_then_def)

lemma st_then_simps [simp]:
  "st_then (Inl e, s) f = (Inl e, s)"
  "st_then (Inr x, s) f = f x s"
  by (simp_all add: st_then_def)

lemma st_then_ok_iff: "st_then r f = (Inr y, s') \<longleftrightarrow> (\<exists>x s. r = (Inr x, s) \<and> f x s = (Inr y, s'))"
  by (auto simp: st_then_def split: prod.splits sum.splits)

lemma map_err_simps [simp]:
  "map_err g (Inl e) = Inl (g e)"
  "map_err g (Inr x) = Inr x"
  by (simp_all add: map_err_def)

lemma map_ok_simps [simp]:
  "map_ok g (Inl e) = Inl e"
  "map_ok g (Inr x) = Inr (g x)"
  by (simp_all add: map_ok_def)

lemma ok_or_simps [simp]:
  "ok_or e None = Inl e"
  "ok_or e (Some x) = Inr x"
  by (simp_all add: ok_or_def)

lemma is_ok_simps [simp]:
  "is_ok (Inl e) = False"
  "is_ok (Inr x) = True"
  by (simp_all add: is_ok_def)

lemma and_then_ok_iff: "and_then r f = Inr y \<longleftrightarrow> (\<exists>x. r = Inr x \<and> f x = Inr y)"
  by (cases r) auto

lemma and_then_err_iff: "and_then r f = Inl e \<longleftrightarrow> r = Inl e \<or> (\<exists>x. r = Inr x \<and> f x = Inl e)"
  by (cases r) auto

lemma map_err_ok_iff [simp]: "map_err g r = Inr x \<longleftrightarrow> r = Inr x"
  by (cases r) auto

lemma map_ok_ok_iff [simp]: "map_ok g r = Inr y \<longleftrightarrow> (\<exists>x. r = Inr x \<and> y = g x)"
  by (cases r) auto

lemma ok_or_ok_iff [simp]: "ok_or e x = Inr y \<longleftrightarrow> x = Some y"
  by (cases x) auto

lemma ok_or_err_iff [simp]: "ok_or e x = Inl f \<longleftrightarrow> x = None \<and> f = e"
  by (cases x) auto

lemma ensure_ok_iff [simp]: "ensure c e = Inr u \<longleftrightarrow> c"
  by (auto simp: ensure_def)

lemma ensure_err_iff [simp]: "ensure c e = Inl f \<longleftrightarrow> \<not> c \<and> f = e"
  by (auto simp: ensure_def)

lemma ensure_simps [simp]: "ensure True e = Inr ()" "ensure False e = Inl e"
  by (simp_all add: ensure_def)

lemma is_ok_iff: "is_ok r \<longleftrightarrow> (\<exists>x. r = Inr x)"
  by (cases r) auto

lemma try_map_ok_iff: "try_map f xs = Inr ys \<longleftrightarrow> list_all2 (\<lambda>x y. f x = Inr y) xs ys"
  by (induction xs arbitrary: ys) (auto simp: and_then_ok_iff list_all2_Cons1)

lemma try_map_append: "try_map f (xs @ ys) =
    and_then (try_map f xs) (\<lambda>as. and_then (try_map f ys) (\<lambda>bs. Inr (as @ bs)))"
proof (induction xs)
  case Nil
  then show ?case by (cases "try_map f ys") auto
next
  case (Cons x xs)
  then show ?case by (cases "f x"; cases "try_map f xs"; cases "try_map f ys") auto
qed

lemma list_all_butlast: "list_all P xs \<Longrightarrow> list_all P (butlast xs)"
  by (auto simp: list_all_iff dest: in_set_butlastD)

section \<open>Lemmas on splitting and joining\<close>

lemma split_on_nonempty [simp]: "split_on c s \<noteq> []"
  by (cases s) (auto split: list.splits)

lemma split_on_sep_free: "seg \<in> set (split_on c s) \<Longrightarrow> c \<notin> set seg"
  by (induction s arbitrary: seg) (fastforce split: list.splits if_splits)+

lemma join_split_on [simp]: "join [c] (split_on c s) = s"
proof (induction s)
  case (Cons x xs)
  obtain y ys where "split_on c xs = y # ys" by (cases "split_on c xs") auto
  with Cons show ?case by (cases ys) auto
qed simp

lemma split_on_no_sep: "c \<notin> set s \<Longrightarrow> split_on c s = [s]"
  by (induction s) auto

lemma split_on_append: "c \<notin> set a \<Longrightarrow> split_on c (a @ c # s) = a # split_on c s"
  by (induction a) auto

lemma split_on_join:
  "xs \<noteq> [] \<Longrightarrow> \<forall>x \<in> set xs. c \<notin> set x \<Longrightarrow> split_on c (join [c] xs) = xs"
proof (induction "[c]" xs rule: join.induct)
  case (3 x y ys)
  then show ?case by (simp add: split_on_append)
qed (simp_all add: split_on_no_sep)

lemma join_Cons: "xs \<noteq> [] \<Longrightarrow> join sep (x # xs) = x @ sep @ join sep xs"
  by (cases xs) auto

lemma join_snoc: "xs \<noteq> [] \<Longrightarrow> join sep (xs @ [x]) = join sep xs @ sep @ x"
  by (induction sep xs rule: join.induct) auto

lemma split_on_join_append:
  "\<forall>x \<in> set xs. c \<notin> set x \<Longrightarrow>
   split_on c (join [c] (xs @ [[]]) @ r) = xs @ split_on c r"
  by (induction xs) (simp_all add: join_Cons split_on_append)

lemma join_append_dir: "ws \<noteq> [] \<Longrightarrow> join sep (xs @ ws) = join sep (xs @ [[]]) @ join sep ws"
  by (induction xs) (simp_all add: join_Cons)

lemma set_join_subset: "set (join sep xs) \<subseteq> set sep \<union> \<Union> (set ` set xs)"
  by (induction sep xs rule: join.induct) auto

lemma split_on_snoc_sep: "split_on c (s @ [c]) = split_on c s @ [[]]"
  by (induction s) (auto split: list.splits)

lemma split_on_suffix: "suffix [c] s \<longleftrightarrow> (length (split_on c s) > 1 \<and> last (split_on c s) = [])"
proof
  assume "suffix [c] s"
  then obtain t where "s = t @ [c]" by (auto simp: suffix_def)
  then show "length (split_on c s) > 1 \<and> last (split_on c s) = []"
    by (simp add: split_on_snoc_sep)
next
  assume a: "length (split_on c s) > 1 \<and> last (split_on c s) = []"
  then obtain xs where xs: "split_on c s = xs @ [[]]" and "xs \<noteq> []"
    by (cases "split_on c s" rule: rev_cases) auto
  then have "s = join [c] (xs @ [[]])" by (metis join_split_on)
  with \<open>xs \<noteq> []\<close> show "suffix [c] s" by (simp add: join_snoc suffix_def)
qed

lemma split_once_Some_iff:
  "split_once c s = Some (a, b) \<longleftrightarrow> s = a @ c # b \<and> c \<notin> set a"
proof (induction s arbitrary: a b)
  case (Cons x xs)
  show ?case
  proof (cases "split_once c xs")
    case None
    with Cons [of "tl a" b] show ?thesis by (cases a) auto
  next
    case (Some p)
    then obtain a' b' where p: "p = (a', b')" by (cases p) auto
    with Cons [of a' b'] Cons [of "tl a" b] Some show ?thesis by (cases a) auto
  qed
qed simp

lemma split_once_None_iff: "split_once c s = None \<longleftrightarrow> c \<notin> set s"
  by (induction s) (auto split: option.splits)

lemma strip_prefix_Some_iff: "strip_prefix p s = Some r \<longleftrightarrow> s = p @ r"
  by (auto simp: strip_prefix_def prefix_def)

lemma strip_prefix_append [simp]: "strip_prefix p (p @ r) = Some r"
  by (simp add: strip_prefix_Some_iff)

section \<open>Lemmas on decoding and on numbers\<close>

lemma chars_ascii: "is_ascii s \<Longrightarrow> chars s = map of_char s"
  by (induction s)
     (auto simp: is_ascii_def utf8_width_def utf8_scalar_def utf8_lead_def Let_def)

lemma chars_append_ascii: "(of_char c :: nat) < 128 \<Longrightarrow> utf8_width c = 1 \<and> chars (c # s) = of_char c # chars s"
  by (auto simp: utf8_width_def utf8_scalar_def utf8_lead_def Let_def)

lemma is_digit_ascii [simp]: "is_digit c \<Longrightarrow> (of_char c :: nat) < 128"
  by (auto simp: is_digit_def Let_def)

lemma of_char_char_of_small: "n < 256 \<Longrightarrow> (of_char (char_of n) :: nat) = n"
  by (simp add: of_char_of)

lemma is_digit_char_of: "(n :: nat) < 10 \<Longrightarrow> is_digit (char_of (48 + n))"
  by (simp add: is_digit_def of_char_char_of_small)

lemma digits_value_snoc:
  "digits_value (ds @ [c]) = digits_value ds * 10 + ((of_char c :: nat) - 48)"
  by (simp add: digits_value_def)

lemma digits_value_show_nat [simp]: "digits_value (show_nat n) = n"
proof (induction n rule: show_nat.induct)
  case (1 n)
  show ?case
  proof (cases "n < 10")
    case True
    then show ?thesis
      by (subst show_nat.simps) (simp add: digits_value_def of_char_char_of_small)
  next
    case False
    then show ?thesis
      using 1 by (subst show_nat.simps) (simp add: digits_value_snoc of_char_char_of_small)
  qed
qed

lemma show_nat_digits [simp]: "list_all is_digit (show_nat n)"
proof (induction n rule: show_nat.induct)
  case (1 n)
  then show ?case
    by (subst show_nat.simps) (auto simp: is_digit_char_of)
qed

lemma show_nat_nonempty [simp]: "show_nat n \<noteq> []"
  by (subst show_nat.simps) auto

lemma show_nat_chars: "c \<in> set (show_nat n) \<Longrightarrow> is_digit c"
  using show_nat_digits [of n] by (auto simp: list_all_iff)

lemma show_nat_no_sign [simp]: "\<not> prefix ''+'' (show_nat n)" "\<not> prefix ''-'' (show_nat n)"
proof -
  have "is_digit (hd (show_nat n))"
    using show_nat_chars [of "hd (show_nat n)" n] by simp
  then show "\<not> prefix ''+'' (show_nat n)" "\<not> prefix ''-'' (show_nat n)"
    by (cases "show_nat n"; auto simp: is_digit_def)+
qed

lemma parse_uint_show_nat [simp]: "n < 2 ^ w \<Longrightarrow> parse_uint w (show_nat n) = Some n"
  by (simp add: parse_uint_def Let_def)

lemma parse_uint_bound: "parse_uint w s = Some n \<Longrightarrow> n < 2 ^ w"
  by (auto simp: parse_uint_def Let_def split: if_splits)

section \<open>Interface: a textual format\<close>

text \<open>A type with a printer (\<^verbatim>\<open>Display\<close>) and a parser (\<^verbatim>\<open>FromStr\<close>): the parser
  accepts what the printer writes of a well-formed value, and returns only
  well-formed values.\<close>

locale textual =
  fixes render :: "'a \<Rightarrow> string"
    and parse :: "string \<Rightarrow> ('e, 'a) result"
    and wf :: "'a \<Rightarrow> bool"
  assumes parse_render: "wf x \<Longrightarrow> parse (render x) = Inr x"
    and parse_wf: "parse s = Inr x \<Longrightarrow> wf x"
begin

lemma render_inj: "wf x \<Longrightarrow> wf y \<Longrightarrow> render x = render y \<Longrightarrow> x = y"
  by (metis parse_render sum.inject(2))

lemma parse_normal_form: "parse s = Inr x \<Longrightarrow> parse (render x) = Inr x"
  by (simp add: parse_render parse_wf)

lemma try_map_parse_render: "list_all wf xs \<Longrightarrow> try_map parse (map render xs) = Inr xs"
  by (induction xs) (simp_all add: parse_render)

lemma try_map_parse_wf: "try_map parse ss = Inr xs \<Longrightarrow> list_all wf xs"
  by (induction ss arbitrary: xs) (auto simp: and_then_ok_iff dest: parse_wf)

end

text \<open>A format whose printed values never contain a separator and are never
  empty can be listed with that separator.\<close>

locale listable = textual +
  fixes sep :: char
  assumes sep_free: "wf x \<Longrightarrow> sep \<notin> set (render x)"
begin

lemma split_join_render:
  "xs \<noteq> [] \<Longrightarrow> list_all wf xs \<Longrightarrow> split_on sep (join [sep] (map render xs)) = map render xs"
  by (rule split_on_join) (auto simp: list_all_iff sep_free)

lemma list_round_trip:
  "xs \<noteq> [] \<Longrightarrow> list_all wf xs \<Longrightarrow>
   try_map parse (split_on sep (join [sep] (map render xs))) = Inr xs"
  by (simp add: split_join_render try_map_parse_render)

end

section \<open>Database tables\<close>

text \<open>A table is the list of its rows; \<^verbatim>\<open>keyed\<close> is a unique index on a column.\<close>

definition row_of :: "('r \<Rightarrow> 'k) \<Rightarrow> 'r list \<Rightarrow> 'k \<Rightarrow> 'r option" where
  "row_of key t k = find (\<lambda>r. key r = k) t"

definition keyed :: "('r \<Rightarrow> 'k) \<Rightarrow> 'r list \<Rightarrow> bool" where
  "keyed key t \<longleftrightarrow> distinct (map key t)"

definition update_where :: "('r \<Rightarrow> bool) \<Rightarrow> ('r \<Rightarrow> 'r) \<Rightarrow> 'r list \<Rightarrow> 'r list" where
  "update_where P f t = map (\<lambda>r. if P r then f r else r) t"

definition delete_where :: "('r \<Rightarrow> bool) \<Rightarrow> 'r list \<Rightarrow> 'r list" where
  "delete_where P t = filter (\<lambda>r. \<not> P r) t"

lemma row_of_Nil [simp]: "row_of key [] k = None"
  by (simp add: row_of_def)

lemma row_of_Cons: "row_of key (r # t) k = (if key r = k then Some r else row_of key t k)"
  by (simp add: row_of_def)

lemma row_of_append: "row_of key (t @ u) k = (case row_of key t k of Some r \<Rightarrow> Some r | None \<Rightarrow> row_of key u k)"
  by (induction t) (auto simp: row_of_Cons)

lemma row_of_SomeD: "row_of key t k = Some r \<Longrightarrow> r \<in> set t \<and> key r = k"
  by (auto simp: row_of_def find_Some_iff)

lemma row_of_None_iff: "row_of key t k = None \<longleftrightarrow> (\<forall>r \<in> set t. key r \<noteq> k)"
  by (auto simp: row_of_def find_None_iff)

lemma row_of_Some_iff: "keyed key t \<Longrightarrow> row_of key t k = Some r \<longleftrightarrow> r \<in> set t \<and> key r = k"
  by (induction t) (auto simp: row_of_Cons keyed_def rev_image_eqI)

lemma keyed_Nil [simp]: "keyed key []"
  by (simp add: keyed_def)

lemma keyed_snoc: "keyed key (t @ [r]) \<longleftrightarrow> keyed key t \<and> row_of key t (key r) = None"
  by (auto simp: keyed_def row_of_None_iff image_iff)

lemma keyed_Cons: "keyed key (r # t) \<longleftrightarrow> keyed key t \<and> row_of key t (key r) = None"
  by (auto simp: keyed_def row_of_None_iff image_iff)

lemma keyed_delete_where [simp]: "keyed key t \<Longrightarrow> keyed key (delete_where P t)"
  by (auto simp: keyed_def delete_where_def distinct_map_filter)

lemma keyed_update_where [simp]:
  assumes "\<And>r. key (f r) = key r"
  shows "keyed key (update_where P f t) = keyed key t"
proof -
  have "map key (update_where P f t) = map key t" using assms by (simp add: update_where_def)
  then show ?thesis by (simp add: keyed_def)
qed

lemma row_of_update_where:
  assumes "\<And>r. key (f r) = key r"
  shows "row_of key (update_where P f t) k =
    (case row_of key t k of None \<Rightarrow> None | Some r \<Rightarrow> Some (if P r then f r else r))"
  using assms by (induction t) (auto simp: row_of_Cons update_where_def)

lemma row_of_delete_where:
  assumes "keyed key t"
  shows "row_of key (delete_where P t) k =
    (case row_of key t k of None \<Rightarrow> None | Some r \<Rightarrow> if P r then None else Some r)"
  using assms
proof (induction t)
  case (Cons r t)
  have "row_of key (delete_where P t) (key r) = None"
    using Cons.prems by (auto simp: keyed_Cons row_of_None_iff delete_where_def)
  with Cons show ?case by (auto simp: row_of_Cons delete_where_def keyed_Cons)
qed (simp add: delete_where_def)

text \<open>Replacing the row of a key, the \<^verbatim>\<open>DO UPDATE\<close> of an upsert.\<close>

lemma keyed_overwrite:
  assumes "key new = k"
  shows "keyed key (update_where (\<lambda>r. key r = k) (\<lambda>_. new) t) = keyed key t"
proof -
  have "map key (update_where (\<lambda>r. key r = k) (\<lambda>_. new) t) = map key t"
    using assms by (simp add: update_where_def)
  then show ?thesis by (simp add: keyed_def)
qed

lemma row_of_overwrite:
  assumes "key new = k"
  shows "row_of key (update_where (\<lambda>r. key r = k) (\<lambda>_. new) t) p =
    (if p = k \<and> row_of key t k \<noteq> None then Some new else row_of key t p)"
  using assms by (induction t) (auto simp: update_where_def row_of_Cons)

lemma set_update_where: "set (update_where P f t) = (\<lambda>r. if P r then f r else r) ` set t"
  by (simp add: update_where_def)

lemma set_delete_where [simp]: "set (delete_where P t) = {r \<in> set t. \<not> P r}"
  by (auto simp: delete_where_def)

section \<open>Interface: retention until a deadline\<close>

text \<open>A store that keeps an item until its deadline: no operation before the
  deadline removes the item or brings the deadline forward, except those that
  drop it on purpose.  Locks, the replay guard and the nonce tracker share this
  contract.\<close>

locale retention =
  fixes held :: "'t \<Rightarrow> 'k \<Rightarrow> bool"
    and until :: "'t \<Rightarrow> 'k \<Rightarrow> int"
    and apply_op :: "'t \<Rightarrow> int \<Rightarrow> 'op \<Rightarrow> 't"
    and drops :: "'op \<Rightarrow> 'k \<Rightarrow> bool"
    and invar :: "'t \<Rightarrow> bool"
  assumes invar_apply: "invar t \<Longrightarrow> invar (apply_op t n op)"
    and held_apply: "invar t \<Longrightarrow> held t k \<Longrightarrow> n < until t k \<Longrightarrow> \<not> drops op k \<Longrightarrow>
      held (apply_op t n op) k"
    and until_apply: "invar t \<Longrightarrow> held t k \<Longrightarrow> n < until t k \<Longrightarrow> \<not> drops op k \<Longrightarrow>
      until t k \<le> until (apply_op t n op) k"
begin

abbreviation run_ops :: "'t \<Rightarrow> (int \<times> 'op) list \<Rightarrow> 't" where
  "run_ops t ops \<equiv> foldl (\<lambda>t (n, op). apply_op t n op) t ops"

lemma run_invar: "invar t \<Longrightarrow> invar (run_ops t ops)"
  by (induction ops arbitrary: t) (auto simp: invar_apply)

lemma run_retains:
  "invar t \<Longrightarrow> held t k \<Longrightarrow> \<forall>(n, op) \<in> set ops. n < until t k \<and> \<not> drops op k \<Longrightarrow>
   held (run_ops t ops) k \<and> until t k \<le> until (run_ops t ops) k"
proof (induction ops arbitrary: t)
  case (Cons a ops)
  obtain n op where a: "a = (n, op)" by (cases a)
  let ?t = "apply_op t n op"
  have n: "n < until t k" "\<not> drops op k" using Cons.prems a by auto
  have step: "invar ?t" "held ?t k" "until t k \<le> until ?t k"
    using Cons.prems(1,2) n by (auto intro: invar_apply held_apply until_apply)
  have "\<forall>(m, op) \<in> set ops. m < until ?t k \<and> \<not> drops op k"
    using Cons.prems(3) step(3) by fastforce
  from Cons.IH [OF step(1,2) this] step(3) show ?case by (auto simp: a)
qed simp

end

text \<open>A replay store: an operation may accept a key, which it then holds, and a key
  that is held and not past its deadline is not accepted.\<close>

locale replay_store = retention held until apply_op drops invar
  for held :: "'t \<Rightarrow> 'k \<Rightarrow> bool" and until :: "'t \<Rightarrow> 'k \<Rightarrow> int"
    and apply_op :: "'t \<Rightarrow> int \<Rightarrow> 'op \<Rightarrow> 't" and drops :: "'op \<Rightarrow> 'k \<Rightarrow> bool" and invar :: "'t \<Rightarrow> bool" +
  fixes accepts :: "'t \<Rightarrow> int \<Rightarrow> 'op \<Rightarrow> 'k \<Rightarrow> bool"
  assumes accepts_held: "invar t \<Longrightarrow> accepts t n op k \<Longrightarrow> held (apply_op t n op) k"
    and held_refused: "invar t \<Longrightarrow> held t k \<Longrightarrow> n < until t k \<Longrightarrow> \<not> accepts t n op k"
begin

lemma accepted_once:
  assumes "invar t" and "accepts t n op k"
    and "\<forall>(m, op') \<in> set ops. m < until (apply_op t n op) k \<and> \<not> drops op' k"
    and "n' < until (apply_op t n op) k"
  shows "\<not> accepts (run_ops (apply_op t n op) ops) n' op' k"
proof -
  let ?t = "apply_op t n op"
  have "invar ?t" "held ?t k" using assms(1,2) by (auto intro: invar_apply accepts_held)
  then have "held (run_ops ?t ops) k" "until ?t k \<le> until (run_ops ?t ops) k" "invar (run_ops ?t ops)"
    using run_retains [of ?t k ops] run_invar [of ?t ops] assms(3) by blast+
  then show ?thesis using held_refused assms(4) by fastforce
qed

end

section \<open>Interface: coverage\<close>

text \<open>A coverage preorder: the scopes of capabilities, the capabilities
  themselves and path filters are ordered by what they allow.\<close>

locale coverage =
  fixes covers :: "'a \<Rightarrow> 'a \<Rightarrow> bool"
  assumes covers_refl: "covers x x"
    and covers_trans: "covers x y \<Longrightarrow> covers y z \<Longrightarrow> covers x z"
begin

text \<open>Removing covered elements one at a time keeps a covering element for
  everything that was covered, and leaves an antichain.\<close>

abbreviation insert_uncovered :: "'a list \<Rightarrow> 'a \<Rightarrow> 'a list" where
  "insert_uncovered acc x \<equiv>
     (if \<exists>y \<in> set acc. covers y x then acc else filter (\<lambda>y. \<not> covers x y) acc @ [x])"

lemma insert_uncovered_covers:
  "(\<exists>y \<in> set (insert_uncovered acc x). covers y z) \<longleftrightarrow>
   (\<exists>y \<in> set acc. covers y z) \<or> covers x z"
  by (auto intro: covers_trans)

lemma foldl_insert_uncovered_covers:
  "(\<exists>y \<in> set (foldl (\<lambda>acc x. insert_uncovered acc x) acc xs). covers y z) \<longleftrightarrow>
   (\<exists>y \<in> set acc \<union> set xs. covers y z)"
proof (induction xs arbitrary: acc)
  case (Cons x xs)
  show ?case
    unfolding foldl_Cons Cons.IH using insert_uncovered_covers [of acc x z]
    by (simp only: bex_Un set_simps) blast
qed simp

lemma foldl_insert_uncovered_subset:
  "set (foldl (\<lambda>acc x. insert_uncovered acc x) acc xs) \<subseteq> set acc \<union> set xs"
proof (induction xs arbitrary: acc)
  case (Cons x xs)
  have "set (insert_uncovered acc x) \<subseteq> set acc \<union> set (x # xs)" by auto
  then show ?case unfolding foldl_Cons using Cons.IH [of "insert_uncovered acc x"] by fastforce
qed simp

definition antichain :: "'a list \<Rightarrow> bool" where
  "antichain xs \<longleftrightarrow> sorted_wrt (\<lambda>x y. \<not> covers x y \<and> \<not> covers y x) xs"

lemma antichain_insert_uncovered: "antichain acc \<Longrightarrow> antichain (insert_uncovered acc x)"
  by (auto simp: antichain_def sorted_wrt_append sorted_wrt_filter)

lemma antichain_foldl:
  "antichain acc \<Longrightarrow> antichain (foldl (\<lambda>acc x. insert_uncovered acc x) acc xs)"
proof (induction xs arbitrary: acc)
  case (Cons x xs)
  show ?case
    unfolding foldl_Cons by (rule Cons.IH, rule antichain_insert_uncovered, rule Cons.prems)
qed simp

lemma antichain_fixpoint:
  "antichain (acc @ xs) \<Longrightarrow> foldl (\<lambda>acc x. insert_uncovered acc x) acc xs = acc @ xs"
proof (induction xs arbitrary: acc)
  case (Cons x xs)
  have un: "\<forall>y \<in> set acc. \<not> covers y x \<and> \<not> covers x y"
    using Cons.prems by (auto simp: antichain_def sorted_wrt_append)
  then have "insert_uncovered acc x = acc @ [x]" by (auto simp: filter_id_conv)
  moreover have "antichain ((acc @ [x]) @ xs)" using Cons.prems by simp
  ultimately show ?case using Cons.IH [of "acc @ [x]"] by (simp only: foldl_Cons append_assoc append.simps)
qed simp

end

section \<open>Machine integers\<close>

text \<open>The value of an \<^verbatim>\<open>i64\<close> expression: casts from \<^verbatim>\<open>u64\<close> and subtraction wrap.\<close>

definition wrap_i64 :: "int \<Rightarrow> int" where
  "wrap_i64 x = (x + 2 ^ 63) mod 2 ^ 64 - 2 ^ 63"

lemma wrap_i64_id: "- (2 ^ 63) \<le> x \<Longrightarrow> x < 2 ^ 63 \<Longrightarrow> wrap_i64 x = x"
  by (simp add: wrap_i64_def)

text \<open>Saturating arithmetic on \<^verbatim>\<open>u64\<close>.\<close>

definition u64_max :: nat where "u64_max = 2 ^ 64 - 1"

definition saturating_add :: "nat \<Rightarrow> nat \<Rightarrow> nat" where
  "saturating_add a b = min u64_max (a + b)"

definition saturating_add_signed :: "nat \<Rightarrow> int \<Rightarrow> nat" where
  "saturating_add_signed a d = min u64_max (nat (int a + d))"

definition saturating_mul :: "nat \<Rightarrow> nat \<Rightarrow> nat" where
  "saturating_mul a b = min u64_max (a * b)"

end
