(* ===== verification/Storage_Path.thy ===== *)
theory Storage_Path
  imports Pubky_Prelude
begin

text \<open>
  Canonical decoded storage paths (\<^verbatim>\<open>pubky-common/src/storage_path.rs\<close>): the
  validator \<^verbatim>\<open>StoragePath::new\<close>, the normaliser \<^verbatim>\<open>StoragePath::normalize\<close> and
  the coverage test \<^verbatim>\<open>covers_path\<close>.  The lemmas show that the normaliser
  returns exactly canonical paths, is the identity on them, and that coverage
  is the prefix order on the lists of path segments.
\<close>

section \<open>Model\<close>

datatype storage_path = StoragePath (as_str: string)

datatype storage_path_error =
    NotAbsolute
  | EmptySegment
  | CurrentDirectorySegment
  | ParentDirectorySegment
  | TraversalAboveRoot
  | ControlCharacter
  | Backslash
  | TrailingWhitespace
  | SegmentTooLong nat nat
  | PathTooLong nat nat

definition MAX_STORAGE_PATH_SEGMENT_LENGTH :: nat where
  "MAX_STORAGE_PATH_SEGMENT_LENGTH = 255"

definition MAX_STORAGE_PATH_TOTAL_LENGTH :: nat where
  "MAX_STORAGE_PATH_TOTAL_LENGTH = 972"

definition validate_segment :: "string \<Rightarrow> (storage_path_error, unit) result" where
  "validate_segment segment =
     (if length segment > MAX_STORAGE_PATH_SEGMENT_LENGTH
      then Err (SegmentTooLong (length segment) MAX_STORAGE_PATH_SEGMENT_LENGTH)
      else if list_ex is_control (chars segment) then Err ControlCharacter
      else if CHR 0x5C \<in> set segment then Err Backslash
      else Ok ())"

definition validate_total_length :: "string \<Rightarrow> (storage_path_error, unit) result" where
  "validate_total_length path =
     (if length path > MAX_STORAGE_PATH_TOTAL_LENGTH
      then Err (PathTooLong (length path) MAX_STORAGE_PATH_TOTAL_LENGTH)
      else Ok ())"

definition validate_trailing_whitespace :: "string \<Rightarrow> (storage_path_error, unit) result" where
  "validate_trailing_whitespace path =
     (if chars path \<noteq> [] \<and> is_whitespace (last (chars path)) then Err TrailingWhitespace
      else Ok ())"

text \<open>The loop of \<^verbatim>\<open>validate_canonical\<close> over the segments: an empty segment is
  accepted at the last index only.\<close>

fun validate_segments :: "string list \<Rightarrow> (storage_path_error, unit) result" where
  "validate_segments [] = Ok ()"
| "validate_segments (segment # rest) =
     (if segment = [] then (if rest = [] then Ok () else Err EmptySegment)
      else if segment = ''.'' then Err CurrentDirectorySegment
      else if segment = ''..'' then Err ParentDirectorySegment
      else and_then (validate_segment segment) (\<lambda>_. validate_segments rest))"

definition validate_canonical :: "string \<Rightarrow> (storage_path_error, unit) result" where
  "validate_canonical path =
     (if \<not> prefix ''/'' path then Err NotAbsolute
      else and_then (validate_total_length path) (\<lambda>_.
        if path = ''/'' then Ok ()
        else and_then (validate_segments (split_on (CHR ''/'') (tl path))) (\<lambda>_.
          validate_trailing_whitespace path)))"

definition storage_path_root :: storage_path where
  "storage_path_root = StoragePath ''/''"

definition storage_path_new :: "string \<Rightarrow> (storage_path_error, storage_path) result" where
  "storage_path_new path = and_then (validate_canonical path) (\<lambda>_. Ok (StoragePath path))"

text \<open>The loop of \<^verbatim>\<open>normalize\<close>: \<^verbatim>\<open>segments\<close> is the vector built so far.\<close>

fun normalize_segments ::
  "string list \<Rightarrow> string list \<Rightarrow> (storage_path_error, string list) result" where
  "normalize_segments segments [] = Ok segments"
| "normalize_segments segments (segment # rest) =
     (if segment = '''' \<or> segment = ''.'' then normalize_segments segments rest
      else if segment = ''..'' then
        (if segments = [] then Err TraversalAboveRoot
         else normalize_segments (butlast segments) rest)
      else and_then (validate_segment segment) (\<lambda>_.
        normalize_segments (segments @ [segment]) rest))"

definition directory_shaped :: "string \<Rightarrow> bool" where
  "directory_shaped path \<longleftrightarrow>
     suffix ''/'' path \<or> last (split_on (CHR ''/'') path) \<in> {''.'', ''..''}"

definition canonical_string :: "bool \<Rightarrow> string list \<Rightarrow> string" where
  "canonical_string dir segments =
     (let canonical = ''/'' @ join ''/'' segments in
      if dir \<and> canonical \<noteq> ''/'' then canonical @ ''/'' else canonical)"

definition storage_path_normalize :: "string \<Rightarrow> (storage_path_error, storage_path) result" where
  "storage_path_normalize path =
     (if \<not> prefix ''/'' path then Err NotAbsolute
      else and_then (normalize_segments [] (tl (split_on (CHR ''/'') path))) (\<lambda>segments.
        let canonical = canonical_string (directory_shaped path) segments in
        and_then (validate_total_length canonical) (\<lambda>_.
        and_then (validate_trailing_whitespace canonical) (\<lambda>_.
          Ok (StoragePath canonical)))))"

definition path_is_root :: "storage_path \<Rightarrow> bool" where
  "path_is_root p \<longleftrightarrow> as_str p = ''/''"

definition is_directory :: "storage_path \<Rightarrow> bool" where
  "is_directory p \<longleftrightarrow> suffix ''/'' (as_str p)"

definition is_file :: "storage_path \<Rightarrow> bool" where
  "is_file p \<longleftrightarrow> \<not> is_directory p"

definition covers_path :: "storage_path \<Rightarrow> storage_path \<Rightarrow> bool" where
  "covers_path self path \<longleftrightarrow>
     self = path \<or> (is_directory self \<and> prefix (as_str self) (as_str path))"

section \<open>Vocabulary of the properties\<close>

text \<open>A canonical path is one \<^verbatim>\<open>StoragePath::new\<close> accepts; its components are
  the segments between the slashes, without the empty last one of a directory.\<close>

definition canonical :: "storage_path \<Rightarrow> bool" where
  "canonical p \<longleftrightarrow> validate_canonical (as_str p) = Ok ()"

definition components :: "storage_path \<Rightarrow> string list" where
  "components p = filter (\<lambda>s. s \<noteq> []) (split_on (CHR ''/'') (as_str p))"

definition good_segment :: "string \<Rightarrow> bool" where
  "good_segment s \<longleftrightarrow> s \<noteq> [] \<and> s \<noteq> ''.'' \<and> s \<noteq> ''..'' \<and> CHR ''/'' \<notin> set s
     \<and> validate_segment s = Ok ()"

section \<open>Validation and normalisation agree\<close>

lemma validate_total_length_ok [simp]:
  "validate_total_length p = Ok u \<longleftrightarrow> length p \<le> MAX_STORAGE_PATH_TOTAL_LENGTH"
  by (auto simp: validate_total_length_def)

lemma storage_path_new_ok [simp]:
  "storage_path_new s = Ok p \<longleftrightarrow> p = StoragePath s \<and> canonical p"
  by (auto simp: storage_path_new_def canonical_def and_then_ok_iff)

definition plain_segment :: "string \<Rightarrow> bool" where
  "plain_segment y \<longleftrightarrow> y \<noteq> [] \<and> y \<noteq> ''.'' \<and> y \<noteq> ''..'' \<and> validate_segment y = Ok ()"

lemma validate_segments_ok:
  "validate_segments xs = Ok () \<longleftrightarrow>
   list_all plain_segment (butlast xs) \<and> (xs = [] \<or> last xs = [] \<or> plain_segment (last xs))"
proof (induction xs)
  case (Cons x xs)
  then show ?case by (cases xs) (auto simp: plain_segment_def and_then_ok_iff)
qed simp

lemma normalize_segments_good:
  "normalize_segments acc segs = Ok out \<Longrightarrow> \<forall>s \<in> set segs. CHR ''/'' \<notin> set s \<Longrightarrow>
   list_all good_segment acc \<Longrightarrow> list_all good_segment out"
proof (induction acc segs rule: normalize_segments.induct)
  case (2 acc seg rest)
  consider (skip) "seg = '''' \<or> seg = ''.''" | (up) "seg = ''..''"
    | (push) "seg \<noteq> ''''" "seg \<noteq> ''.''" "seg \<noteq> ''..''" by blast
  then show ?case
  proof cases
    case skip
    with 2 show ?thesis by auto
  next
    case up
    with 2 show ?thesis by (simp add: list_all_butlast split: if_splits)
  next
    case push
    with 2 show ?thesis by (simp add: and_then_ok_iff good_segment_def)
  qed
qed simp

lemma normalize_segments_id:
  "list_all good_segment segs \<Longrightarrow>
   normalize_segments acc segs = Ok (acc @ segs) \<and>
   normalize_segments acc (segs @ [[]]) = Ok (acc @ segs)"
  by (induction segs arbitrary: acc) (auto simp: good_segment_def)

lemma join_eq_Nil: "list_all good_segment xs \<Longrightarrow> join ''/'' xs = [] \<longleftrightarrow> xs = []"
  by (cases xs; cases "tl xs") (auto simp: good_segment_def)

lemma canonical_string_simps:
  assumes "list_all good_segment xs" and "xs \<noteq> []"
  shows "canonical_string d xs = ''/'' @ join ''/'' (if d then xs @ [[]] else xs)"
  using assms by (simp add: canonical_string_def join_eq_Nil join_snoc)

lemma split_canonical_string:
  assumes "list_all good_segment xs" and "xs \<noteq> []"
  shows "split_on (CHR ''/'') (tl (canonical_string d xs)) = (if d then xs @ [[]] else xs)"
  unfolding canonical_string_simps [OF assms] using assms
  by (simp add: split_on_join good_segment_def list_all_iff)

text \<open>A canonical path is the root or the text of a non-empty list of good
  segments with an optional final slash, within the two global limits.\<close>

lemma canonical_iff:
  "canonical (StoragePath s) \<longleftrightarrow>
   s = ''/'' \<or>
   (\<exists>xs d. xs \<noteq> [] \<and> list_all good_segment xs \<and> s = canonical_string d xs \<and>
      length s \<le> MAX_STORAGE_PATH_TOTAL_LENGTH \<and> validate_trailing_whitespace s = Ok ())"
  (is "_ \<longleftrightarrow> _ \<or> ?r")
proof
  assume c: "canonical (StoragePath s)"
  show "s = ''/'' \<or> ?r"
  proof (cases "s = ''/''")
    case False
    then obtain t where s: "s = CHR ''/'' # t"
      using c by (cases s) (auto simp: canonical_def validate_canonical_def split: if_splits)
    let ?ss = "split_on (CHR ''/'') t"
    obtain zs z where ss: "?ss = zs @ [z]" by (cases ?ss rule: rev_cases) simp_all
    define d where "d \<longleftrightarrow> z = []"
    define ys where "ys = (if d then zs else zs @ [z])"
    have "validate_segments ?ss = Ok ()"
      using False c s by (auto simp: canonical_def validate_canonical_def and_then_ok_iff)
    then have "list_all plain_segment ys"
      unfolding validate_segments_ok ss by (auto simp: ys_def d_def)
    moreover have "\<forall>y \<in> set ?ss. CHR ''/'' \<notin> set y" by (auto dest: split_on_sep_free)
    then have "\<forall>y \<in> set ys. CHR ''/'' \<notin> set y" unfolding ss ys_def by auto
    ultimately have g: "list_all good_segment ys"
      by (simp add: list_all_iff good_segment_def plain_segment_def)
    have sp: "?ss = (if d then ys @ [[]] else ys)" by (simp add: ys_def d_def ss)
    have "ys \<noteq> []"
      using sp False s join_split_on [of "CHR ''/''" t] by (auto split: if_splits)
    then have "s = canonical_string d ys"
      using sp s g join_split_on [of "CHR ''/''" t] by (simp add: canonical_string_simps)
    with g \<open>ys \<noteq> []\<close> c False show ?thesis
      by (auto simp: canonical_def validate_canonical_def and_then_ok_iff split: if_splits)
  qed simp
next
  assume "s = ''/'' \<or> ?r"
  then show "canonical (StoragePath s)"
  proof
    assume "s = ''/''"
    then show ?thesis
      by (simp add: canonical_def validate_canonical_def MAX_STORAGE_PATH_TOTAL_LENGTH_def
          validate_total_length_def)
  next
    assume ?r
    then obtain xs d where xs: "xs \<noteq> []" "list_all good_segment xs" "s = canonical_string d xs"
      and b: "length s \<le> MAX_STORAGE_PATH_TOTAL_LENGTH" "validate_trailing_whitespace s = Ok ()"
      by blast
    have "prefix ''/'' s" using xs by (simp add: canonical_string_def Let_def)
    moreover have "validate_segments (split_on (CHR ''/'') (tl s)) = Ok ()"
      unfolding xs(3) split_canonical_string [OF xs(2,1)]
      using xs(1,2)
      by (auto simp: validate_segments_ok list_all_iff good_segment_def plain_segment_def
          dest: in_set_butlastD)
    ultimately show ?thesis
      using b by (simp add: canonical_def validate_canonical_def and_then_ok_iff)
  qed
qed

lemma tl_split_on_slash: "prefix ''/'' s \<Longrightarrow> tl (split_on (CHR ''/'') s) = split_on (CHR ''/'') (tl s)"
  by (cases s) auto

lemma storage_path_normalize_canonical:
  assumes "storage_path_normalize s = Ok p"
  shows "canonical p"
proof -
  from assms obtain segs where
    segs: "normalize_segments [] (tl (split_on (CHR ''/'') s)) = Ok segs"
    and p: "p = StoragePath (canonical_string (directory_shaped s) segs)"
    and b: "length (as_str p) \<le> MAX_STORAGE_PATH_TOTAL_LENGTH"
      "validate_trailing_whitespace (as_str p) = Ok ()"
    by (auto simp: storage_path_normalize_def and_then_ok_iff Let_def split: if_splits)
  have "list_all good_segment segs"
    by (rule normalize_segments_good [OF segs])
       (auto dest!: list.set_sel(2) [rotated] split_on_sep_free)
  then show ?thesis
    unfolding p canonical_iff using b p by (cases "segs = []") (auto simp: canonical_string_def)
qed

lemma directory_shaped_canonical_string:
  assumes "list_all good_segment xs" and "xs \<noteq> []"
  shows "directory_shaped (canonical_string d xs) = d"
proof -
  have sp: "split_on (CHR ''/'') (canonical_string d xs) = [] # (if d then xs @ [[]] else xs)"
    using split_canonical_string [OF assms, of d]
    by (simp add: canonical_string_simps [OF assms])
  have "last xs \<noteq> []" "last xs \<noteq> ''.''" "last xs \<noteq> ''..''"
    using assms by (auto simp: list_all_iff good_segment_def)
  then show ?thesis
    unfolding directory_shaped_def split_on_suffix [of "CHR ''/''"] sp using assms(2) by auto
qed

lemma canonical_normalize:
  assumes "canonical (StoragePath s)"
  shows "storage_path_normalize s = Ok (StoragePath s)"
proof (cases "s = ''/''")
  case True
  then show ?thesis
    by (simp add: storage_path_normalize_def canonical_string_def validate_total_length_def
        validate_trailing_whitespace_def MAX_STORAGE_PATH_TOTAL_LENGTH_def
        utf8_scalar_def utf8_lead_def utf8_width_def is_whitespace_def)
next
  case False
  then obtain xs d where xs: "xs \<noteq> []" "list_all good_segment xs" "s = canonical_string d xs"
    and b: "length s \<le> MAX_STORAGE_PATH_TOTAL_LENGTH" "validate_trailing_whitespace s = Ok ()"
    using assms unfolding canonical_iff by blast
  have pre: "prefix ''/'' s" using xs by (simp add: canonical_string_def Let_def)
  have "normalize_segments [] (split_on (CHR ''/'') (tl s)) = Ok xs"
    using normalize_segments_id [OF xs(2), of "[]"] by (simp add: xs(3) split_canonical_string xs)
  moreover have "directory_shaped s = d" using xs by (simp add: directory_shaped_canonical_string)
  ultimately show ?thesis
    using b pre by (simp add: storage_path_normalize_def tl_split_on_slash xs(3) [symmetric]
        validate_total_length_def)
qed

section \<open>Coverage\<close>

lemma components_canonical_string:
  assumes "list_all good_segment xs" and "xs \<noteq> []"
  shows "components (StoragePath (canonical_string d xs)) = xs"
proof -
  have "split_on (CHR ''/'') (canonical_string d xs) = [] # (if d then xs @ [[]] else xs)"
    using split_canonical_string [OF assms, of d] by (simp add: canonical_string_simps [OF assms])
  moreover have "filter (\<lambda>s. s \<noteq> []) xs = xs"
    using assms by (auto simp: filter_id_conv list_all_iff good_segment_def)
  ultimately show ?thesis by (simp add: components_def)
qed

lemma is_directory_canonical_string:
  assumes "list_all good_segment xs" and "xs \<noteq> []"
  shows "is_directory (StoragePath (canonical_string d xs)) = d"
proof -
  have "split_on (CHR ''/'') (canonical_string d xs) = [] # (if d then xs @ [[]] else xs)"
    using split_canonical_string [OF assms, of d] by (simp add: canonical_string_simps [OF assms])
  moreover have "last xs \<noteq> []" using assms by (auto simp: list_all_iff good_segment_def)
  ultimately show ?thesis
    using assms(2) unfolding is_directory_def by (auto simp: split_on_suffix)
qed

lemma components_root [simp]:
  "components storage_path_root = []" "components (StoragePath ''/'') = []"
  by (simp_all add: components_def storage_path_root_def)

lemma canonical_root [simp]: "canonical storage_path_root"
  unfolding storage_path_root_def canonical_iff by simp

lemma covers_path_refl [simp]: "covers_path p p"
  by (simp add: covers_path_def)

lemma covers_path_trans: "covers_path a b \<Longrightarrow> covers_path b c \<Longrightarrow> covers_path a c"
  by (auto simp: covers_path_def)

lemma covers_path_antisym: "covers_path a b \<Longrightarrow> covers_path b a \<Longrightarrow> a = b"
  by (cases a; cases b) (auto simp: covers_path_def dest: prefix_order.antisym)

interpretation path_cov: coverage covers_path
  by unfold_locales (auto intro: covers_path_trans)

lemma root_covers_canonical: "canonical p \<Longrightarrow> covers_path storage_path_root p"
  by (cases p) (auto simp: covers_path_def storage_path_root_def is_directory_def canonical_def
      validate_canonical_def split: if_splits)

lemma join_slash_prefix:
  assumes "list_all good_segment xs" "list_all good_segment ys" "xs \<noteq> []"
  shows "prefix (join ''/'' (xs @ [[]])) (join ''/'' (if d then ys @ [[]] else ys)) \<longleftrightarrow>
         prefix xs ys \<and> (xs = ys \<longrightarrow> d)"
  (is "prefix ?a ?b \<longleftrightarrow> _")
proof
  assume "prefix ?a ?b"
  then obtain r where r: "?b = ?a @ r" by (auto simp: prefix_def)
  have sx: "split_on (CHR ''/'') ?b = xs @ split_on (CHR ''/'') r"
  proof -
    have "\<forall>x \<in> set xs. CHR ''/'' \<notin> set x"
      using assms by (auto simp: list_all_iff good_segment_def)
    with r show ?thesis by (simp add: split_on_join_append)
  qed
  have ne: "(if d then ys @ [[]] else ys) \<noteq> []"
    using r assms(3) by (auto simp: join_snoc split: if_splits)
  have "split_on (CHR ''/'') ?b = (if d then ys @ [[]] else ys)"
    by (rule split_on_join [OF ne]) (use assms in \<open>auto simp: list_all_iff good_segment_def\<close>)
  with sx have eq: "(if d then ys @ [[]] else ys) = xs @ split_on (CHR ''/'') r" by simp
  have "prefix xs ys"
  proof (cases d)
    case True
    with eq have "prefix xs (ys @ [[]])" by simp
    moreover have "[] \<notin> set xs" using assms(1) by (auto simp: list_all_iff good_segment_def)
    then have "xs \<noteq> ys @ [[]]" by auto
    ultimately show ?thesis by simp
  next
    case False
    with eq show ?thesis by simp
  qed
  moreover have "xs = ys \<longrightarrow> d" using eq by (auto split: if_splits)
  ultimately show "prefix xs ys \<and> (xs = ys \<longrightarrow> d)" by simp
next
  assume a: "prefix xs ys \<and> (xs = ys \<longrightarrow> d)"
  then obtain zs where ys: "ys = xs @ zs" by (auto simp: prefix_def)
  show "prefix ?a ?b"
  proof (cases zs)
    case Nil
    with a ys show ?thesis by simp
  next
    case (Cons z zs')
    with ys show ?thesis
      using join_append_dir [of "if d then zs @ [[]] else zs" "''/''" xs] by auto
  qed
qed

lemma covers_path_components:
  assumes "canonical s" "canonical p"
  shows "covers_path s p \<longleftrightarrow>
    s = p \<or> is_directory s \<and> prefix (components s) (components p) \<and>
            (components s = components p \<longrightarrow> is_directory p)"
proof (cases "s = storage_path_root \<or> p = storage_path_root")
  case True
  then show ?thesis
  proof (cases "s = storage_path_root")
    case True
    then show ?thesis
      using assms root_covers_canonical [OF assms(2)]
      by (cases p) (auto simp: canonical_iff covers_path_def components_canonical_string
          storage_path_root_def is_directory_def)
  next
    case False
    with True have p: "p = storage_path_root" by simp
    from False assms(1) obtain xs d where xs: "xs \<noteq> []" "list_all good_segment xs"
      "s = StoragePath (canonical_string d xs)"
      by (cases s) (auto simp: canonical_iff storage_path_root_def)
    have "\<not> prefix (as_str s) ''/''"
      using xs by (auto simp: canonical_string_simps prefix_Cons join_eq_Nil join_snoc
          split: if_splits)
    with p False xs show ?thesis
      by (auto simp: covers_path_def components_canonical_string storage_path_root_def)
  qed
next
  case False
  obtain xs d where xs: "xs \<noteq> []" "list_all good_segment xs" "s = StoragePath (canonical_string d xs)"
    using False assms(1) by (cases s) (auto simp: canonical_iff storage_path_root_def)
  obtain ys e where ys: "ys \<noteq> []" "list_all good_segment ys" "p = StoragePath (canonical_string e ys)"
    using False assms(2) by (cases p) (auto simp: canonical_iff storage_path_root_def)
  have "prefix (canonical_string True xs) (canonical_string e ys) \<longleftrightarrow>
      prefix xs ys \<and> (xs = ys \<longrightarrow> e)"
    using join_slash_prefix [OF xs(2) ys(2) xs(1), of e] xs ys by (simp add: canonical_string_simps)
  then show ?thesis
    unfolding covers_path_def xs(3) ys(3)
      is_directory_canonical_string [OF xs(2,1)] is_directory_canonical_string [OF ys(2,1)]
      components_canonical_string [OF xs(2,1)] components_canonical_string [OF ys(2,1)]
    by (cases d) simp_all
qed

lemma good_segment_limits:
  "good_segment c \<Longrightarrow> c \<noteq> [] \<and> c \<noteq> ''.'' \<and> c \<noteq> ''..'' \<and> CHR ''/'' \<notin> set c
     \<and> CHR 0x5C \<notin> set c \<and> \<not> list_ex is_control (chars c)
     \<and> length c \<le> MAX_STORAGE_PATH_SEGMENT_LENGTH"
  unfolding good_segment_def validate_segment_def by (simp split: if_splits)

section \<open>Properties\<close>

text \<open>C20: Normalisation is sound and idempotent: whatever decoded path comes in,
  a path that \<^verbatim>\<open>StoragePath::normalize\<close> returns is accepted unchanged by the
  validator \<^verbatim>\<open>StoragePath::new\<close>, and normalising it again returns it.\<close>

theorem normalize_canonicalises:
  assumes "storage_path_normalize s = Ok p"
  shows "storage_path_new (as_str p) = Ok p \<and> storage_path_normalize (as_str p) = Ok p"
  using storage_path_normalize_canonical [OF assms] canonical_normalize [of "as_str p"] by simp

theorem normalize_canonicalises_witness:
  "storage_path_normalize ''/pub/./a/../b//c/..'' = Ok (StoragePath ''/pub/b/'') \<and>
   storage_path_new ''/pub/b/'' = Ok (StoragePath ''/pub/b/'') \<and>
   storage_path_normalize ''/pub/b/'' = Ok (StoragePath ''/pub/b/'')"
proof -
  have n: "storage_path_normalize ''/pub/./a/../b//c/..'' = Ok (StoragePath ''/pub/b/'')"
    by code_simp
  then show ?thesis using normalize_canonicalises [OF n] by simp
qed

text \<open>C21: No traversal: every component of a path that \<^verbatim>\<open>StoragePath::normalize\<close>
  returns is a real name, that is non-empty, neither a dot nor a double dot,
  free of slashes, backslashes and control characters and within the segment
  limit, and the path is absolute and within the total limit.\<close>

theorem normalize_no_traversal:
  assumes "storage_path_normalize s = Ok p"
  shows "list_all (\<lambda>c. c \<noteq> [] \<and> c \<noteq> ''.'' \<and> c \<noteq> ''..'' \<and> CHR ''/'' \<notin> set c
           \<and> CHR 0x5C \<notin> set c \<and> \<not> list_ex is_control (chars c)
           \<and> length c \<le> MAX_STORAGE_PATH_SEGMENT_LENGTH) (components p)
         \<and> prefix ''/'' (as_str p) \<and> length (as_str p) \<le> MAX_STORAGE_PATH_TOTAL_LENGTH"
proof -
  have c: "canonical (StoragePath (as_str p))"
    using storage_path_normalize_canonical [OF assms] by simp
  then have "list_all good_segment (components p)"
    by (cases p) (auto simp: canonical_iff components_canonical_string)
  moreover have "prefix ''/'' (as_str p)" "length (as_str p) \<le> MAX_STORAGE_PATH_TOTAL_LENGTH"
    using c by (auto simp: canonical_def validate_canonical_def and_then_ok_iff split: if_splits)
  ultimately show ?thesis
    by (simp add: list_all_iff good_segment_limits)
qed

theorem normalize_no_traversal_witness:
  "storage_path_normalize ''/pub/x/../../etc'' = Ok (StoragePath ''/etc'') \<and>
   components (StoragePath ''/etc'') = [''etc''] \<and>
   length ''etc'' \<le> MAX_STORAGE_PATH_SEGMENT_LENGTH \<and>
   storage_path_normalize ''/pub/../../etc'' = Err TraversalAboveRoot"
proof -
  have n: "storage_path_normalize ''/pub/x/../../etc'' = Ok (StoragePath ''/etc'')" by code_simp
  have c: "components (StoragePath ''/etc'') = [''etc'']" by code_simp
  have "storage_path_normalize ''/pub/../../etc'' = Err TraversalAboveRoot" by code_simp
  then show ?thesis using n c normalize_no_traversal [OF n] by simp
qed

text \<open>Scope coverage is by whole components: for canonical paths,
  \<^verbatim>\<open>covers_path\<close> holds exactly for equal paths, and for a directory scope whose
  component list is a prefix of the components of the path (a directory does not
  cover the file of the same name).  In particular a scope never covers a
  sibling whose name merely starts with the same characters.\<close>

theorem covers_path_by_components:
  assumes "canonical s" "canonical p"
  shows "covers_path s p \<longleftrightarrow>
    s = p \<or> is_directory s \<and> prefix (components s) (components p) \<and>
            (components s = components p \<longrightarrow> is_directory p)"
  using assms by (rule covers_path_components)

theorem covers_path_by_components_witness:
  "canonical (StoragePath ''/pub/app/'') \<and> canonical (StoragePath ''/pub/app-evil/f'') \<and>
   canonical (StoragePath ''/pub/app/f'') \<and>
   covers_path (StoragePath ''/pub/app/'') (StoragePath ''/pub/app/f'') \<and>
   \<not> covers_path (StoragePath ''/pub/app/'') (StoragePath ''/pub/app-evil/f'')"
proof -
  have c: "canonical (StoragePath ''/pub/app/'')" "canonical (StoragePath ''/pub/app-evil/f'')"
    "canonical (StoragePath ''/pub/app/f'')" by code_simp+
  have comp: "components (StoragePath ''/pub/app/'') = [''pub'', ''app'']"
    "components (StoragePath ''/pub/app-evil/f'') = [''pub'', ''app-evil'', ''f'']"
    "components (StoragePath ''/pub/app/f'') = [''pub'', ''app'', ''f'']"
    "is_directory (StoragePath ''/pub/app/'')" by code_simp+
  show ?thesis
    using c covers_path_by_components [OF c(1) c(2)] covers_path_by_components [OF c(1) c(3)]
    by (simp add: comp)
qed

end
