(* ===== verification/Capability.thy ===== *)
theory Capability
  imports Storage_Path
begin

text \<open>
  Capabilities (\<^verbatim>\<open>pubky-common/src/capabilities.rs\<close>): a scope with a set of
  actions, its text form \<^verbatim>\<open>scope:actions\<close>, comma separated lists of them, the
  permission test \<^verbatim>\<open>Capabilities::permits\<close> and the \<^verbatim>\<open>normalize\<close> function that
  merges equal scopes and drops covered capabilities.  The lemmas show the
  round trips of the text forms, and that normalisation keeps exactly the
  permissions, leaves no redundant capability and is idempotent.
\<close>

section \<open>Model\<close>

datatype action = Read | Write | EncryptionKeys | Unknown nat

text \<open>The derived \<^verbatim>\<open>Ord\<close>: by the position of the variant, then by the
  character.\<close>

fun action_rank :: "action \<Rightarrow> nat" where
  "action_rank Read = 0"
| "action_rank Write = 1"
| "action_rank EncryptionKeys = 2"
| "action_rank (Unknown c) = 3 + c"

lemma action_rank_inj: "action_rank a = action_rank b \<Longrightarrow> a = b"
  by (cases a; cases b) auto

instantiation action :: linorder
begin
definition less_eq_action :: "action \<Rightarrow> action \<Rightarrow> bool" where
  "less_eq_action a b \<longleftrightarrow> action_rank a \<le> action_rank b"
definition less_action :: "action \<Rightarrow> action \<Rightarrow> bool" where
  "less_action a b \<longleftrightarrow> action_rank a < action_rank b"
instance
  by standard (auto simp: less_eq_action_def less_action_def action_rank_inj)
end

record capability =
  scope :: storage_path
  actions :: "action list"

datatype capability_parse_error =
    InvalidScope storage_path_error
  | InvalidScopeDelimiter char
  | InvalidFormat
  | MissingActions
  | InvalidAction nat

record capabilities_parse_error =
  position :: nat
  entry :: string
  source :: capability_parse_error

definition action_try_from :: "nat \<Rightarrow> (capability_parse_error, action) result" where
  "action_try_from value =
     (if value = of_char (CHR ''r'') then Ok Read
      else if value = of_char (CHR ''w'') then Ok Write
      else if value = of_char (CHR ''e'') then Ok EncryptionKeys
      else Err (InvalidAction value))"

fun char_from_action :: "action \<Rightarrow> nat" where
  "char_from_action Read = of_char (CHR ''r'')"
| "char_from_action Write = of_char (CHR ''w'')"
| "char_from_action EncryptionKeys = of_char (CHR ''e'')"
| "char_from_action (Unknown c) = c"

text \<open>\<^verbatim>\<open>write!\<close> of a \<^verbatim>\<open>char\<close>: its UTF-8 bytes.\<close>

definition utf8_encode :: "nat \<Rightarrow> string" where
  "utf8_encode n = map char_of
     (if n < 128 then [n]
      else if n < 2048 then [192 + n div 64, 128 + n mod 64]
      else if n < 65536 then [224 + n div 4096, 128 + n div 64 mod 64, 128 + n mod 64]
      else [240 + n div 262144, 128 + n div 4096 mod 64, 128 + n div 64 mod 64, 128 + n mod 64])"

definition parse_scope :: "string \<Rightarrow> (capability_parse_error, storage_path) result" where
  "parse_scope sc =
     (if CHR '':'' \<in> set sc then Err (InvalidScopeDelimiter (CHR '':''))
      else if CHR '','' \<in> set sc then Err (InvalidScopeDelimiter (CHR '',''))
      else map_err InvalidScope (storage_path_new sc))"

definition capability_root :: capability where
  "capability_root = \<lparr>scope = storage_path_root, actions = [Read, Write]\<rparr>"

definition with_actions ::
  "string \<Rightarrow> action list \<Rightarrow> (capability_parse_error, capability) result" where
  "with_actions sc acts = and_then (parse_scope sc) (\<lambda>s. Ok \<lparr>scope = s, actions = acts\<rparr>)"

definition capability_read :: "string \<Rightarrow> (capability_parse_error, capability) result" where
  "capability_read sc = with_actions sc [Read]"

definition capability_write :: "string \<Rightarrow> (capability_parse_error, capability) result" where
  "capability_write sc = with_actions sc [Write]"

definition capability_read_write :: "string \<Rightarrow> (capability_parse_error, capability) result" where
  "capability_read_write sc = with_actions sc [Read, Write]"

definition capability_encryption_keys ::
  "string \<Rightarrow> (capability_parse_error, capability) result" where
  "capability_encryption_keys sc = with_actions sc [EncryptionKeys]"

definition grants_encryption_keys :: "capability \<Rightarrow> bool" where
  "grants_encryption_keys c \<longleftrightarrow> EncryptionKeys \<in> set (actions c)"

definition capability_is_root :: "capability \<Rightarrow> bool" where
  "capability_is_root c \<longleftrightarrow>
     path_is_root (scope c) \<and> Read \<in> set (actions c) \<and> Write \<in> set (actions c)"

definition scope_covers_path :: "capability \<Rightarrow> storage_path \<Rightarrow> bool" where
  "scope_covers_path c path \<longleftrightarrow> covers_path (scope c) path"

definition capability_covers :: "capability \<Rightarrow> capability \<Rightarrow> bool" where
  "capability_covers self other \<longleftrightarrow>
     (if \<not> scope_covers_path self (scope other) then False
      else list_all (\<lambda>a. a \<in> set (actions self)) (actions other))"

definition capability_to_string :: "capability \<Rightarrow> string" where
  "capability_to_string c =
     as_str (scope c) @ '':'' @ concat (map (utf8_encode \<circ> char_from_action) (actions c))"

text \<open>One turn of the parsing loop: \<^verbatim>\<open>binary_search\<close> on the sorted vector and
  \<^verbatim>\<open>insert\<close> at the position it reports.\<close>

definition insert_action :: "action list \<Rightarrow> action \<Rightarrow> action list" where
  "insert_action acts a = (if a \<in> set acts then acts else insort a acts)"

fun parse_actions :: "action list \<Rightarrow> nat list \<Rightarrow> (capability_parse_error, action list) result" where
  "parse_actions acts [] = Ok acts"
| "parse_actions acts (c # cs) =
     and_then (action_try_from c) (\<lambda>a. parse_actions (insert_action acts a) cs)"

definition capability_from_str :: "string \<Rightarrow> (capability_parse_error, capability) result" where
  "capability_from_str value =
     and_then (ok_or InvalidFormat (split_once (CHR '':'') value)) (\<lambda>(sc, actions_str).
       if CHR '':'' \<in> set actions_str then Err InvalidFormat
       else if actions_str = [] then Err MissingActions
       else and_then (parse_actions [] (chars actions_str)) (\<lambda>acts.
         and_then (parse_scope sc) (\<lambda>s. Ok \<lparr>scope = s, actions = acts\<rparr>)))"

type_synonym capabilities = "capability list"

definition permits :: "capabilities \<Rightarrow> storage_path \<Rightarrow> action \<Rightarrow> bool" where
  "permits caps path a \<longleftrightarrow>
     list_ex (\<lambda>cap. scope_covers_path cap path \<and> a \<in> set (actions cap)) caps"

definition parse_capabilities_entry ::
  "nat \<times> string \<Rightarrow> (capabilities_parse_error, capability) result" where
  "parse_capabilities_entry = (\<lambda>(index, e).
     map_err (\<lambda>src. \<lparr>position = index + 1, entry = e, source = src\<rparr>) (capability_from_str e))"

definition capabilities_from_str :: "string \<Rightarrow> (capabilities_parse_error, capabilities) result" where
  "capabilities_from_str value =
     (if value = [] then Ok []
      else try_map parse_capabilities_entry (List.enumerate 0 (split_on (CHR '','') value)))"

definition capabilities_to_string :: "capabilities \<Rightarrow> string" where
  "capabilities_to_string caps = join '','' (map capability_to_string caps)"

text \<open>\<^verbatim>\<open>try_from_caps_url\<close>, on the decoded query pairs of the URL.\<close>

definition try_from_caps_pairs ::
  "(string \<times> string) list \<Rightarrow> (capabilities_parse_error, capabilities) result" where
  "try_from_caps_pairs pairs =
     capabilities_from_str (case map_of pairs ''caps'' of None \<Rightarrow> [] | Some v \<Rightarrow> v)"

text \<open>Collecting into a \<^verbatim>\<open>BTreeSet\<close> and back: sorted, without duplicates.\<close>

definition btree_actions :: "action list \<Rightarrow> action list" where
  "btree_actions acts = sort (remdups acts)"

fun merge_capability :: "capability list \<Rightarrow> capability \<Rightarrow> capability list" where
  "merge_capability [] cap = [cap\<lparr>actions := btree_actions (actions cap)\<rparr>]"
| "merge_capability (existing # rest) cap =
     (if scope existing = scope cap
      then existing\<lparr>actions := btree_actions (actions existing @ actions cap)\<rparr> # rest
      else existing # merge_capability rest cap)"

definition sanitize_capability :: "capability list \<Rightarrow> capability \<Rightarrow> capability list" where
  "sanitize_capability sanitized cap =
     (if list_ex (\<lambda>existing. capability_covers existing cap) sanitized then sanitized
      else filter (\<lambda>existing. \<not> capability_covers cap existing) sanitized @ [cap])"

definition merge_capabilities :: "capability list \<Rightarrow> capability list" where
  "merge_capabilities caps = foldl merge_capability [] caps"

definition normalize_capabilities :: "capabilities \<Rightarrow> capabilities" where
  "normalize_capabilities caps = foldl sanitize_capability [] (merge_capabilities caps)"

text \<open>The builder collects capabilities and normalises on \<^verbatim>\<open>finish\<close>.\<close>

datatype builder_call =
    BCap capability
  | BRead string
  | BWrite string
  | BReadWrite string
  | BEncryptionKeys string
  | BExtend "capability list"

definition builder_push ::
  "capability list \<Rightarrow> (capability_parse_error, capability) result \<Rightarrow>
   (capability_parse_error, capability list) result" where
  "builder_push caps r = and_then r (\<lambda>c. Ok (caps @ [c]))"

fun builder_step ::
  "capability list \<Rightarrow> builder_call \<Rightarrow> (capability_parse_error, capability list) result" where
  "builder_step caps (BCap c) = Ok (caps @ [c])"
| "builder_step caps (BRead s) = builder_push caps (capability_read s)"
| "builder_step caps (BWrite s) = builder_push caps (capability_write s)"
| "builder_step caps (BReadWrite s) = builder_push caps (capability_read_write s)"
| "builder_step caps (BEncryptionKeys s) = builder_push caps (capability_encryption_keys s)"
| "builder_step caps (BExtend cs) = Ok (caps @ cs)"

definition builder_finish :: "capability list \<Rightarrow> capabilities" where
  "builder_finish caps = normalize_capabilities caps"

section \<open>Well-formed capabilities\<close>

text \<open>What the parser and the constructors build: a canonical scope without
  the two delimiters, and a non-empty, strictly sorted list of known actions.\<close>

definition known_action :: "action \<Rightarrow> bool" where
  "known_action a \<longleftrightarrow> (case a of Unknown _ \<Rightarrow> False | _ \<Rightarrow> True)"

definition wf_scope :: "storage_path \<Rightarrow> bool" where
  "wf_scope s \<longleftrightarrow> canonical s \<and> CHR '':'' \<notin> set (as_str s) \<and> CHR '','' \<notin> set (as_str s)"

definition wf_capability :: "capability \<Rightarrow> bool" where
  "wf_capability c \<longleftrightarrow> wf_scope (scope c) \<and> actions c \<noteq> [] \<and> sorted (actions c)
     \<and> distinct (actions c) \<and> list_all known_action (actions c)"

lemma parse_scope_ok: "parse_scope s = Ok p \<longleftrightarrow> p = StoragePath s \<and> wf_scope p"
  by (auto simp: parse_scope_def wf_scope_def)

lemma action_try_from_ok:
  "action_try_from c = Ok a \<longleftrightarrow> known_action a \<and> c = char_from_action a"
  by (cases a) (auto simp: action_try_from_def known_action_def)

lemma utf8_known_action:
  "known_action a \<Longrightarrow> utf8_encode (char_from_action a) = [char_of (char_from_action a)]"
  by (cases a) (auto simp: known_action_def utf8_encode_def)

lemma char_from_action_known: "known_action a \<Longrightarrow>
    (of_char (char_of (char_from_action a)) :: nat) = char_from_action a \<and>
    char_from_action a < 128 \<and> char_of (char_from_action a) \<notin> {CHR '':'', CHR '',''}"
  by (cases a)
     (auto simp: known_action_def dest: arg_cong [where f = "of_char :: char \<Rightarrow> nat"])

lemma concat_known_actions:
  assumes "list_all known_action acts"
  shows "concat (map (utf8_encode \<circ> char_from_action) acts) =
         map (char_of \<circ> char_from_action) acts"
  using assms by (induction acts) (simp_all add: utf8_known_action)

lemma chars_known_actions:
  assumes "list_all known_action acts"
  shows "chars (map (char_of \<circ> char_from_action) acts) = map char_from_action acts"
proof -
  have "is_ascii (map (char_of \<circ> char_from_action) acts)"
    using assms char_from_action_known by (fastforce simp: is_ascii_def list_all_iff simp del: of_char_of)
  then show ?thesis
    using assms char_from_action_known by (simp add: chars_ascii list_all_iff del: of_char_of)
qed

lemma set_insert_action [simp]: "set (insert_action acts a) = insert a (set acts)"
  by (auto simp: insert_action_def set_insort_key)

lemma insert_action_sorted:
  "sorted acts \<Longrightarrow> distinct acts \<Longrightarrow>
   sorted (insert_action acts a) \<and> distinct (insert_action acts a)"
  by (auto simp: insert_action_def sorted_insort distinct_insort)

lemma parse_actions_ok:
  "parse_actions acts cs = Ok out \<Longrightarrow>
   (\<exists>as. list_all known_action as \<and> cs = map char_from_action as \<and> set out = set acts \<union> set as)"
proof (induction cs arbitrary: acts)
  case (Cons c cs)
  then obtain a where a: "known_action a" "c = char_from_action a"
    and p: "parse_actions (insert_action acts a) cs = Ok out"
    by (auto simp: and_then_ok_iff action_try_from_ok)
  from Cons.IH [OF p] obtain as where "list_all known_action as" "cs = map char_from_action as"
    "set out = set (insert_action acts a) \<union> set as" by blast
  with a show ?case by (intro exI [of _ "a # as"]) auto
qed auto

lemma parse_actions_sorted:
  "parse_actions acts cs = Ok out \<Longrightarrow> sorted acts \<Longrightarrow> distinct acts \<Longrightarrow>
   sorted out \<and> distinct out"
proof (induction cs arbitrary: acts)
  case (Cons c cs)
  then show ?case
    using insert_action_sorted by (auto simp: and_then_ok_iff)
qed auto

lemma insort_append: "\<forall>x \<in> set xs. x < (a :: 'b :: linorder) \<Longrightarrow> insort a xs = xs @ [a]"
  by (induction xs) auto

lemma parse_actions_known:
  "list_all known_action as \<Longrightarrow> sorted (acts @ as) \<Longrightarrow> distinct (acts @ as) \<Longrightarrow>
   parse_actions acts (map char_from_action as) = Ok (acts @ as)"
proof (induction as arbitrary: acts)
  case (Cons a as)
  have lt: "\<forall>x \<in> set acts. x < a"
    using Cons.prems by (auto simp: sorted_append less_le)
  then have "insert_action acts a = acts @ [a]"
    by (auto simp: insert_action_def insort_append)
  moreover have "action_try_from (char_from_action a) = Ok a"
    using Cons.prems by (simp add: action_try_from_ok)
  ultimately show ?case using Cons.IH [of "acts @ [a]"] Cons.prems by simp
qed simp

lemma capability_from_str_wf: "capability_from_str s = Ok c \<Longrightarrow> wf_capability c"
proof -
  assume "capability_from_str s = Ok c"
  then obtain sc astr acts where
    p: "astr \<noteq> []" "parse_actions [] (chars astr) = Ok acts" "wf_scope (StoragePath sc)"
    and c: "c = \<lparr>scope = StoragePath sc, actions = acts\<rparr>"
    by (auto simp: capability_from_str_def and_then_ok_iff parse_scope_ok split: if_splits)
  from parse_actions_ok [OF p(2)] obtain as where
    as: "list_all known_action as" "chars astr = map char_from_action as" "set acts = set as"
    by auto
  have "chars astr \<noteq> []" using p(1) by (cases astr) auto
  with as have "acts \<noteq> []" by auto
  moreover have "list_all known_action acts" using as by (simp add: list_all_iff)
  ultimately show ?thesis
    using p(3) parse_actions_sorted [OF p(2)] by (simp add: wf_capability_def c)
qed

lemma capability_round_trip: "wf_capability c \<Longrightarrow> capability_from_str (capability_to_string c) = Ok c"
proof -
  assume wf: "wf_capability c"
  let ?acts = "map (char_of \<circ> char_from_action) (actions c) :: string"
  have k: "list_all known_action (actions c)" using wf by (simp add: wf_capability_def)
  have str: "capability_to_string c = as_str (scope c) @ CHR '':'' # ?acts"
    using concat_known_actions [OF k] by (simp add: capability_to_string_def)
  have "split_once (CHR '':'') (capability_to_string c) = Some (as_str (scope c), ?acts)"
    using wf unfolding str split_once_Some_iff by (simp add: wf_capability_def wf_scope_def)
  moreover have "CHR '':'' \<notin> set ?acts"
    using k char_from_action_known by (fastforce simp: list_all_iff)
  moreover have "?acts \<noteq> []" using wf by (simp add: wf_capability_def)
  moreover have "parse_actions [] (chars ?acts) = Ok (actions c)"
    using wf parse_actions_known [of "actions c" "[]"]
    by (simp add: chars_known_actions [OF k] wf_capability_def)
  moreover have "parse_scope (as_str (scope c)) = Ok (scope c)"
    using wf by (simp add: parse_scope_ok wf_capability_def)
  ultimately show ?thesis by (simp add: capability_from_str_def del: map_map)
qed

lemma capability_to_string_no_comma:
  assumes "wf_capability c"
  shows "CHR '','' \<notin> set (capability_to_string c)"
proof -
  have k: "list_all known_action (actions c)" using assms by (simp add: wf_capability_def)
  have "CHR '','' \<notin> set (map (char_of \<circ> char_from_action) (actions c))"
    using k char_from_action_known by (fastforce simp: list_all_iff)
  then show ?thesis
    using assms concat_known_actions [OF k]
    by (simp add: capability_to_string_def wf_capability_def wf_scope_def)
qed

interpretation cap_text: listable capability_to_string capability_from_str wf_capability "CHR '',''"
  by unfold_locales
    (simp_all add: capability_round_trip capability_from_str_wf capability_to_string_no_comma)

lemma try_map_entries:
  "try_map capability_from_str ss = Ok cs \<longleftrightarrow>
   try_map parse_capabilities_entry (List.enumerate n ss) = Ok cs"
  by (induction ss arbitrary: n cs) (auto simp: parse_capabilities_entry_def and_then_ok_iff)

lemma capabilities_round_trip:
  assumes "list_all wf_capability caps"
  shows "capabilities_from_str (capabilities_to_string caps) = Ok caps"
proof (cases "caps = []")
  case False
  then have "capabilities_to_string caps \<noteq> []"
    by (cases caps; cases "tl caps") (auto simp: capabilities_to_string_def capability_to_string_def)
  moreover have "try_map capability_from_str (split_on (CHR '','') (capabilities_to_string caps)) = Ok caps"
    unfolding capabilities_to_string_def
    using cap_text.list_round_trip [OF False assms] by simp
  ultimately show ?thesis
    by (simp add: capabilities_from_str_def try_map_entries [where n = 0, symmetric])
qed (simp add: capabilities_to_string_def capabilities_from_str_def)

lemma capabilities_from_str_wf: "capabilities_from_str s = Ok caps \<Longrightarrow> list_all wf_capability caps"
  by (auto simp: capabilities_from_str_def try_map_entries [where n = 0, symmetric]
      intro: cap_text.try_map_parse_wf split: if_splits)

section \<open>Normalisation keeps the permissions\<close>

lemma capability_covers_iff:
  "capability_covers a b \<longleftrightarrow> covers_path (scope a) (scope b) \<and> set (actions b) \<subseteq> set (actions a)"
  by (auto simp: capability_covers_def scope_covers_path_def list_all_iff)

interpretation cap_cov: coverage capability_covers
  by unfold_locales (auto simp: capability_covers_iff intro: covers_path_trans)

lemma set_btree_actions [simp]: "set (btree_actions acts) = set acts"
  by (simp add: btree_actions_def)

lemma btree_actions_sorted [simp]: "sorted (btree_actions acts)" "distinct (btree_actions acts)"
  by (simp_all add: btree_actions_def)

lemma btree_actions_id: "sorted acts \<Longrightarrow> distinct acts \<Longrightarrow> btree_actions acts = acts"
  by (simp add: btree_actions_def distinct_remdups_id sorted_sort_id)

lemma permits_covers:
  "permits caps path a \<longleftrightarrow>
   (\<exists>c \<in> set caps. capability_covers c \<lparr>scope = path, actions = [a]\<rparr>)"
  by (auto simp: permits_def capability_covers_iff scope_covers_path_def list_ex_iff)

lemma sanitize_capability_alt:
  "sanitize_capability = (\<lambda>acc x. if \<exists>y \<in> set acc. capability_covers y x then acc
     else filter (\<lambda>y. \<not> capability_covers x y) acc @ [x])"
  by (auto simp: sanitize_capability_def list_ex_iff fun_eq_iff)

lemma permits_merge_capability:
  "permits (merge_capability acc cap) path a \<longleftrightarrow> permits (acc @ [cap]) path a"
  by (induction acc cap rule: merge_capability.induct)
     (auto simp: permits_def scope_covers_path_def)

lemma permits_append: "permits (xs @ ys) path a \<longleftrightarrow> permits xs path a \<or> permits ys path a"
  by (auto simp: permits_def)

lemma permits_merge:
  "permits (foldl merge_capability acc caps) path a \<longleftrightarrow> permits (acc @ caps) path a"
proof (induction caps arbitrary: acc)
  case (Cons c caps)
  have "permits (merge_capability acc c @ caps) path a \<longleftrightarrow> permits ((acc @ [c]) @ caps) path a"
    by (simp only: permits_append permits_merge_capability)
  with Cons show ?case by simp
qed simp

lemma permits_normalize: "permits (normalize_capabilities caps) path a \<longleftrightarrow> permits caps path a"
proof -
  have "permits (normalize_capabilities caps) path a \<longleftrightarrow> permits (merge_capabilities caps) path a"
    unfolding permits_covers normalize_capabilities_def sanitize_capability_alt
    using cap_cov.foldl_insert_uncovered_covers [where acc = "[]"] by simp
  then show ?thesis by (simp add: merge_capabilities_def permits_merge)
qed

section \<open>Normalisation is minimal and idempotent\<close>

text \<open>Merging gives distinct scopes and sorted, duplicate-free actions.\<close>

definition merged :: "capability list \<Rightarrow> bool" where
  "merged caps \<longleftrightarrow> distinct (map scope caps) \<and>
     list_all (\<lambda>c. sorted (actions c) \<and> distinct (actions c)) caps"

lemma scope_merge_capability:
  "set (map scope (merge_capability acc cap)) = insert (scope cap) (set (map scope acc))"
  by (induction acc cap rule: merge_capability.induct) auto

lemma merged_merge_capability: "merged acc \<Longrightarrow> merged (merge_capability acc cap)"
proof (induction acc cap rule: merge_capability.induct)
  case (2 e es cap)
  then show ?case
    using scope_merge_capability [of es cap] by (auto simp: merged_def)
qed (simp add: merged_def)

lemma merged_foldl: "merged acc \<Longrightarrow> merged (foldl merge_capability acc caps)"
  by (induction caps arbitrary: acc) (simp_all add: merged_merge_capability)

lemma merge_capability_new:
  "scope cap \<notin> scope ` set acc \<Longrightarrow>
   merge_capability acc cap = acc @ [cap\<lparr>actions := btree_actions (actions cap)\<rparr>]"
  by (induction acc cap rule: merge_capability.induct) auto

lemma foldl_merge_id:
  "merged (acc @ caps) \<Longrightarrow> foldl merge_capability acc caps = acc @ caps"
proof (induction caps arbitrary: acc)
  case (Cons c caps)
  have "merge_capability acc c = acc @ [c]"
    using Cons.prems by (subst merge_capability_new) (auto simp: merged_def btree_actions_id)
  with Cons.IH [of "acc @ [c]"] Cons.prems show ?case by simp
qed simp

lemma merged_filter: "merged xs \<Longrightarrow> merged (filter P xs)"
  by (auto simp: merged_def list_all_iff distinct_map_filter)

lemma merged_sanitize:
  "merged (acc @ caps) \<Longrightarrow> merged (foldl sanitize_capability acc caps)"
proof (induction caps arbitrary: acc)
  case (Cons c caps)
  have "merged (sanitize_capability acc c @ caps)"
    using Cons.prems
    by (auto simp: sanitize_capability_def merged_def list_all_iff distinct_map_filter)
  then show ?case using Cons.IH by simp
qed simp

lemma merged_normalize: "merged (normalize_capabilities caps)"
  unfolding normalize_capabilities_def merge_capabilities_def
  by (rule merged_sanitize) (use merged_foldl [of "[]"] in \<open>simp add: merged_def\<close>)

lemma antichain_normalize: "cap_cov.antichain (normalize_capabilities caps)"
  unfolding normalize_capabilities_def sanitize_capability_alt
  by (rule cap_cov.antichain_foldl) (simp add: cap_cov.antichain_def)

lemma normalize_idem:
  "normalize_capabilities (normalize_capabilities caps) = normalize_capabilities caps"
proof -
  let ?n = "normalize_capabilities caps"
  have "merge_capabilities ?n = ?n"
    unfolding merge_capabilities_def using foldl_merge_id [of "[]"] merged_normalize by simp
  moreover have "foldl sanitize_capability [] ?n = ?n"
    unfolding sanitize_capability_alt
    using cap_cov.antichain_fixpoint [of "[]"] antichain_normalize by simp
  ultimately show ?thesis by (metis normalize_capabilities_def)
qed

lemma antichain_normalize_nth:
  assumes "i < length (normalize_capabilities caps)" "j < length (normalize_capabilities caps)" "i \<noteq> j"
  shows "\<not> capability_covers (normalize_capabilities caps ! i) (normalize_capabilities caps ! j)"
  using antichain_normalize [of caps] assms
  by (cases "i < j") (auto simp: cap_cov.antichain_def sorted_wrt_iff_nth_less)

text \<open>The root capability permits reading and writing everywhere.\<close>

lemma permits_root: "canonical path \<Longrightarrow> cap \<in> set caps \<Longrightarrow> capability_is_root cap \<Longrightarrow>
    a \<in> {Read, Write} \<Longrightarrow> permits caps path a"
  unfolding permits_def list_ex_iff scope_covers_path_def
  by (rule bexI [of _ cap]; cases "scope cap")
     (auto simp: capability_is_root_def path_is_root_def storage_path_root_def
      dest!: root_covers_canonical)

section \<open>Properties\<close>

text \<open>C22: Normalising a list of capabilities changes no decision:
  \<^verbatim>\<open>Capabilities::permits\<close> answers the same for every path and action before and
  after \<^verbatim>\<open>normalize\<close>, and normalising twice is normalising once.\<close>

theorem normalize_keeps_permissions:
  "permits (normalize_capabilities caps) path a = permits caps path a \<and>
   normalize_capabilities (normalize_capabilities caps) = normalize_capabilities caps"
  by (simp add: permits_normalize normalize_idem)

text \<open>The normal form is minimal: no capability of it covers another one, and
  its scopes are pairwise different.\<close>

theorem normalize_minimal:
  assumes "i < length (normalize_capabilities caps)"
    and "j < length (normalize_capabilities caps)" and "i \<noteq> j"
  shows "\<not> capability_covers (normalize_capabilities caps ! i) (normalize_capabilities caps ! j) \<and>
    scope (normalize_capabilities caps ! i) \<noteq> scope (normalize_capabilities caps ! j)"
proof -
  have "distinct (map scope (normalize_capabilities caps))"
    using merged_normalize [of caps] by (simp add: merged_def)
  then show ?thesis
    using antichain_normalize_nth [OF assms] assms by (auto simp: distinct_conv_nth)
qed

theorem normalize_minimal_witness:
  "normalize_capabilities
     [\<lparr>scope = StoragePath ''/pub/a/f'', actions = [Read]\<rparr>,
      \<lparr>scope = StoragePath ''/pub/a/'', actions = [Read]\<rparr>,
      \<lparr>scope = StoragePath ''/pub/b'', actions = [Write]\<rparr>,
      \<lparr>scope = StoragePath ''/pub/a/'', actions = [Write]\<rparr>] =
     [\<lparr>scope = StoragePath ''/pub/a/'', actions = [Read, Write]\<rparr>,
      \<lparr>scope = StoragePath ''/pub/b'', actions = [Write]\<rparr>] \<and>
   \<not> capability_covers \<lparr>scope = StoragePath ''/pub/a/'', actions = [Read, Write]\<rparr>
       \<lparr>scope = StoragePath ''/pub/b'', actions = [Write]\<rparr>"
  (is "normalize_capabilities ?l = ?n \<and> _")
proof -
  have n: "normalize_capabilities ?l = ?n" by code_simp
  then show ?thesis using normalize_minimal [of 0 ?l 1] by simp
qed

text \<open>C23: The text form of a list of capabilities round trips: printing well-formed
  capabilities and parsing the result returns them, and the parser returns only
  well-formed capabilities, so that every accepted text has a normal form with
  the same meaning.\<close>

theorem capabilities_text_round_trip:
  assumes "capabilities_from_str s = Ok caps"
  shows "list_all wf_capability caps \<and>
         capabilities_from_str (capabilities_to_string caps) = Ok caps"
  using capabilities_from_str_wf [OF assms] by (simp add: capabilities_round_trip)

theorem capabilities_text_round_trip_witness:
  "capabilities_from_str ''/pub/a/:wr,/pub/f:r'' =
     Ok [\<lparr>scope = StoragePath ''/pub/a/'', actions = [Read, Write]\<rparr>,
         \<lparr>scope = StoragePath ''/pub/f'', actions = [Read]\<rparr>] \<and>
   capabilities_from_str (capabilities_to_string
     [\<lparr>scope = StoragePath ''/pub/a/'', actions = [Read, Write]\<rparr>,
      \<lparr>scope = StoragePath ''/pub/f'', actions = [Read]\<rparr>]) =
     Ok [\<lparr>scope = StoragePath ''/pub/a/'', actions = [Read, Write]\<rparr>,
         \<lparr>scope = StoragePath ''/pub/f'', actions = [Read]\<rparr>]"
proof -
  have p: "capabilities_from_str ''/pub/a/:wr,/pub/f:r'' =
     Ok [\<lparr>scope = StoragePath ''/pub/a/'', actions = [Read, Write]\<rparr>,
         \<lparr>scope = StoragePath ''/pub/f'', actions = [Read]\<rparr>]" by code_simp
  then show ?thesis using capabilities_text_round_trip [OF p] by simp
qed

end
