(* ===== verification/Entry_Path.thy ===== *)
theory Entry_Path
  imports Capability
begin

text \<open>
  Public keys (\<^verbatim>\<open>pubky-common/src/keys.rs\<close>), entry paths
  (\<^verbatim>\<open>pubky-homeserver/src/shared/webdav/\<close>) and the resolution of the tenant of a
  request (\<^verbatim>\<open>client_server/middleware/request_tenant.rs\<close> and
  \<^verbatim>\<open>pubky_host.rs\<close>).

  The pkarr library parses z-base-32 keys: its parser is the parameter
  \<^verbatim>\<open>try_from_z32\<close> of the definitions, and a key is represented by the z-base-32
  text it prints.  Percent decoding (the percent\_encoding crate, followed by the
  UTF-8 check) is the parameter \<^verbatim>\<open>decode\<close>.
\<close>

section \<open>Model: keys\<close>

datatype public_key = PublicKey (z32: string)

type_synonym key_parser = "string \<Rightarrow> public_key option"
type_synonym percent_decoder = "string \<Rightarrow> string option"

definition is_pubky_prefixed :: "string \<Rightarrow> bool" where
  "is_pubky_prefixed value \<longleftrightarrow>
     (case strip_prefix ''pubky'' value of Some stripped \<Rightarrow> length stripped = 52 | None \<Rightarrow> False)"

definition parse_public_key :: "key_parser \<Rightarrow> string \<Rightarrow> public_key option" where
  "parse_public_key try_from_z32 value =
     try_from_z32 (if is_pubky_prefixed value
       then (case strip_prefix ''pubky'' value of Some r \<Rightarrow> r | None \<Rightarrow> value) else value)"

definition public_key_to_string :: "public_key \<Rightarrow> string" where
  "public_key_to_string k = ''pubky'' @ z32 k"

section \<open>Model: entry paths\<close>

definition PUBLIC_ROOT :: string where "PUBLIC_ROOT = ''/pub/''"
definition PRIVATE_ROOT :: string where "PRIVATE_ROOT = ''/priv/''"

datatype entry_path_error =
    MissingSlash
  | UnexpectedPubkyPrefix
  | InvalidStoragePath storage_path_error
  | InvalidPubkey

record entry_path =
  ep_pubkey :: public_key
  ep_path :: storage_path
  ep_key :: string

definition entry_path_new :: "public_key \<Rightarrow> storage_path \<Rightarrow> entry_path" where
  "entry_path_new pk p = \<lparr>ep_pubkey = pk, ep_path = p, ep_key = z32 pk @ as_str p\<rparr>"

definition entry_path_from_str :: "key_parser \<Rightarrow> string \<Rightarrow> (entry_path_error, entry_path) result" where
  "entry_path_from_str try_from_z32 s =
     (if CHR ''/'' \<notin> set s then Err MissingSlash
      else
        let pubkey = takeWhile (\<lambda>c. c \<noteq> CHR ''/'') s;
            path = dropWhile (\<lambda>c. c \<noteq> CHR ''/'') s
        in if is_pubky_prefixed pubkey
           then Err UnexpectedPubkyPrefix
           else and_then (ok_or InvalidPubkey (try_from_z32 pubkey)) (\<lambda>pk.
                  and_then (map_err InvalidStoragePath (storage_path_new path)) (\<lambda>p.
                    Ok (entry_path_new pk p))))"

text \<open>\<^verbatim>\<open>EntryPathPub\<close>: the path must be under the public root; every failure is
  an opaque error.\<close>

definition entry_path_pub_from_str :: "key_parser \<Rightarrow> string \<Rightarrow> entry_path option" where
  "entry_path_pub_from_str try_from_z32 s =
     (case entry_path_from_str try_from_z32 s of
        Inl _ \<Rightarrow> None
      | Inr inner \<Rightarrow> if \<not> prefix PUBLIC_ROOT (as_str (ep_path inner)) then None else Some inner)"

text \<open>The axum extractors: the wildcard comes without its leading slash.\<close>

definition webdav_path_from_str :: "string \<Rightarrow> (storage_path_error, storage_path) result" where
  "webdav_path_from_str s = storage_path_normalize (''/'' @ s)"

datatype webdav_file_error = WebDavPathError storage_path_error | NotAFile

definition webdav_file_path_from_str :: "string \<Rightarrow> (webdav_file_error, storage_path) result" where
  "webdav_file_path_from_str s =
     and_then (map_err WebDavPathError (webdav_path_from_str s)) (\<lambda>p.
       if is_directory p then Err NotAFile else Ok p)"

section \<open>Model: the tenant of a request\<close>

record request_tenant =
  rt_public_key :: public_key
  rt_storage_path :: "storage_path option"

definition STORAGE_ROUTE_PREFIX :: string where "STORAGE_ROUTE_PREFIX = ''/storage/''"

datatype tenant_error =
    MissingOwnerOrPath
  | MissingStoragePath
  | InvalidOwner
  | PathNotUtf8
  | InvalidTenantPath storage_path_error

definition from_storage_route ::
  "key_parser \<Rightarrow> percent_decoder \<Rightarrow> string \<Rightarrow> (tenant_error, request_tenant option) result" where
  "from_storage_route try_from_z32 decode raw_path =
     (if raw_path = ''/storage'' \<or> raw_path = ''/storage/'' then Err MissingOwnerOrPath
      else case strip_prefix STORAGE_ROUTE_PREFIX raw_path of
        None \<Rightarrow> Ok None
      | Some remainder \<Rightarrow>
          and_then (ok_or MissingStoragePath (split_once (CHR ''/'') remainder))
            (\<lambda>(raw_public_key, raw_storage_path).
              if raw_storage_path = [] then Err MissingStoragePath
              else and_then (ok_or InvalidOwner (try_from_z32 raw_public_key)) (\<lambda>pk.
                and_then (ok_or PathNotUtf8 (decode raw_storage_path)) (\<lambda>decoded_path.
                  and_then (map_err InvalidTenantPath (storage_path_normalize (''/'' @ decoded_path)))
                    (\<lambda>p. Ok (Some \<lparr>rt_public_key = pk, rt_storage_path = Some p\<rparr>))))))"

text \<open>What the resolver reads of a request: the path and query of its URI, and
  the two headers as far as they are visible ASCII.\<close>

record tenant_request =
  req_path :: string
  req_query :: "string option"
  req_host :: "string option"
  req_pubky_host :: "string option"

definition legacy_header_key :: "key_parser \<Rightarrow> string option \<Rightarrow> public_key option \<Rightarrow> public_key option" where
  "legacy_header_key try_from_z32 header pubky =
     (case header of
        None \<Rightarrow> pubky
      | Some s \<Rightarrow>
          if is_pubky_prefixed s then pubky
          else (case try_from_z32 s of Some key \<Rightarrow> Some key | None \<Rightarrow> pubky))"

definition legacy_query_pair :: "key_parser \<Rightarrow> string \<Rightarrow> public_key option" where
  "legacy_query_pair try_from_z32 pair =
     (case split_once (CHR ''='') pair of
        None \<Rightarrow> None
      | Some (key, val) \<Rightarrow>
          if key = ''pubky-host''
          then (if is_pubky_prefixed val then None else try_from_z32 val)
          else None)"

fun find_map :: "('a \<Rightarrow> 'b option) \<Rightarrow> 'a list \<Rightarrow> 'b option" where
  "find_map f [] = None"
| "find_map f (x # xs) = (case f x of Some y \<Rightarrow> Some y | None \<Rightarrow> find_map f xs)"

definition extract_legacy_pubky :: "key_parser \<Rightarrow> tenant_request \<Rightarrow> public_key option" where
  "extract_legacy_pubky try_from_z32 req =
     (let pubky = legacy_header_key try_from_z32 (req_host req) None;
          pubky = legacy_header_key try_from_z32 (req_pubky_host req) pubky
      in case pubky of
           Some k \<Rightarrow> Some k
         | None \<Rightarrow> Option.bind (req_query req) (\<lambda>query.
             find_map (legacy_query_pair try_from_z32) (split_on (CHR ''&'') query)))"

definition tenant_legacy :: "public_key \<Rightarrow> request_tenant" where
  "tenant_legacy pk = \<lparr>rt_public_key = pk, rt_storage_path = None\<rparr>"

definition tenant_mapped :: "public_key \<Rightarrow> storage_path \<Rightarrow> request_tenant" where
  "tenant_mapped pk p = \<lparr>rt_public_key = pk, rt_storage_path = Some p\<rparr>"

definition tenant_from_request ::
  "key_parser \<Rightarrow> percent_decoder \<Rightarrow> tenant_request \<Rightarrow> (tenant_error, request_tenant option) result" where
  "tenant_from_request try_from_z32 decode req =
     and_then (from_storage_route try_from_z32 decode (req_path req)) (\<lambda>t.
       case t of
         Some tenant \<Rightarrow> Ok (Some tenant)
       | None \<Rightarrow> Ok (map_option tenant_legacy (extract_legacy_pubky try_from_z32 req)))"

definition pubky_url :: "request_tenant \<Rightarrow> tenant_request \<Rightarrow> string" where
  "pubky_url tenant req =
     (let storage_path = (case rt_storage_path tenant of Some p \<Rightarrow> as_str p | None \<Rightarrow> req_path req);
          url = ''pubky://'' @ z32 (rt_public_key tenant) @ storage_path
      in case req_query req of Some q \<Rightarrow> url @ ''?'' @ q | None \<Rightarrow> url)"

text \<open>The \<^verbatim>\<open>EntryPath\<close> extractor reads the tenant put into the request.\<close>

datatype extract_error = MissingRequestTenant | MissingTenantPath

definition entry_path_from_parts ::
  "request_tenant option \<Rightarrow> (extract_error, entry_path) result" where
  "entry_path_from_parts tenant =
     and_then (ok_or MissingRequestTenant tenant) (\<lambda>t.
       and_then (ok_or MissingTenantPath (rt_storage_path t)) (\<lambda>p.
         Ok (entry_path_new (rt_public_key t) p)))"

section \<open>Entry keys\<close>

lemma entry_path_new_sel [simp]:
  "ep_pubkey (entry_path_new pk p) = pk"
  "ep_path (entry_path_new pk p) = p"
  "ep_key (entry_path_new pk p) = z32 pk @ as_str p"
  by (simp_all add: entry_path_new_def)

lemma not_pubky_prefixed_52: "length s = 52 \<Longrightarrow> \<not> is_pubky_prefixed s"
  by (auto simp: is_pubky_prefixed_def strip_prefix_def split: if_splits dest: prefix_length_le)

lemma canonical_starts_slash: "canonical p \<Longrightarrow> \<exists>t. as_str p = CHR ''/'' # t"
  by (cases "as_str p") (auto simp: canonical_def validate_canonical_def split: if_splits)

lemma split_entry_key:
  assumes "CHR ''/'' \<notin> set k" and "canonical p"
  shows "takeWhile (\<lambda>c. c \<noteq> CHR ''/'') (k @ as_str p) = k"
    and "dropWhile (\<lambda>c. c \<noteq> CHR ''/'') (k @ as_str p) = as_str p"
    and "CHR ''/'' \<in> set (k @ as_str p)"
proof -
  obtain t where t: "as_str p = CHR ''/'' # t" using canonical_starts_slash [OF assms(2)] by blast
  have "\<forall>c \<in> set k. c \<noteq> CHR ''/''" using assms(1) by auto
  then show "takeWhile (\<lambda>c. c \<noteq> CHR ''/'') (k @ as_str p) = k"
    and "dropWhile (\<lambda>c. c \<noteq> CHR ''/'') (k @ as_str p) = as_str p"
    and "CHR ''/'' \<in> set (k @ as_str p)"
    unfolding t by (simp_all add: takeWhile_append2 dropWhile_append2)
qed

lemma entry_path_from_str_ok:
  assumes "entry_path_from_str tz s = Ok e"
  shows "canonical (ep_path e)" and "e = entry_path_new (ep_pubkey e) (ep_path e)"
    and "\<exists>k. tz k = Some (ep_pubkey e) \<and> s = k @ as_str (ep_path e)"
proof -
  from assms obtain pk p where
    "tz (takeWhile (\<lambda>c. c \<noteq> CHR ''/'') s) = Some pk"
    "p = StoragePath (dropWhile (\<lambda>c. c \<noteq> CHR ''/'') s)" "canonical p" "e = entry_path_new pk p"
    by (auto simp: entry_path_from_str_def and_then_ok_iff Let_def split: if_splits)
  then show "canonical (ep_path e)" and "e = entry_path_new (ep_pubkey e) (ep_path e)"
    and "\<exists>k. tz k = Some (ep_pubkey e) \<and> s = k @ as_str (ep_path e)"
    by (auto intro: exI [of _ "takeWhile (\<lambda>c. c \<noteq> CHR ''/'') s"])
qed

lemma entry_key_parses:
  assumes "length (z32 pk) = 52" "CHR ''/'' \<notin> set (z32 pk)" "try_from_z32 (z32 pk) = Some pk" and "canonical p"
  shows "entry_path_from_str try_from_z32 (ep_key (entry_path_new pk p)) = Ok (entry_path_new pk p)"
proof -
  have "\<not> is_pubky_prefixed (z32 pk)" using assms(1) by (rule not_pubky_prefixed_52)
  moreover have "storage_path_new (as_str p) = Ok p" using assms(4) by simp
  ultimately show ?thesis
    using split_entry_key [OF assms(2,4)] assms(3)
    by (simp add: entry_path_from_str_def Let_def del: storage_path_new_ok)
qed

lemma from_storage_route_ok:
  assumes "from_storage_route tz decode raw = Ok (Some t)"
  shows "\<exists>p. rt_storage_path t = Some p \<and> canonical p"
  using assms storage_path_normalize_canonical
  by (auto simp: from_storage_route_def and_then_ok_iff split: if_splits option.splits prod.splits)

section \<open>Properties\<close>

text \<open>C24: Tenants never share a storage key: for z-base-32 keys of the 52 characters
  pkarr prints (no slash among them) and canonical paths, the database and blob
  key \<^verbatim>\<open>EntryPath::as_str\<close> determines both the owner and the path, and
  \<^verbatim>\<open>EntryPath::from_str\<close> recovers the entry path from it.\<close>

theorem entry_key_determines_entry:
  assumes "length (z32 pk) = 52" "CHR ''/'' \<notin> set (z32 pk)" "try_from_z32 (z32 pk) = Some pk"
    and "length (z32 pk') = 52"
    and "canonical p"
  shows "entry_path_from_str try_from_z32 (ep_key (entry_path_new pk p)) = Ok (entry_path_new pk p) \<and>
    (ep_key (entry_path_new pk p) = ep_key (entry_path_new pk' p') \<longrightarrow> pk = pk' \<and> p = p')"
proof
  show "entry_path_from_str try_from_z32 (ep_key (entry_path_new pk p)) = Ok (entry_path_new pk p)"
    using assms(1-3,5) by (rule entry_key_parses)
  show "ep_key (entry_path_new pk p) = ep_key (entry_path_new pk' p') \<longrightarrow> pk = pk' \<and> p = p'"
    using assms(1,4) by (cases pk; cases pk'; cases p; cases p') simp
qed

theorem entry_key_determines_entry_witness:
  "entry_path_from_str (\<lambda>s. Some (PublicKey s))
     (replicate 52 (CHR ''y'') @ ''/pub/f'') =
     Ok (entry_path_new (PublicKey (replicate 52 (CHR ''y''))) (StoragePath ''/pub/f''))"
proof -
  have c: "canonical (StoragePath ''/pub/f'')" by code_simp
  show ?thesis
    using entry_key_determines_entry [of "PublicKey (replicate 52 (CHR ''y''))"
        "\<lambda>s. Some (PublicKey s)" "PublicKey (replicate 52 (CHR ''y''))" "StoragePath ''/pub/f''"
        "StoragePath ''/pub/f''"] c
    by simp
qed



end
