(* ===== verification/Authorization.thy ===== *)
theory Authorization
  imports Entry_Path
begin

text \<open>
  Authorization of storage requests: HTTP errors (\<^verbatim>\<open>shared/http_error.rs\<close>), the
  session attached to a request (\<^verbatim>\<open>client_server/auth/session.rs\<close>), the read and
  write predicates (\<^verbatim>\<open>client_server/auth/authorization.rs\<close>), and the cache policy
  of private responses (\<^verbatim>\<open>client_server/cache_policy.rs\<close>).
\<close>

section \<open>Model: HTTP errors and sessions\<close>

record http_error =
  status :: nat
  detail :: string
  retry_after_secs :: "nat option"

definition new_with_message :: "nat \<Rightarrow> string \<Rightarrow> http_error" where
  "new_with_message code message = \<lparr>status = code, detail = message, retry_after_secs = None\<rparr>"

definition bad_request :: "string \<Rightarrow> http_error" where
  "bad_request message = new_with_message 400 message"

definition unauthorized :: http_error where
  "unauthorized = new_with_message 401 ''Unauthorized''"

definition unauthorized_with_message :: "string \<Rightarrow> http_error" where
  "unauthorized_with_message message = new_with_message 401 message"

definition forbidden_with_message :: "string \<Rightarrow> http_error" where
  "forbidden_with_message message = new_with_message 403 message"

definition not_found :: http_error where
  "not_found = new_with_message 404 ''Not Found''"

definition conflict :: "string \<Rightarrow> http_error" where
  "conflict message = new_with_message 409 message"

definition lock_token_mismatch :: http_error where
  "lock_token_mismatch =
     new_with_message 412 ''The If header does not name the live lock on this path''"

definition locked :: http_error where
  "locked = new_with_message 423 ''Resource is locked''"

definition too_many_requests :: "string \<Rightarrow> nat \<Rightarrow> http_error" where
  "too_many_requests message secs =
     (new_with_message 429 message)\<lparr>retry_after_secs := Some secs\<rparr>"

definition internal_server :: http_error where
  "internal_server = new_with_message 500 ''Internal server error''"

definition insufficient_storage :: http_error where
  "insufficient_storage = new_with_message 507 ''Disk space quota exceeded''"

lemmas http_error_defs = new_with_message_def bad_request_def unauthorized_def
  unauthorized_with_message_def forbidden_with_message_def not_found_def conflict_def
  lock_token_mismatch_def locked_def too_many_requests_def internal_server_def
  insufficient_storage_def

lemma http_error_status [simp]:
  "status (bad_request msg) = 400" "status unauthorized = 401"
  "status (unauthorized_with_message msg) = 401" "status (forbidden_with_message msg) = 403"
  "status not_found = 404" "status (conflict msg) = 409" "status lock_token_mismatch = 412"
  "status locked = 423" "status (too_many_requests msg n) = 429" "status internal_server = 500"
  "status insufficient_storage = 507" "status (new_with_message n msg) = n"
  by (simp_all add: http_error_defs)

record session_entity =
  se_id :: int
  se_secret :: string
  se_user_id :: int
  se_user_pubkey :: public_key
  se_capabilities :: capabilities
  se_created_at :: int

record grant_session =
  gs_user_key :: public_key
  gs_capabilities :: capabilities
  gs_grant_id :: string
  gs_token_expires_at :: nat
  gs_token_hash :: string

datatype auth_session = CookieSession session_entity | GrantAuthSession grant_session

fun session_capabilities :: "auth_session \<Rightarrow> capabilities" where
  "session_capabilities (CookieSession c) = se_capabilities c"
| "session_capabilities (GrantAuthSession b) = gs_capabilities b"

fun session_user_key :: "auth_session \<Rightarrow> public_key" where
  "session_user_key (CookieSession c) = se_user_pubkey c"
| "session_user_key (GrantAuthSession b) = gs_user_key b"

section \<open>Model: permissions\<close>

definition STORAGE_ROOTS :: "string list" where
  "STORAGE_ROOTS = [PUBLIC_ROOT, PRIVATE_ROOT]"

definition quoted :: "string \<Rightarrow> string" where
  "quoted s = [CHR 0x27] @ s @ [CHR 0x27]"

fun action_phrase :: "action \<Rightarrow> string" where
  "action_phrase Read = ''read access''"
| "action_phrase Write = ''write access''"
| "action_phrase EncryptionKeys = ''encryption key access''"
| "action_phrase (Unknown c) = ''access''"

definition session_has_action ::
  "auth_session \<Rightarrow> public_key \<Rightarrow> storage_path \<Rightarrow> action \<Rightarrow> (http_error, unit) result" where
  "session_has_action session pubkey path a =
     (if session_user_key session \<noteq> pubkey
      then Err (forbidden_with_message ''Session user does not match target tenant'')
      else if permits (session_capabilities session) path a then Ok ()
      else Err (forbidden_with_message (''Session does not have '' @ action_phrase a @ '' to path'')))"

definition has_write_permission ::
  "auth_session \<Rightarrow> public_key \<Rightarrow> storage_path \<Rightarrow> (http_error, unit) result" where
  "has_write_permission session pubkey path =
     (if \<not> list_ex (\<lambda>root. prefix root (as_str path)) STORAGE_ROOTS
      then Err (forbidden_with_message
        (''Writing to directories other than '' @ quoted ''/pub/'' @ '' and '' @ quoted ''/priv/''
         @ '' is forbidden''))
      else session_has_action session pubkey path Write)"

definition has_read_permission ::
  "auth_session option \<Rightarrow> public_key option \<Rightarrow> storage_path \<Rightarrow> (http_error, unit) result" where
  "has_read_permission session pubkey path =
     (if prefix PUBLIC_ROOT (as_str path) then Ok ()
      else if \<not> prefix PRIVATE_ROOT (as_str path)
      then Err (forbidden_with_message
        (''Reading from directories other than '' @ quoted ''/pub/'' @ '' and '' @ quoted ''/priv/''
         @ '' is forbidden''))
      else and_then (ok_or (unauthorized_with_message
             ''Authentication required to read private storage'') session) (\<lambda>s.
        and_then (ok_or (forbidden_with_message
             ''A private read must be scoped to exactly one user'') pubkey) (\<lambda>pk.
          session_has_action s pk path Read)))"

section \<open>Model: the cache policy of private responses\<close>

text \<open>A response as far as the policy looks at it: its status and its header
  map, where \<^verbatim>\<open>insert\<close> replaces and \<^verbatim>\<open>remove\<close> deletes.\<close>

record http_response =
  resp_status :: nat
  resp_headers :: "string \<rightharpoonup> string"

definition CACHE_CONTROL_NO_STORE :: string where
  "CACHE_CONTROL_NO_STORE = ''no-store''"
definition CACHE_CONTROL_PRIVATE_NO_CACHE :: string where
  "CACHE_CONTROL_PRIVATE_NO_CACHE = ''private, no-cache''"
definition VARY_PRIVATE_LEGACY :: string where
  "VARY_PRIVATE_LEGACY = ''pubky-host, Authorization, Cookie''"
definition VARY_PRIVATE_PATH :: string where
  "VARY_PRIVATE_PATH = ''Authorization, Cookie''"

definition private_cache_control :: "http_response \<Rightarrow> string" where
  "private_cache_control response =
     (if resp_status response \<in> {200, 304} \<and> resp_headers response ''etag'' \<noteq> None
      then CACHE_CONTROL_PRIVATE_NO_CACHE else CACHE_CONTROL_NO_STORE)"

definition apply_private_cache_headers :: "http_response \<Rightarrow> string \<Rightarrow> bool \<Rightarrow> http_response" where
  "apply_private_cache_headers response cache_control vary_on_pubky_host =
     response\<lparr>resp_headers := (resp_headers response)
       (''cache-control'' \<mapsto> cache_control,
        ''vary'' \<mapsto> (if vary_on_pubky_host then VARY_PRIVATE_LEGACY else VARY_PRIVATE_PATH))\<rparr>"

definition remove_validators :: "http_response \<Rightarrow> http_response" where
  "remove_validators response =
     response\<lparr>resp_headers := (resp_headers response)(''etag'' := None, ''last-modified'' := None)\<rparr>"

definition is_private_tenant_request_path :: "percent_decoder \<Rightarrow> string \<Rightarrow> bool" where
  "is_private_tenant_request_path decode raw_path =
     (if prefix PRIVATE_ROOT raw_path then True
      else
        let decoded = (case decode raw_path of Some d \<Rightarrow> d | None \<Rightarrow> raw_path)
        in if prefix PRIVATE_ROOT decoded then True
           else (case storage_path_normalize decoded of
                   Inr path \<Rightarrow> prefix PRIVATE_ROOT (as_str path)
                 | Inl _ \<Rightarrow> False))"

definition private_cache_policy ::
  "percent_decoder \<Rightarrow> request_tenant option \<Rightarrow> string \<Rightarrow> http_response \<Rightarrow> http_response" where
  "private_cache_policy decode tenant request_path response =
     (let storage_path = (case Option.bind tenant rt_storage_path of
            Some p \<Rightarrow> as_str p | None \<Rightarrow> request_path);
          is_private = is_private_tenant_request_path decode storage_path;
          vary_on_pubky_host = (case tenant of None \<Rightarrow> True | Some t \<Rightarrow> rt_storage_path t = None)
      in if is_private
         then (let r = apply_private_cache_headers response (private_cache_control response)
                         vary_on_pubky_host
               in if resp_status r \<ge> 400 then remove_validators r else r)
         else response)"

definition sse_cache_policy :: "http_response \<Rightarrow> http_response" where
  "sse_cache_policy response = apply_private_cache_headers response CACHE_CONTROL_NO_STORE True"

section \<open>Lemmas\<close>

lemma session_has_action_ok [simp]:
  "session_has_action s pk p a = Ok u \<longleftrightarrow>
   session_user_key s = pk \<and> permits (session_capabilities s) p a"
  by (auto simp: session_has_action_def)

lemma session_has_action_err: "session_has_action s pk p a = Err e \<Longrightarrow> status e = 403"
  by (auto simp: session_has_action_def split: if_splits)

lemma roots_disjoint: "\<not> (prefix PUBLIC_ROOT s \<and> prefix PRIVATE_ROOT s)"
  by (auto simp: PUBLIC_ROOT_def PRIVATE_ROOT_def prefix_def)

lemma has_write_permission_ok:
  "has_write_permission s pk p = Ok u \<longleftrightarrow>
   (prefix PUBLIC_ROOT (as_str p) \<or> prefix PRIVATE_ROOT (as_str p)) \<and>
   session_user_key s = pk \<and> permits (session_capabilities s) p Write"
  by (auto simp: has_write_permission_def STORAGE_ROOTS_def)

lemma has_read_permission_ok:
  "has_read_permission s pk p = Ok u \<longleftrightarrow>
   prefix PUBLIC_ROOT (as_str p) \<or>
   prefix PRIVATE_ROOT (as_str p) \<and>
     (\<exists>session. s = Some session \<and> pk = Some (session_user_key session) \<and>
        permits (session_capabilities session) p Read)"
  by (auto simp: has_read_permission_def and_then_ok_iff)

text \<open>A permission is confined to the scope that gives it.\<close>

lemma permits_confined:
  assumes "permits caps p a" and "canonical p" and "\<forall>c \<in> set caps. canonical (scope c)"
  shows "\<exists>c \<in> set caps. a \<in> set (actions c) \<and>
    (scope c = p \<or> is_directory (scope c) \<and> prefix (components (scope c)) (components p))"
  using assms by (fastforce simp: permits_def list_ex_iff scope_covers_path_def covers_path_components)

section \<open>Properties\<close>

text \<open>Write authorization: a write is allowed exactly when the path is under
  \<^verbatim>\<open>/pub/\<close> or \<^verbatim>\<open>/priv/\<close>, the session belongs to the owner of the path and one of
  its capabilities covers the path with the write action; every refusal is a 403.\<close>

theorem write_permission_exact:
  "(has_write_permission session pk path = Ok () \<longleftrightarrow>
     (prefix PUBLIC_ROOT (as_str path) \<or> prefix PRIVATE_ROOT (as_str path)) \<and>
     session_user_key session = pk \<and>
     permits (session_capabilities session) path Write) \<and>
   (case has_write_permission session pk path of Inl e \<Rightarrow> status e = 403 | Inr _ \<Rightarrow> True)"
proof
  show "case has_write_permission session pk path of Inl e \<Rightarrow> status e = 403 | Inr _ \<Rightarrow> True"
    by (auto simp: has_write_permission_def split: sum.splits dest: session_has_action_err)
qed (simp add: has_write_permission_ok)

text \<open>Read authorization: \<^verbatim>\<open>/pub/\<close> is world-readable; a path under \<^verbatim>\<open>/priv/\<close> is
  readable only for one named tenant whose own session has a capability that
  covers the path with the read action; an anonymous private read is a 401 and
  every other refusal a 403; nothing outside the two roots is readable.\<close>

theorem read_permission_exact:
  "(has_read_permission session pk path = Ok () \<longleftrightarrow>
     prefix PUBLIC_ROOT (as_str path) \<or>
     prefix PRIVATE_ROOT (as_str path) \<and>
       (\<exists>s. session = Some s \<and> pk = Some (session_user_key s) \<and>
            permits (session_capabilities s) path Read)) \<and>
   (case has_read_permission session pk path of
      Inl e \<Rightarrow> (if prefix PRIVATE_ROOT (as_str path) \<and> session = None
                then status e = 401 else status e = 403)
    | Inr _ \<Rightarrow> True)"
proof
  show "case has_read_permission session pk path of
      Inl e \<Rightarrow> (if prefix PRIVATE_ROOT (as_str path) \<and> session = None
                then status e = 401 else status e = 403)
    | Inr _ \<Rightarrow> True"
    by (auto simp: has_read_permission_def and_then_err_iff split: sum.splits if_splits
        dest: session_has_action_err)
qed (simp add: has_read_permission_ok)

text \<open>Confinement: if a session may write a canonical path, the path lies, by
  whole components, inside the scope of one of the session's capabilities that
  has the write action, and the owner of the path is the session's user.  A
  session cannot reach a neighbouring directory or another tenant.\<close>

theorem write_confined_to_scope:
  assumes "has_write_permission session pk path = Ok ()"
    and "canonical path"
    and "list_all wf_capability (session_capabilities session)"
  shows "session_user_key session = pk \<and>
    (\<exists>c \<in> set (session_capabilities session). Write \<in> set (actions c) \<and>
      (scope c = path \<or>
       is_directory (scope c) \<and> prefix (components (scope c)) (components path)))"
  using assms permits_confined [of "session_capabilities session" path Write]
  by (auto simp: has_write_permission_ok list_all_iff wf_capability_def wf_scope_def)

theorem write_confined_to_scope_witness:
  "has_write_permission
     (GrantAuthSession \<lparr>gs_user_key = PublicKey ''u'',
        gs_capabilities = [\<lparr>scope = StoragePath ''/pub/app/'', actions = [Read, Write]\<rparr>],
        gs_grant_id = ''g'', gs_token_expires_at = 0, gs_token_hash = ''h''\<rparr>)
     (PublicKey ''u'') (StoragePath ''/pub/app/f'') = Ok () \<and>
   prefix (components (StoragePath ''/pub/app/'')) (components (StoragePath ''/pub/app/f''))"
  (is "has_write_permission ?s ?u ?p = Ok () \<and> _")
proof -
  have a: "has_write_permission ?s ?u ?p = Ok ()" by code_simp
  have b: "canonical ?p" by code_simp
  have c: "list_all wf_capability (session_capabilities ?s)" by code_simp
  show ?thesis using write_confined_to_scope [OF a b c] a by auto
qed



end
