(* ===== verification/Quota.thy ===== *)
theory Quota
  imports Authorization
begin

text \<open>
  Quotas (\<^verbatim>\<open>pubky-homeserver/src/shared/quota/\<close>): the text forms of speed and
  request-count rates, their conversion to a governor quota, the three-state
  overrides of a user and their database encoding, validation, merging of a
  patch, resolution against the system defaults, and the write-path allow list.

  A governor quota is the replenish interval of one cell in nanoseconds and the
  burst size; a panic of the conversion is \<^const>\<open>None\<close>.  The JSON codec of the
  allow list (serde\_json) is a parameter.
\<close>

section \<open>Model: units and rates\<close>

datatype speed_rate_unit = Kilobyte | Megabyte | Gigabyte
datatype time_unit = Second | Minute | Hour | Day

datatype quota_error =
    InvalidSpeedUnit string
  | InvalidTimeUnit string
  | InvalidRateFormat string
  | MissingRate string
  | BadRateNumber string
  | RateTooHigh nat
  | RateColumnTooLong string
  | RateRoundTrip string
  | BurstTooLarge string nat
  | BurstNeedsRate string
  | RootNotAllowed nat
  | DuplicateWritePath nat

fun multiplier :: "speed_rate_unit \<Rightarrow> nat" where
  "multiplier Kilobyte = 1"
| "multiplier Megabyte = 1024"
| "multiplier Gigabyte = 1024 * 1024"

fun speed_unit_to_string :: "speed_rate_unit \<Rightarrow> string" where
  "speed_unit_to_string Kilobyte = ''kb''"
| "speed_unit_to_string Megabyte = ''mb''"
| "speed_unit_to_string Gigabyte = ''gb''"

definition speed_unit_from_str :: "string \<Rightarrow> (quota_error, speed_rate_unit) result" where
  "speed_unit_from_str s =
     (let l = to_lowercase s in
      if l = ''kb'' then Ok Kilobyte
      else if l = ''mb'' then Ok Megabyte
      else if l = ''gb'' then Ok Gigabyte
      else Err (InvalidSpeedUnit s))"

fun time_unit_to_string :: "time_unit \<Rightarrow> string" where
  "time_unit_to_string Second = ''s''"
| "time_unit_to_string Minute = ''m''"
| "time_unit_to_string Hour = ''h''"
| "time_unit_to_string Day = ''d''"

definition time_unit_from_str :: "string \<Rightarrow> (quota_error, time_unit) result" where
  "time_unit_from_str s =
     (if s = ''s'' then Ok Second
      else if s = ''m'' then Ok Minute
      else if s = ''h'' then Ok Hour
      else if s = ''d'' then Ok Day
      else Err (InvalidTimeUnit s))"

fun time_unit_secs :: "time_unit \<Rightarrow> nat" where
  "time_unit_secs Second = 1"
| "time_unit_secs Minute = 60"
| "time_unit_secs Hour = 60 * 60"
| "time_unit_secs Day = 24 * 60 * 60"

text \<open>\<^verbatim>\<open>Duration / u32\<close> on a whole number of seconds, in nanoseconds.\<close>

definition duration_div :: "nat \<Rightarrow> nat \<Rightarrow> nat" where
  "duration_div secs n = secs * 1000000000 div n"

text \<open>\<^verbatim>\<open>str::parse::<NonZeroU32>\<close>.\<close>

definition parse_nonzero_u32 :: "string \<Rightarrow> nat option" where
  "parse_nonzero_u32 s = Option.bind (parse_uint 32 s) (\<lambda>n. if n = 0 then None else Some n)"

record bandwidth_quota =
  bq_rate :: nat
  bq_unit :: speed_rate_unit
  bq_time_unit :: time_unit

record governor_quota =
  replenish_ns :: nat
  max_burst :: nat

definition U32_MAX :: nat where "U32_MAX = 2 ^ 32 - 1"

text \<open>\<^verbatim>\<open>to_governor_quota\<close>: the multiplication is a plain \<^verbatim>\<open>u32\<close> product, which
  wraps in the release profile; both \<^verbatim>\<open>expect\<close> calls panic on \<^verbatim>\<open>None\<close>, that is
  on zero cells and on a zero interval.\<close>

definition to_governor_quota :: "bandwidth_quota \<Rightarrow> nat option \<Rightarrow> governor_quota option" where
  "to_governor_quota q burst_override =
     (let rate_unit_mult = multiplier (bq_unit q);
          rate_cells = (bq_rate q * rate_unit_mult) mod 2 ^ 32
      in if rate_cells = 0 then None
         else
           let replenish_1_per = duration_div (time_unit_secs (bq_time_unit q)) rate_cells
           in if replenish_1_per = 0 then None
              else Some \<lparr>replenish_ns = replenish_1_per,
                max_burst = (case burst_override of
                    Some b \<Rightarrow> (let burst_cells = min (b * rate_unit_mult) U32_MAX
                               in if burst_cells = 0 then rate_cells else burst_cells)
                  | None \<Rightarrow> rate_cells)\<rparr>)"

definition bandwidth_to_string :: "bandwidth_quota \<Rightarrow> string" where
  "bandwidth_to_string q =
     show_nat (bq_rate q) @ speed_unit_to_string (bq_unit q) @ ''/'' @ time_unit_to_string (bq_time_unit q)"

definition bandwidth_from_str :: "string \<Rightarrow> (quota_error, bandwidth_quota) result" where
  "bandwidth_from_str s =
     (case split_on (CHR ''/'') s of
        [rate_with_unit, time_str] \<Rightarrow>
          and_then (time_unit_from_str time_str) (\<lambda>tu.
            let rate_str = takeWhile is_digit rate_with_unit;
                unit_str = dropWhile is_digit rate_with_unit
            in if rate_str = [] then Err (MissingRate rate_with_unit)
               else and_then (ok_or (BadRateNumber rate_str) (parse_nonzero_u32 rate_str)) (\<lambda>rate.
                 and_then (speed_unit_from_str unit_str) (\<lambda>unit.
                   Ok \<lparr>bq_rate = rate, bq_unit = unit, bq_time_unit = tu\<rparr>)))
      | _ \<Rightarrow> Err (InvalidRateFormat s))"

record request_count_quota =
  rq_rate :: nat
  rq_time_unit :: time_unit

definition request_count_to_governor :: "request_count_quota \<Rightarrow> (quota_error, governor_quota) result" where
  "request_count_to_governor q =
     (let replenish_1_per = duration_div (time_unit_secs (rq_time_unit q)) (rq_rate q)
      in if replenish_1_per = 0 then Err (RateTooHigh (rq_rate q))
         else Ok \<lparr>replenish_ns = replenish_1_per, max_burst = rq_rate q\<rparr>)"

definition request_count_to_string :: "request_count_quota \<Rightarrow> string" where
  "request_count_to_string q = show_nat (rq_rate q) @ ''r/'' @ time_unit_to_string (rq_time_unit q)"

definition request_count_from_str :: "string \<Rightarrow> (quota_error, request_count_quota) result" where
  "request_count_from_str s =
     and_then (ok_or (InvalidRateFormat s) (split_once (CHR ''/'') s)) (\<lambda>(rate_with_unit, time_str).
       and_then (ok_or (MissingRate rate_with_unit) (strip_suffix ''r'' rate_with_unit)) (\<lambda>rate_str.
         and_then (ok_or (BadRateNumber s) (parse_nonzero_u32 rate_str)) (\<lambda>rate.
           and_then (time_unit_from_str time_str) (\<lambda>tu.
             Ok \<lparr>rq_rate = rate, rq_time_unit = tu\<rparr>))))"

section \<open>Model: limit keys and path limits\<close>

datatype limit_key_type = UserKey | IpKey
datatype 'ip limit_key = LimitUser public_key | LimitIp 'ip

fun limit_key_get_type :: "'ip limit_key \<Rightarrow> limit_key_type" where
  "limit_key_get_type (LimitUser _) = UserKey"
| "limit_key_get_type (LimitIp _) = IpKey"

definition limit_key_from_str ::
  "key_parser \<Rightarrow> (string \<Rightarrow> 'ip option) \<Rightarrow> string \<Rightarrow> 'ip limit_key option" where
  "limit_key_from_str try_from_z32 parse_ip s =
     (case parse_public_key try_from_z32 s of
        Some pk \<Rightarrow> Some (LimitUser pk)
      | None \<Rightarrow> map_option LimitIp (parse_ip s))"

fun limit_key_type_to_string :: "limit_key_type \<Rightarrow> string" where
  "limit_key_type_to_string UserKey = ''user''"
| "limit_key_type_to_string IpKey = ''ip''"

definition limit_key_type_from_str :: "string \<Rightarrow> limit_key_type option" where
  "limit_key_type_from_str s =
     (if s = ''user'' then Some UserKey else if s = ''ip'' then Some IpKey else None)"

record 'ip path_limit =
  pl_path :: string
  pl_method :: string
  pl_quota :: request_count_quota
  pl_key :: limit_key_type
  pl_burst :: "nat option"
  pl_whitelist :: "'ip limit_key list"

definition is_whitelisted :: "'ip path_limit \<Rightarrow> 'ip limit_key \<Rightarrow> bool" where
  "is_whitelisted l key \<longleftrightarrow> key \<in> set (pl_whitelist l)"

definition path_limit_validate :: "'ip path_limit \<Rightarrow> ('ip limit_key, unit) result" where
  "path_limit_validate l =
     (case find (\<lambda>k. limit_key_get_type k \<noteq> pl_key l) (pl_whitelist l) of
        Some k \<Rightarrow> Err k
      | None \<Rightarrow> Ok ())"

definition path_limit_to_governor :: "'ip path_limit \<Rightarrow> (quota_error, governor_quota) result" where
  "path_limit_to_governor l =
     and_then (request_count_to_governor (pl_quota l)) (\<lambda>q.
       Ok (case pl_burst l of Some b \<Rightarrow> q\<lparr>max_burst := b\<rparr> | None \<Rightarrow> q))"

section \<open>Model: per-user overrides\<close>

datatype 'a quota_override = Default | Unlimited | Value 'a

definition MAX_RATE_COLUMN_LEN :: nat where "MAX_RATE_COLUMN_LEN = 32"
definition DB_UNLIMITED_SENTINEL :: int where "DB_UNLIMITED_SENTINEL = - 1"
definition I32_MAX :: int where "I32_MAX = 2 ^ 31 - 1"

definition is_default :: "'a quota_override \<Rightarrow> bool" where
  "is_default q \<longleftrightarrow> (case q of Default \<Rightarrow> True | _ \<Rightarrow> False)"

text \<open>\<^verbatim>\<open>i32::try_from(v).unwrap_or(i32::MAX)\<close> of an unsigned value.\<close>

definition i32_saturate :: "nat \<Rightarrow> int" where
  "i32_saturate v = (if int v \<le> I32_MAX then int v else I32_MAX)"

fun to_db_int :: "nat quota_override \<Rightarrow> int option" where
  "to_db_int Default = None"
| "to_db_int Unlimited = Some DB_UNLIMITED_SENTINEL"
| "to_db_int (Value v) = Some (i32_saturate v)"

definition from_db_int :: "int option \<Rightarrow> nat quota_override" where
  "from_db_int val =
     (case val of
        None \<Rightarrow> Default
      | Some v \<Rightarrow> if v = DB_UNLIMITED_SENTINEL then Unlimited
                  else if v \<ge> 0 then Value (nat v) else Default)"

fun resolve_with_default :: "'a quota_override \<Rightarrow> 'a option \<Rightarrow> 'a option" where
  "resolve_with_default Default system_default = system_default"
| "resolve_with_default Unlimited system_default = None"
| "resolve_with_default (Value v) system_default = Some v"

fun to_db_varchar :: "bandwidth_quota quota_override \<Rightarrow> string option" where
  "to_db_varchar Default = None"
| "to_db_varchar Unlimited = Some ''unlimited''"
| "to_db_varchar (Value v) = Some (bandwidth_to_string v)"

definition from_db_varchar :: "string option \<Rightarrow> bandwidth_quota quota_override" where
  "from_db_varchar val =
     (case val of
        None \<Rightarrow> Default
      | Some s \<Rightarrow> if s = ''unlimited'' then Unlimited
                  else (case bandwidth_from_str s of Inr rate \<Rightarrow> Value rate | Inl _ \<Rightarrow> Default))"

definition burst_to_i32 :: "nat option \<Rightarrow> int option" where
  "burst_to_i32 value = map_option i32_saturate value"

definition burst_from_i32 :: "int option \<Rightarrow> nat option" where
  "burst_from_i32 value =
     Option.bind value (\<lambda>v. if v < 0 then None else if v = 0 then None else Some (nat v))"

definition validate_rate_value ::
  "string \<Rightarrow> bandwidth_quota quota_override \<Rightarrow> (quota_error, unit) result" where
  "validate_rate_value label field =
     (case field of
        Value b \<Rightarrow>
          (let s = bandwidth_to_string b in
           if length s > MAX_RATE_COLUMN_LEN then Err (RateColumnTooLong label)
           else (case bandwidth_from_str s of Inl _ \<Rightarrow> Err (RateRoundTrip label) | Inr _ \<Rightarrow> Ok ()))
      | _ \<Rightarrow> Ok ())"

definition validate_burst_value :: "string \<Rightarrow> nat option \<Rightarrow> (quota_error, unit) result" where
  "validate_burst_value label burst =
     (case burst of
        Some b \<Rightarrow> if int b > I32_MAX then Err (BurstTooLarge label b) else Ok ()
      | None \<Rightarrow> Ok ())"

definition validate_burst ::
  "string \<Rightarrow> nat option \<Rightarrow> bandwidth_quota quota_override \<Rightarrow> (quota_error, unit) result" where
  "validate_burst label burst rate =
     (if burst \<noteq> None \<and> (case rate of Value _ \<Rightarrow> False | _ \<Rightarrow> True) then Err (BurstNeedsRate label)
      else validate_burst_value label burst)"

fun validate_write_path_entries ::
  "nat \<Rightarrow> storage_path list \<Rightarrow> storage_path list \<Rightarrow> (quota_error, unit) result" where
  "validate_write_path_entries i seen [] = Ok ()"
| "validate_write_path_entries i seen (p # ps) =
     (if as_str p = ''/'' then Err (RootNotAllowed i)
      else if p \<in> set seen then Err (DuplicateWritePath i)
      else validate_write_path_entries (Suc i) (p # seen) ps)"

definition validate_allowed_write_paths :: "storage_path list option \<Rightarrow> (quota_error, unit) result" where
  "validate_allowed_write_paths paths =
     (case paths of Some entries \<Rightarrow> validate_write_path_entries 0 [] entries | None \<Rightarrow> Ok ())"

record user_quota =
  uq_storage_quota_mb :: "nat quota_override"
  uq_rate_read :: "bandwidth_quota quota_override"
  uq_rate_write :: "bandwidth_quota quota_override"
  uq_rate_read_burst :: "nat option"
  uq_rate_write_burst :: "nat option"
  uq_allowed_write_paths :: "storage_path list option"

text \<open>The nullable columns of the \<^verbatim>\<open>users\<close> table.\<close>

record quota_columns =
  col_storage_mb :: "int option"
  col_rate_read :: "string option"
  col_rate_write :: "string option"
  col_rate_read_burst :: "int option"
  col_rate_write_burst :: "int option"
  col_allowed_write_paths :: "string option"

definition from_nullable_columns ::
  "(string \<Rightarrow> storage_path list option) \<Rightarrow> quota_columns \<Rightarrow> user_quota" where
  "from_nullable_columns paths_from_json c =
     \<lparr>uq_storage_quota_mb = from_db_int (col_storage_mb c),
      uq_rate_read = from_db_varchar (col_rate_read c),
      uq_rate_write = from_db_varchar (col_rate_write c),
      uq_rate_read_burst = burst_from_i32 (col_rate_read_burst c),
      uq_rate_write_burst = burst_from_i32 (col_rate_write_burst c),
      uq_allowed_write_paths = map_option (\<lambda>s. case paths_from_json s of
        Some ps \<Rightarrow> ps | None \<Rightarrow> []) (col_allowed_write_paths c)\<rparr>"

definition to_nullable_columns ::
  "(storage_path list \<Rightarrow> string) \<Rightarrow> user_quota \<Rightarrow> quota_columns" where
  "to_nullable_columns paths_to_json q =
     \<lparr>col_storage_mb = to_db_int (uq_storage_quota_mb q),
      col_rate_read = to_db_varchar (uq_rate_read q),
      col_rate_write = to_db_varchar (uq_rate_write q),
      col_rate_read_burst = burst_to_i32 (uq_rate_read_burst q),
      col_rate_write_burst = burst_to_i32 (uq_rate_write_burst q),
      col_allowed_write_paths = map_option paths_to_json (uq_allowed_write_paths q)\<rparr>"

definition is_write_path_allowed :: "user_quota \<Rightarrow> string \<Rightarrow> bool" where
  "is_write_path_allowed q path =
     (case uq_allowed_write_paths q of
        None \<Rightarrow> True
      | Some entries \<Rightarrow> list_ex (\<lambda>entry.
          if is_directory entry then prefix (as_str entry) path else path = as_str entry) entries)"

record default_quotas =
  dq_rate_read :: "bandwidth_quota option"
  dq_rate_write :: "bandwidth_quota option"
  dq_rate_read_burst :: "nat option"
  dq_rate_write_burst :: "nat option"
  dq_unauthenticated_ip_rate_read :: "bandwidth_quota option"

definition resolve_override :: "'a quota_override \<Rightarrow> 'a option \<Rightarrow> 'a quota_override" where
  "resolve_override field dflt =
     (case field of
        Default \<Rightarrow> (case dflt of Some v \<Rightarrow> Value v | None \<Rightarrow> Unlimited)
      | other \<Rightarrow> other)"

definition resolve_with_defaults :: "user_quota \<Rightarrow> nat option \<Rightarrow> default_quotas \<Rightarrow> user_quota" where
  "resolve_with_defaults q default_storage_mb dq =
     \<lparr>uq_storage_quota_mb = resolve_override (uq_storage_quota_mb q) default_storage_mb,
      uq_rate_read = resolve_override (uq_rate_read q) (dq_rate_read dq),
      uq_rate_write = resolve_override (uq_rate_write q) (dq_rate_write dq),
      uq_rate_read_burst = (case uq_rate_read_burst q of Some b \<Rightarrow> Some b
        | None \<Rightarrow> if is_default (uq_rate_read q) then dq_rate_read_burst dq else None),
      uq_rate_write_burst = (case uq_rate_write_burst q of Some b \<Rightarrow> Some b
        | None \<Rightarrow> if is_default (uq_rate_write q) then dq_rate_write_burst dq else None),
      uq_allowed_write_paths = uq_allowed_write_paths q\<rparr>"

definition user_quota_validate :: "user_quota \<Rightarrow> (quota_error, unit) result" where
  "user_quota_validate q =
     and_then (validate_rate_value ''rate_read'' (uq_rate_read q)) (\<lambda>_.
     and_then (validate_rate_value ''rate_write'' (uq_rate_write q)) (\<lambda>_.
     and_then (validate_burst ''rate_read_burst'' (uq_rate_read_burst q) (uq_rate_read q)) (\<lambda>_.
     and_then (validate_burst ''rate_write_burst'' (uq_rate_write_burst q) (uq_rate_write q)) (\<lambda>_.
       validate_allowed_write_paths (uq_allowed_write_paths q)))))"

record user_quota_patch =
  patch_storage_quota_mb :: "nat quota_override option"
  patch_rate_read :: "bandwidth_quota quota_override option"
  patch_rate_write :: "bandwidth_quota quota_override option"
  patch_rate_read_burst :: "nat option option"
  patch_rate_write_burst :: "nat option option"
  patch_allowed_write_paths :: "storage_path list option option"

definition apply_patch :: "'a option \<Rightarrow> 'a \<Rightarrow> 'a" where
  "apply_patch patch old = (case patch of Some v \<Rightarrow> v | None \<Rightarrow> old)"

definition user_quota_merge :: "user_quota \<Rightarrow> user_quota_patch \<Rightarrow> user_quota" where
  "user_quota_merge q patch =
     \<lparr>uq_storage_quota_mb = apply_patch (patch_storage_quota_mb patch) (uq_storage_quota_mb q),
      uq_rate_read = apply_patch (patch_rate_read patch) (uq_rate_read q),
      uq_rate_write = apply_patch (patch_rate_write patch) (uq_rate_write q),
      uq_rate_read_burst = apply_patch (patch_rate_read_burst patch) (uq_rate_read_burst q),
      uq_rate_write_burst = apply_patch (patch_rate_write_burst patch) (uq_rate_write_burst q),
      uq_allowed_write_paths = apply_patch (patch_allowed_write_paths patch) (uq_allowed_write_paths q)\<rparr>"

definition validate_patch_field ::
  "string \<Rightarrow> bandwidth_quota quota_override option \<Rightarrow> (quota_error, unit) result" where
  "validate_patch_field label field =
     (case field of Some f \<Rightarrow> validate_rate_value label f | None \<Rightarrow> Ok ())"

definition option_flatten :: "'a option option \<Rightarrow> 'a option" where
  "option_flatten x = (case x of Some y \<Rightarrow> y | None \<Rightarrow> None)"

definition user_quota_patch_validate :: "user_quota_patch \<Rightarrow> (quota_error, unit) result" where
  "user_quota_patch_validate p =
     and_then (validate_patch_field ''rate_read'' (patch_rate_read p)) (\<lambda>_.
     and_then (validate_patch_field ''rate_write'' (patch_rate_write p)) (\<lambda>_.
     and_then (validate_burst_value ''rate_read_burst'' (option_flatten (patch_rate_read_burst p))) (\<lambda>_.
     and_then (validate_burst_value ''rate_write_burst'' (option_flatten (patch_rate_write_burst p))) (\<lambda>_.
       case patch_allowed_write_paths p of
         Some inner \<Rightarrow> validate_allowed_write_paths inner
       | None \<Rightarrow> Ok ()))))"

section \<open>Text forms round trip\<close>

lemma speed_unit_round_trip: "speed_unit_from_str (speed_unit_to_string u) = Ok u"
  by (cases u) (simp_all add: speed_unit_from_str_def ascii_lower_def)

lemma time_unit_round_trip: "time_unit_from_str (time_unit_to_string u) = Ok u"
  by (cases u) (simp_all add: time_unit_from_str_def)

interpretation speed_unit_text: textual speed_unit_to_string speed_unit_from_str "\<lambda>_. True"
  by unfold_locales (simp_all add: speed_unit_round_trip)

interpretation time_unit_text: textual time_unit_to_string time_unit_from_str "\<lambda>_. True"
  by unfold_locales (simp_all add: time_unit_round_trip)

definition wf_rate :: "nat \<Rightarrow> bool" where "wf_rate n \<longleftrightarrow> 0 < n \<and> n < 2 ^ 32"

lemma parse_nonzero_u32_show [simp]: "wf_rate n \<Longrightarrow> parse_nonzero_u32 (show_nat n) = Some n"
  unfolding parse_nonzero_u32_def wf_rate_def by simp

lemma parse_nonzero_u32_wf: "parse_nonzero_u32 s = Some n \<Longrightarrow> wf_rate n"
  unfolding parse_nonzero_u32_def wf_rate_def
  by (auto simp: bind_eq_Some_conv split: if_splits dest: parse_uint_bound)

lemma show_nat_no_slash [simp]: "CHR ''/'' \<notin> set (show_nat n)"
  by (auto dest: show_nat_chars simp: is_digit_def)

lemma units_no_slash [simp]:
  "CHR ''/'' \<notin> set (speed_unit_to_string u)" "CHR ''/'' \<notin> set (time_unit_to_string t)"
  by (cases u; simp) (cases t; simp)

lemma takeWhile_show_nat:
  "takeWhile is_digit (show_nat n @ speed_unit_to_string u) = show_nat n"
  "dropWhile is_digit (show_nat n @ speed_unit_to_string u) = speed_unit_to_string u"
proof -
  have "\<forall>c \<in> set (show_nat n). is_digit c" by (simp add: show_nat_chars)
  moreover have "takeWhile is_digit (speed_unit_to_string u) = []"
    "dropWhile is_digit (speed_unit_to_string u) = speed_unit_to_string u"
    by (cases u; simp add: is_digit_def)+
  ultimately show "takeWhile is_digit (show_nat n @ speed_unit_to_string u) = show_nat n"
    "dropWhile is_digit (show_nat n @ speed_unit_to_string u) = speed_unit_to_string u"
    by (simp_all add: takeWhile_append2 dropWhile_append2)
qed

abbreviation wf_bandwidth :: "bandwidth_quota \<Rightarrow> bool" where
  "wf_bandwidth q \<equiv> wf_rate (bq_rate q)"

lemma bandwidth_round_trip:
  assumes "wf_bandwidth q"
  shows "bandwidth_from_str (bandwidth_to_string q) = Ok q"
proof -
  have "split_on (CHR ''/'') (bandwidth_to_string q) =
    [show_nat (bq_rate q) @ speed_unit_to_string (bq_unit q), time_unit_to_string (bq_time_unit q)]"
    using split_on_append [of "CHR ''/''" "show_nat (bq_rate q) @ speed_unit_to_string (bq_unit q)"
        "time_unit_to_string (bq_time_unit q)"]
    by (simp add: bandwidth_to_string_def split_on_no_sep)
  then show ?thesis
    using assms
    by (simp add: bandwidth_from_str_def takeWhile_show_nat speed_unit_round_trip time_unit_round_trip)
qed

lemma bandwidth_from_str_wf: "bandwidth_from_str s = Ok q \<Longrightarrow> wf_bandwidth q"
  by (auto simp: bandwidth_from_str_def and_then_ok_iff Let_def parse_nonzero_u32_wf
      split: list.splits if_splits)

interpretation bandwidth_text: textual bandwidth_to_string bandwidth_from_str wf_bandwidth
  by unfold_locales (simp_all add: bandwidth_round_trip bandwidth_from_str_wf)

lemma request_count_round_trip:
  assumes "wf_rate (rq_rate q)"
  shows "request_count_from_str (request_count_to_string q) = Ok q"
proof -
  have "split_once (CHR ''/'') (request_count_to_string q) =
      Some (show_nat (rq_rate q) @ ''r'', time_unit_to_string (rq_time_unit q))"
    by (simp add: split_once_Some_iff request_count_to_string_def)
  then show ?thesis
    using assms by (simp add: request_count_from_str_def time_unit_round_trip strip_suffix_def suffix_def)
qed

lemma request_count_from_str_wf: "request_count_from_str s = Ok q \<Longrightarrow> wf_rate (rq_rate q)"
  by (auto simp: request_count_from_str_def and_then_ok_iff parse_nonzero_u32_wf)

interpretation request_count_text:
  textual request_count_to_string request_count_from_str "\<lambda>q. wf_rate (rq_rate q)"
  by unfold_locales (simp_all add: request_count_round_trip request_count_from_str_wf)

section \<open>Validation and the database encoding\<close>

lemma length_show_nat: "n < 10 ^ Suc k \<Longrightarrow> length (show_nat n) \<le> Suc k"
proof (induction k arbitrary: n)
  case 0
  then show ?case by (subst show_nat.simps) simp
next
  case (Suc k)
  show ?case
  proof (cases "n < 10")
    case True
    then show ?thesis by (subst show_nat.simps) simp
  next
    case False
    have "n div 10 < 10 ^ Suc k" using Suc.prems by (simp add: less_mult_imp_div_less)
    with Suc.IH False show ?thesis by (subst show_nat.simps) simp
  qed
qed

lemma bandwidth_to_string_fits:
  assumes "wf_bandwidth q"
  shows "length (bandwidth_to_string q) \<le> MAX_RATE_COLUMN_LEN"
proof -
  have "bq_rate q < 10 ^ Suc 9" using assms by (simp add: wf_rate_def)
  then have "length (show_nat (bq_rate q)) \<le> 10" using length_show_nat [of _ 9] by simp
  moreover have "length (speed_unit_to_string (bq_unit q)) = 2" by (cases "bq_unit q") auto
  moreover have "length (time_unit_to_string (bq_time_unit q)) = 1" by (cases "bq_time_unit q") auto
  ultimately show ?thesis by (simp add: bandwidth_to_string_def MAX_RATE_COLUMN_LEN_def)
qed

fun wf_override :: "bandwidth_quota quota_override \<Rightarrow> bool" where
  "wf_override (Value b) = wf_bandwidth b"
| "wf_override _ = True"

lemma validate_rate_value_wf: "wf_override f \<Longrightarrow> validate_rate_value label f = Ok ()"
  by (cases f)
     (auto simp: validate_rate_value_def Let_def bandwidth_round_trip
       dest: bandwidth_to_string_fits [unfolded not_less [symmetric]])

lemma bandwidth_not_unlimited: "wf_bandwidth b \<Longrightarrow> bandwidth_to_string b \<noteq> ''unlimited''"
proof
  assume wf: "wf_bandwidth b" and "bandwidth_to_string b = ''unlimited''"
  then have "bandwidth_from_str ''unlimited'' = Ok b" using bandwidth_round_trip [OF wf] by simp
  then show False by (simp add: bandwidth_from_str_def)
qed

lemma varchar_round_trip: "wf_override f \<Longrightarrow> from_db_varchar (to_db_varchar f) = f"
  by (cases f) (simp_all add: from_db_varchar_def bandwidth_round_trip bandwidth_not_unlimited)

fun storage_fits :: "nat quota_override \<Rightarrow> bool" where
  "storage_fits (Value v) \<longleftrightarrow> int v \<le> I32_MAX"
| "storage_fits _ \<longleftrightarrow> True"

lemma db_int_round_trip: "storage_fits f \<Longrightarrow> from_db_int (to_db_int f) = f"
  by (cases f) (simp_all add: from_db_int_def DB_UNLIMITED_SENTINEL_def i32_saturate_def)

lemma burst_round_trip:
  "validate_burst_value label b = Ok () \<Longrightarrow> b \<noteq> Some 0 \<Longrightarrow> burst_from_i32 (burst_to_i32 b) = b"
  by (cases b)
     (auto simp: validate_burst_value_def burst_from_i32_def burst_to_i32_def i32_saturate_def
       split: if_splits)

lemma validate_burst_imp_value: "validate_burst label b r = Ok () \<Longrightarrow> validate_burst_value label b = Ok ()"
  by (auto simp: validate_burst_def split: if_splits)

definition wf_user_quota :: "user_quota \<Rightarrow> bool" where
  "wf_user_quota q \<longleftrightarrow> wf_override (uq_rate_read q) \<and> wf_override (uq_rate_write q)
     \<and> uq_rate_read_burst q \<noteq> Some 0 \<and> uq_rate_write_burst q \<noteq> Some 0"

lemma validate_write_path_entries_ok:
  "validate_write_path_entries i seen ps = Ok () \<longleftrightarrow>
   (\<forall>p \<in> set ps. as_str p \<noteq> ''/'') \<and> distinct ps \<and> set ps \<inter> set seen = {}"
  by (induction ps arbitrary: i seen) auto

lemma validate_allowed_write_paths_ok:
  "validate_allowed_write_paths ps = Ok () \<longleftrightarrow>
   (case ps of None \<Rightarrow> True | Some es \<Rightarrow> (\<forall>p \<in> set es. as_str p \<noteq> ''/'') \<and> distinct es)"
  by (cases ps) (simp_all add: validate_allowed_write_paths_def validate_write_path_entries_ok)

lemma is_write_path_allowed_covers:
  "is_write_path_allowed q (as_str p) \<longleftrightarrow>
   (case uq_allowed_write_paths q of None \<Rightarrow> True | Some es \<Rightarrow> \<exists>e \<in> set es. covers_path e p)"
proof -
  have "(if is_directory e then prefix (as_str e) (as_str p) else as_str p = as_str e) =
      covers_path e p" for e
    by (cases e; cases p) (auto simp: covers_path_def)
  then show ?thesis by (simp only: is_write_path_allowed_def list_ex_iff)
qed

lemma quota_columns_rt:
  assumes "wf_user_quota q" and "user_quota_validate q = Ok ()"
    and "storage_fits (uq_storage_quota_mb q)"
    and "\<forall>ps. uq_allowed_write_paths q = Some ps \<longrightarrow> paths_from_json (paths_to_json ps) = Some ps"
  shows "from_nullable_columns paths_from_json (to_nullable_columns paths_to_json q) = q"
proof -
  have b: "validate_burst_value ''rate_read_burst'' (uq_rate_read_burst q) = Ok ()"
    "validate_burst_value ''rate_write_burst'' (uq_rate_write_burst q) = Ok ()"
    using assms(2) by (auto simp: user_quota_validate_def and_then_ok_iff dest: validate_burst_imp_value)
  have "map_option (\<lambda>s. case paths_from_json s of Some ps \<Rightarrow> ps | None \<Rightarrow> [])
      (map_option paths_to_json (uq_allowed_write_paths q)) = uq_allowed_write_paths q"
    using assms(4) by (cases "uq_allowed_write_paths q") simp_all
  then show ?thesis
    using assms(1,3) b
    by (simp add: from_nullable_columns_def to_nullable_columns_def wf_user_quota_def
        varchar_round_trip db_int_round_trip burst_round_trip)
qed

section \<open>Properties\<close>

text \<open>The database encoding of a quota loses nothing: a validated quota whose
  storage limit fits the INTEGER column is read back unchanged from the columns
  it is written to, for any JSON codec that round trips the allow list.\<close>

theorem quota_columns_round_trip:
  assumes "wf_user_quota q" and "user_quota_validate q = Ok ()"
    and "storage_fits (uq_storage_quota_mb q)"
    and "\<forall>ps. uq_allowed_write_paths q = Some ps \<longrightarrow> paths_from_json (paths_to_json ps) = Some ps"
  shows "from_nullable_columns paths_from_json (to_nullable_columns paths_to_json q) = q"
  using assms by (rule quota_columns_rt)

theorem quota_columns_round_trip_witness:
  "from_nullable_columns (\<lambda>s. Some [StoragePath s])
     (to_nullable_columns (\<lambda>ps. as_str (hd ps))
       \<lparr>uq_storage_quota_mb = Value 500,
        uq_rate_read = Value \<lparr>bq_rate = 10, bq_unit = Megabyte, bq_time_unit = Second\<rparr>,
        uq_rate_write = Unlimited, uq_rate_read_burst = Some 50, uq_rate_write_burst = None,
        uq_allowed_write_paths = Some [StoragePath ''/pub/a/'']\<rparr>) =
   \<lparr>uq_storage_quota_mb = Value 500,
    uq_rate_read = Value \<lparr>bq_rate = 10, bq_unit = Megabyte, bq_time_unit = Second\<rparr>,
    uq_rate_write = Unlimited, uq_rate_read_burst = Some 50, uq_rate_write_burst = None,
    uq_allowed_write_paths = Some [StoragePath ''/pub/a/'']\<rparr>"
  (is "from_nullable_columns ?f (to_nullable_columns ?g ?q) = ?q")
proof -
  have a: "wf_user_quota ?q" "storage_fits (uq_storage_quota_mb ?q)"
    by (simp_all add: wf_user_quota_def wf_rate_def I32_MAX_def)
  have b: "user_quota_validate ?q = Ok ()" by code_simp
  show ?thesis using quota_columns_round_trip [OF a(1) b a(2), of ?f ?g] by simp
qed

text \<open>C29: When the conversion of a bandwidth rate panics: the conversion to a governor
  quota succeeds exactly when the number of cells, the rate in kilobytes modulo
  2 to the 32, is neither zero nor above one cell per nanosecond; and validation
  does not exclude the panics: rates that pass it, such as \<^verbatim>\<open>4096gb/s\<close> (the product
  wraps to zero) and \<^verbatim>\<open>1000gb/s\<close> (the interval rounds to zero), panic.\<close>

theorem bandwidth_conversion_panics:
  "(to_governor_quota q burst = None \<longleftrightarrow>
     (bq_rate q * multiplier (bq_unit q)) mod 2 ^ 32 = 0 \<or>
     (bq_rate q * multiplier (bq_unit q)) mod 2 ^ 32 > time_unit_secs (bq_time_unit q) * 1000000000) \<and>
   (let wraps = \<lparr>bq_rate = 4096, bq_unit = Gigabyte, bq_time_unit = Second\<rparr>;
        fast = \<lparr>bq_rate = 1000, bq_unit = Gigabyte, bq_time_unit = Second\<rparr>
    in bandwidth_from_str ''4096gb/s'' = Ok wraps \<and> bandwidth_from_str ''1000gb/s'' = Ok fast \<and>
       validate_rate_value ''rate_read'' (Value wraps) = Ok () \<and>
       validate_rate_value ''rate_read'' (Value fast) = Ok () \<and>
       to_governor_quota wraps None = None \<and> to_governor_quota fast None = None)"
proof
  show "to_governor_quota q burst = None \<longleftrightarrow>
     (bq_rate q * multiplier (bq_unit q)) mod 2 ^ 32 = 0 \<or>
     (bq_rate q * multiplier (bq_unit q)) mod 2 ^ 32 > time_unit_secs (bq_time_unit q) * 1000000000"
    unfolding to_governor_quota_def duration_div_def Let_def by (simp add: div_eq_0_iff)
qed code_simp

text \<open>Resolution against the defaults is total: after \<^verbatim>\<open>resolve_with_defaults\<close> no
  limit is left at \<^verbatim>\<open>Default\<close>, resolving again with any other defaults changes no
  limit, the effective limit agrees with \<^verbatim>\<open>resolve_with_default\<close>, and a default
  burst is only used together with the default rate.\<close>

theorem resolve_with_defaults_total:
  "let r = resolve_with_defaults q mb dq in
   uq_storage_quota_mb r \<noteq> Default \<and> uq_rate_read r \<noteq> Default \<and> uq_rate_write r \<noteq> Default \<and>
   resolve_with_defaults r mb' dq' = r \<and>
   resolve_with_default (uq_storage_quota_mb r) mb' = resolve_with_default (uq_storage_quota_mb q) mb \<and>
   resolve_with_default (uq_rate_read r) (dq_rate_read dq') =
     resolve_with_default (uq_rate_read q) (dq_rate_read dq) \<and>
   (uq_rate_read_burst q = None \<and> \<not> is_default (uq_rate_read q) \<longrightarrow> uq_rate_read_burst r = None) \<and>
   (uq_rate_write_burst q = None \<and> \<not> is_default (uq_rate_write q) \<longrightarrow> uq_rate_write_burst r = None)"
proof -
  have o: "resolve_override f d \<noteq> Default" "resolve_override (resolve_override f d) e = resolve_override f d"
    "resolve_with_default (resolve_override f d) e = resolve_with_default f d"
    "\<not> is_default (resolve_override f d)" for f :: "'a quota_override" and d e
    by (cases f; cases d; simp add: resolve_override_def is_default_def)+
  show ?thesis by (simp add: resolve_with_defaults_def Let_def o split: option.splits)
qed

theorem resolve_with_defaults_total_witness:
  "let q = \<lparr>uq_storage_quota_mb = Default, uq_rate_read = Unlimited, uq_rate_write = Default,
            uq_rate_read_burst = None, uq_rate_write_burst = None, uq_allowed_write_paths = None\<rparr>;
       dq = \<lparr>dq_rate_read = None, dq_rate_write = None, dq_rate_read_burst = Some 7,
             dq_rate_write_burst = None, dq_unauthenticated_ip_rate_read = None\<rparr>
   in uq_rate_read_burst (resolve_with_defaults q (Some 3) dq) = None \<and>
      uq_storage_quota_mb (resolve_with_defaults q (Some 3) dq) = Value 3"
proof -
  let ?q = "\<lparr>uq_storage_quota_mb = Default, uq_rate_read = Unlimited, uq_rate_write = Default,
            uq_rate_read_burst = None, uq_rate_write_burst = None, uq_allowed_write_paths = None\<rparr>"
  let ?dq = "\<lparr>dq_rate_read = None, dq_rate_write = None, dq_rate_read_burst = Some 7,
             dq_rate_write_burst = None, dq_unauthenticated_ip_rate_read = None\<rparr>"
  have "uq_storage_quota_mb (resolve_with_defaults ?q (Some 3) ?dq) = Value 3"
    by (simp add: resolve_with_defaults_def resolve_override_def)
  then show ?thesis
    using resolve_with_defaults_total [of ?q "Some 3" ?dq None ?dq]
    by (simp add: Let_def is_default_def)
qed

text \<open>The write allow list is a scope check: a path is allowed exactly when there is
  no list or an entry of the list covers it, by whole components for canonical
  paths; the empty list allows nothing; and validation accepts a list exactly when
  it has no duplicate and does not contain the root.\<close>

theorem write_allow_list_exact:
  "(is_write_path_allowed q (as_str p) \<longleftrightarrow>
      (case uq_allowed_write_paths q of None \<Rightarrow> True | Some es \<Rightarrow> \<exists>e \<in> set es. covers_path e p)) \<and>
   (validate_allowed_write_paths (uq_allowed_write_paths q) = Ok () \<longleftrightarrow>
      (case uq_allowed_write_paths q of None \<Rightarrow> True
       | Some es \<Rightarrow> distinct es \<and> storage_path_root \<notin> set es))"
proof
  have "(\<forall>p \<in> set es. as_str p \<noteq> ''/'') \<longleftrightarrow> storage_path_root \<notin> set es" for es
    by (metis storage_path.collapse storage_path.sel storage_path_root_def)
  then show "validate_allowed_write_paths (uq_allowed_write_paths q) = Ok () \<longleftrightarrow>
      (case uq_allowed_write_paths q of None \<Rightarrow> True
       | Some es \<Rightarrow> distinct es \<and> storage_path_root \<notin> set es)"
    by (auto simp: validate_allowed_write_paths_ok split: option.splits)
qed (rule is_write_path_allowed_covers)

end
