(* ===== verification/Paging.thy ===== *)
theory Paging
  imports Pubky_Prelude
begin

text \<open>
  Keyset pagination (\<^verbatim>\<open>pubky-homeserver/src/shared/utils.rs\<close>): the list limit, the
  split of \<^verbatim>\<open>limit + 1\<close> rows into a page and the cursor of the next page, and the
  interface every paged listing implements.  The lemma of the interface is that
  following the cursors returns every row exactly once, in order.
\<close>

section \<open>Model\<close>

definition DEFAULT_LIST_LIMIT :: nat where "DEFAULT_LIST_LIMIT = 100"
definition DEFAULT_MAX_LIST_LIMIT :: nat where "DEFAULT_MAX_LIST_LIMIT = 1000"

definition effective_list_limit :: "nat option \<Rightarrow> nat" where
  "effective_list_limit limit =
     min (case limit of Some l \<Rightarrow> l | None \<Rightarrow> DEFAULT_LIST_LIMIT) DEFAULT_MAX_LIST_LIMIT"

definition split_list_page :: "'a list \<Rightarrow> nat \<Rightarrow> ('a \<Rightarrow> 'c) \<Rightarrow> 'a list \<times> 'c option" where
  "split_list_page rows limit cursor =
     (if length rows > limit
      then (let page = take limit rows
            in (page, if page = [] then None else Some (cursor (last page))))
      else (rows, None))"

text \<open>\<^verbatim>\<open>parse_bool\<close>: the spellings of a boolean query parameter.\<close>

definition parse_bool :: "string \<Rightarrow> bool option" where
  "parse_bool value =
     (let l = to_lowercase value in
      if l \<in> {''true'', ''yes'', ''1'', ''''} then Some True
      else if l \<in> {''false'', ''no'', ''0''} then Some False
      else None)"

section \<open>Following the cursors\<close>

text \<open>A client that follows the cursors: \<^verbatim>\<open>fetch\<close> returns a page and the next
  cursor.\<close>

fun collect_pages :: "nat \<Rightarrow> ('c option \<Rightarrow> 'a list \<times> 'c option) \<Rightarrow> 'c option \<Rightarrow> 'a list" where
  "collect_pages 0 fetch c = []"
| "collect_pages (Suc n) fetch c =
     (case fetch c of
        (items, None) \<Rightarrow> items
      | (items, Some c') \<Rightarrow> items @ collect_pages n fetch (Some c'))"

lemma effective_list_limit_bound: "effective_list_limit l \<le> DEFAULT_MAX_LIST_LIMIT"
  by (simp add: effective_list_limit_def)

lemma effective_list_limit_pos: "l \<noteq> Some 0 \<Longrightarrow> 0 < effective_list_limit l"
  by (auto simp: effective_list_limit_def DEFAULT_LIST_LIMIT_def DEFAULT_MAX_LIST_LIMIT_def
      split: option.splits)

lemma last_take: "0 < n \<Longrightarrow> n \<le> length xs \<Longrightarrow> last (take n xs) = xs ! (n - 1)"
  by (cases n) (simp_all add: take_Suc_conv_app_nth)

lemma sorted_wrt_filter_after:
  assumes "sorted_wrt lt xs" and "\<And>x. \<not> lt x x" and "\<And>x y. lt x y \<Longrightarrow> \<not> lt y x"
    and "0 < n" and "n \<le> length xs"
  shows "filter (lt (last (take n xs))) xs = drop n xs"
proof -
  have lst: "last (take n xs) = xs ! (n - 1)" using assms(4,5) by (simp add: last_take)
  have "filter (lt (xs ! (n - 1))) (take n xs) = []"
  proof -
    have "\<not> lt (xs ! (n - 1)) (xs ! i)" if "i < n" for i
    proof (cases "i = n - 1")
      case False
      then have "lt (xs ! i) (xs ! (n - 1))"
        using that assms(1,4,5) by (simp add: sorted_wrt_iff_nth_less)
      then show ?thesis by (rule assms(3))
    qed (simp add: assms(2))
    then show ?thesis using assms(5) by (auto simp: filter_empty_conv in_set_conv_nth)
  qed
  moreover have "filter (lt (xs ! (n - 1))) (drop n xs) = drop n xs"
    using assms(1,4,5) by (auto simp: filter_id_conv in_set_conv_nth sorted_wrt_iff_nth_less)
  ultimately show ?thesis using lst by (metis append_take_drop_id filter_append append_Nil)
qed

section \<open>Interface: a paged listing\<close>

text \<open>A listing of the rows of a state in a strict order.  \<^verbatim>\<open>fetch\<close> asks for one
  row more than the limit, restricted to the rows after the cursor, and splits
  the page; the cursor of a row leads back to its position.\<close>

locale paged_listing =
  fixes rows :: "'t \<Rightarrow> 'a list"
    and lt :: "'t \<Rightarrow> 'a \<Rightarrow> 'a \<Rightarrow> bool"
    and cursor :: "'a \<Rightarrow> 'c"
    and limit :: "'t \<Rightarrow> nat"
    and fetch :: "'t \<Rightarrow> 'c option \<Rightarrow> 'a list \<times> 'c option"
    and invar :: "'t \<Rightarrow> bool"
  assumes sorted_rows: "invar t \<Longrightarrow> sorted_wrt (lt t) (rows t)"
    and lt_irrefl: "\<not> lt t x x"
    and lt_asym: "lt t x y \<Longrightarrow> \<not> lt t y x"
    and limit_pos: "invar t \<Longrightarrow> 0 < limit t"
    and fetch_first: "invar t \<Longrightarrow>
      fetch t None = split_list_page (take (Suc (limit t)) (rows t)) (limit t) cursor"
    and fetch_next: "invar t \<Longrightarrow> r \<in> set (rows t) \<Longrightarrow>
      fetch t (Some (cursor r)) =
        split_list_page (take (Suc (limit t)) (filter (lt t r) (rows t))) (limit t) cursor"
begin

lemma distinct_rows: "invar t \<Longrightarrow> distinct (rows t)"
  using sorted_rows [of t] lt_irrefl
  by (metis distinct_conv_nth nth_mem sorted_wrt_iff_nth_less linorder_neqE_nat)

lemma split_page_drop:
  assumes "invar t"
  shows "split_list_page (take (Suc (limit t)) (drop k (rows t))) (limit t) cursor =
   (if length (rows t) > k + limit t
    then (take (limit t) (drop k (rows t)), Some (cursor (last (take (k + limit t) (rows t)))))
    else (drop k (rows t), None))"
proof (cases "length (rows t) > k + limit t")
  case True
  have pos: "0 < limit t" using assms by (rule limit_pos)
  have "take (k + limit t) (rows t) = take k (rows t) @ take (limit t) (drop k (rows t))"
    by (rule take_add)
  moreover have "take (limit t) (drop k (rows t)) \<noteq> []" using True pos by simp
  ultimately have "last (take (limit t) (drop k (rows t))) = last (take (k + limit t) (rows t))" by simp
  moreover have "length (take (Suc (limit t)) (drop k (rows t))) > limit t" using True by simp
  ultimately show ?thesis
    using True pos unfolding split_list_page_def Let_def by simp
qed (auto simp: split_list_page_def)

lemma fetch_after:
  assumes "invar t" "0 < k" "k < length (rows t)"
  shows "fetch t (Some (cursor (last (take k (rows t))))) =
    split_list_page (take (Suc (limit t)) (drop k (rows t))) (limit t) cursor"
proof -
  have "last (take k (rows t)) \<in> set (rows t)" using assms by (simp add: last_take)
  then show ?thesis
    using fetch_next [OF assms(1)] assms
      sorted_wrt_filter_after [OF sorted_rows [OF assms(1)] lt_irrefl lt_asym, of k] by simp
qed

lemma collect_from:
  "invar t \<Longrightarrow> 0 < k \<Longrightarrow> k < length (rows t) \<Longrightarrow> length (rows t) - k \<le> n \<Longrightarrow>
   collect_pages n (fetch t) (Some (cursor (last (take k (rows t))))) = drop k (rows t)"
proof (induction n arbitrary: k)
  case (Suc n)
  show ?case
  proof (cases "length (rows t) > k + limit t")
    case True
    have "collect_pages n (fetch t) (Some (cursor (last (take (k + limit t) (rows t))))) =
        drop (k + limit t) (rows t)"
      using Suc.IH [of "k + limit t"] Suc.prems True limit_pos [of t] by simp
    moreover have "take (limit t) (drop k (rows t)) @ drop (k + limit t) (rows t) = drop k (rows t)"
      by (metis add.commute append_take_drop_id drop_drop)
    ultimately show ?thesis
      using True Suc.prems by (simp add: fetch_after split_page_drop)
  next
    case False
    then show ?thesis
      using Suc.prems split_page_drop [of t k] fetch_after [of t k] by simp
  qed
qed simp

lemma collect_all:
  assumes "invar t" "length (rows t) < n"
  shows "collect_pages n (fetch t) None = rows t"
proof (cases n)
  case (Suc m)
  have first: "fetch t None = split_list_page (take (Suc (limit t)) (drop 0 (rows t))) (limit t) cursor"
    using fetch_first [OF assms(1)] by simp
  show ?thesis
  proof (cases "length (rows t) > limit t")
    case True
    have "collect_pages m (fetch t) (Some (cursor (last (take (limit t) (rows t))))) = drop (limit t) (rows t)"
      using collect_from [of t "limit t" m] assms Suc True limit_pos [of t] by simp
    then show ?thesis
      using True Suc unfolding Suc collect_pages.simps first split_page_drop [OF assms(1)] by simp
  next
    case False
    then show ?thesis
      unfolding Suc collect_pages.simps first split_page_drop [OF assms(1)] by simp
  qed
qed (use assms in simp)

end

section \<open>Interface: a feed read until it is empty\<close>

text \<open>A client without page cursors: it asks for the rows after the last one it has
  seen and stops at the first empty answer.  \<^verbatim>\<open>drain\<close> is that loop, with a bound on
  the number of requests.\<close>

fun drain :: "nat \<Rightarrow> ('a option \<Rightarrow> 'a list) \<Rightarrow> 'a option \<Rightarrow> 'a list option" where
  "drain 0 fetch c = None"
| "drain (Suc n) fetch c =
     (case fetch c of
        [] \<Rightarrow> Some []
      | items \<Rightarrow> map_option (\<lambda>rest. items @ rest) (drain n fetch (Some (last items))))"

lemma drain_Suc:
  "fetch c \<noteq> [] \<Longrightarrow>
   drain (Suc n) fetch c = map_option ((@) (fetch c)) (drain n fetch (Some (last (fetch c))))"
  by (cases "fetch c") simp_all

lemma append_take_drop_min: "take l xs @ drop (min l (length xs)) xs = xs"
  by (simp add: min_def)

locale keyset_feed =
  fixes rows :: "'t \<Rightarrow> 'a list"
    and lt :: "'t \<Rightarrow> 'a \<Rightarrow> 'a \<Rightarrow> bool"
    and limit :: "'t \<Rightarrow> nat"
    and fetch :: "'t \<Rightarrow> 'a option \<Rightarrow> 'a list"
    and invar :: "'t \<Rightarrow> bool"
  assumes sorted_rows: "invar t \<Longrightarrow> sorted_wrt (lt t) (rows t)"
    and lt_irrefl: "\<not> lt t x x"
    and lt_asym: "lt t x y \<Longrightarrow> \<not> lt t y x"
    and limit_pos: "invar t \<Longrightarrow> 0 < limit t"
    and fetch_first: "invar t \<Longrightarrow> fetch t None = take (limit t) (rows t)"
    and fetch_next: "invar t \<Longrightarrow> r \<in> set (rows t) \<Longrightarrow>
      fetch t (Some r) = take (limit t) (filter (lt t r) (rows t))"
begin

lemma fetch_after:
  assumes "invar t" "0 < k" "k \<le> length (rows t)"
  shows "fetch t (Some (last (take k (rows t)))) = take (limit t) (drop k (rows t))"
proof -
  have "last (take k (rows t)) \<in> set (rows t)" using assms by (simp add: last_take)
  then show ?thesis
    using fetch_next [OF assms(1)] assms
      sorted_wrt_filter_after [OF sorted_rows [OF assms(1)] lt_irrefl lt_asym, of k] by simp
qed

lemma drain_step:
  assumes "invar t" "k < length (rows t)"
  shows "last (take (limit t) (drop k (rows t))) = last (take (k + limit t) (rows t))"
    and "take (limit t) (drop k (rows t)) \<noteq> []"
proof -
  show "take (limit t) (drop k (rows t)) \<noteq> []" using assms limit_pos [of t] by simp
  then show "last (take (limit t) (drop k (rows t))) = last (take (k + limit t) (rows t))"
    by (simp add: take_add)
qed

lemma drain_from:
  "invar t \<Longrightarrow> 0 < k \<Longrightarrow> k \<le> length (rows t) \<Longrightarrow> length (rows t) - k < n \<Longrightarrow>
   drain n (fetch t) (Some (last (take k (rows t)))) = Some (drop k (rows t))"
proof (induction n arbitrary: k)
  case (Suc n)
  show ?case
  proof (cases "k < length (rows t)")
    case True
    let ?items = "take (limit t) (drop k (rows t))" and ?k = "min (k + limit t) (length (rows t))"
    have same: "take (k + limit t) (rows t) = take ?k (rows t)" by (simp add: min_def)
    have "drain n (fetch t) (Some (last (take ?k (rows t)))) = Some (drop ?k (rows t))"
      using Suc.prems True limit_pos [OF Suc.prems(1)] by (intro Suc.IH) auto
    moreover have "drop ?k (rows t) = drop (limit t) (drop k (rows t))" by (simp add: min_def add.commute)
    ultimately show ?thesis
      using drain_step [OF Suc.prems(1) True] same fetch_after [OF Suc.prems(1-3)]
        append_take_drop_id [of "limit t" "drop k (rows t)"]
      by (simp add: drain_Suc del: drain.simps append_take_drop_id)
  qed (use Suc.prems fetch_after [of t k] in simp)
qed simp

lemma drain_all:
  assumes "invar t" "length (rows t) < n"
  shows "drain n (fetch t) None = Some (rows t)"
proof (cases n)
  case (Suc m)
  show ?thesis
  proof (cases "rows t = []")
    case False
    let ?k = "min (limit t) (length (rows t))"
    have "drain m (fetch t) (Some (last (take ?k (rows t)))) = Some (drop ?k (rows t))"
      using drain_from [of t ?k m] assms Suc False limit_pos [of t] by (cases "rows t") auto
    moreover have "take (limit t) (rows t) = take ?k (rows t)" by (simp add: min_def)
    moreover have "take ?k (rows t) \<noteq> []" using False limit_pos [of t] assms(1) by simp
    ultimately show ?thesis
      using Suc fetch_first [OF assms(1)] append_take_drop_min [of "limit t" "rows t"]
      by (simp add: drain_Suc del: drain.simps take_eq_Nil)
  qed (use Suc fetch_first [OF assms(1)] in simp)
qed (use assms in simp)

end

end
