(* ===== verification/Users.thy ===== *)
theory Users
  imports Quota Paging "HOL-Library.AList" "HOL-Library.Product_Lexorder"
begin

text \<open>
  User accounts: the \<^verbatim>\<open>users\<close> table (\<^verbatim>\<open>persistence/sql/entities/user.rs\<close>), the user
  service (\<^verbatim>\<open>services/user_service/service.rs\<close>) and its quota cache
  (\<^verbatim>\<open>services/user_service/quota_cache.rs\<close>).  A table is the list of its rows with
  its id sequence; the row locks (\<^verbatim>\<open>FOR UPDATE\<close>, \<^verbatim>\<open>FOR NO KEY UPDATE\<close>) make the
  transactions that use them atomic, which is how they are modelled.  Instants
  are microseconds.  The JSON codec of the write allow list is a parameter.
\<close>

section \<open>Model: the users table\<close>

datatype sql_error =
    RowNotFound
  | UniqueViolation
  | InvalidArgument quota_error
  | DecodeError

record user_entity =
  ue_id :: int
  ue_public_key :: public_key
  ue_created_at :: int
  ue_disabled :: bool
  ue_used_bytes :: nat
  ue_quota_columns :: quota_columns

record user_table =
  ut_rows :: "user_entity list"
  ut_seq :: int

definition NULL_COLUMNS :: quota_columns where
  "NULL_COLUMNS = \<lparr>col_storage_mb = None, col_rate_read = None, col_rate_write = None,
     col_rate_read_burst = None, col_rate_write_burst = None, col_allowed_write_paths = None\<rparr>"

definition user_entity_quota :: "(string \<Rightarrow> storage_path list option) \<Rightarrow> user_entity \<Rightarrow> user_quota" where
  "user_entity_quota from_json u = from_nullable_columns from_json (ue_quota_columns u)"

definition user_create :: "int \<Rightarrow> public_key \<Rightarrow> user_table \<Rightarrow> (sql_error, user_entity \<times> user_table) result" where
  "user_create now pk t =
     (if row_of ue_public_key (ut_rows t) pk \<noteq> None then Err UniqueViolation
      else let u = \<lparr>ue_id = ut_seq t, ue_public_key = pk, ue_created_at = now, ue_disabled = False,
                    ue_used_bytes = 0, ue_quota_columns = NULL_COLUMNS\<rparr>
           in Ok (u, \<lparr>ut_rows = ut_rows t @ [u], ut_seq = ut_seq t + 1\<rparr>))"

definition user_get :: "public_key \<Rightarrow> user_table \<Rightarrow> (sql_error, user_entity) result" where
  "user_get pk t = ok_or RowNotFound (row_of ue_public_key (ut_rows t) pk)"

definition user_get_id :: "public_key \<Rightarrow> user_table \<Rightarrow> (sql_error, int) result" where
  "user_get_id pk t = map_ok ue_id (user_get pk t)"

definition user_update :: "user_entity \<Rightarrow> user_table \<Rightarrow> (sql_error, user_table) result" where
  "user_update u t =
     (if row_of ue_id (ut_rows t) (ue_id u) = None then Err RowNotFound
      else Ok (t\<lparr>ut_rows := update_where (\<lambda>r. ue_id r = ue_id u)
        (\<lambda>r. r\<lparr>ue_disabled := ue_disabled u, ue_used_bytes := ue_used_bytes u\<rparr>) (ut_rows t)\<rparr>))"

definition user_set_quota ::
  "(storage_path list \<Rightarrow> string) \<Rightarrow> int \<Rightarrow> user_quota \<Rightarrow> user_table \<Rightarrow>
   (sql_error, user_entity \<times> user_table) result" where
  "user_set_quota to_json user_id config t =
     and_then (map_err InvalidArgument (user_quota_validate config)) (\<lambda>_.
       let rows = update_where (\<lambda>r. ue_id r = user_id)
             (\<lambda>r. r\<lparr>ue_quota_columns := to_nullable_columns to_json config\<rparr>) (ut_rows t)
       in map_ok (\<lambda>u. (u, t\<lparr>ut_rows := rows\<rparr>)) (ok_or RowNotFound (row_of ue_id rows user_id)))"

datatype user_list_state = AllUsers | EnabledUsers | DisabledUsers

fun state_disabled :: "user_list_state \<Rightarrow> bool option" where
  "state_disabled AllUsers = None"
| "state_disabled EnabledUsers = Some False"
| "state_disabled DisabledUsers = Some True"

datatype user_list_sort_by = CreatedAt | UsedBytes

fun sort_value :: "user_list_sort_by \<Rightarrow> user_entity \<Rightarrow> int" where
  "sort_value CreatedAt u = ue_created_at u"
| "sort_value UsedBytes u = int (ue_used_bytes u)"

record user_list_query =
  lq_state :: user_list_state
  lq_sort_by :: user_list_sort_by
  lq_reverse :: bool
  lq_limit :: "nat option"
  lq_cursor :: "public_key option"

text \<open>The row value \<^verbatim>\<open>(sort column, id)\<close> the listing is ordered by.\<close>

definition list_position :: "user_list_query \<Rightarrow> user_entity \<Rightarrow> int \<times> int" where
  "list_position q u = (sort_value (lq_sort_by q) u, ue_id u)"

definition user_list_before :: "user_list_query \<Rightarrow> user_entity \<Rightarrow> user_entity \<Rightarrow> bool" where
  "user_list_before q u v =
     (if lq_reverse q then list_position q v < list_position q u
      else list_position q u < list_position q v)"

definition user_list_rows :: "user_list_query \<Rightarrow> user_table \<Rightarrow> user_entity list" where
  "user_list_rows q t =
     (let selected = filter (\<lambda>u. case state_disabled (lq_state q) of
             None \<Rightarrow> True | Some d \<Rightarrow> ue_disabled u = d) (ut_rows t);
          ascending = sort_key (list_position q) selected
      in if lq_reverse q then rev ascending else ascending)"

definition user_list ::
  "user_list_query \<Rightarrow> user_table \<Rightarrow> (sql_error, user_entity list \<times> public_key option) result" where
  "user_list q t =
     map_ok (\<lambda>rows. let limit = effective_list_limit (lq_limit q)
        in split_list_page (take (limit + 1) rows) limit ue_public_key)
     (case lq_cursor q of
        None \<Rightarrow> Ok (user_list_rows q t)
      | Some cursor \<Rightarrow> map_ok (\<lambda>cursor_user. filter (user_list_before q cursor_user) (user_list_rows q t))
          (user_get cursor t))"

record user_overview =
  uo_count :: nat
  uo_disabled_count :: nat
  uo_total_used_mb :: nat

text \<open>\<^verbatim>\<open>SUM(used_bytes) / 1048576\<close> is numeric and its cast to \<^verbatim>\<open>bigint\<close> rounds to the
  nearest integer.\<close>

definition user_get_overview :: "user_table \<Rightarrow> user_overview" where
  "user_get_overview t =
     \<lparr>uo_count = length (ut_rows t),
      uo_disabled_count = length (filter ue_disabled (ut_rows t)),
      uo_total_used_mb = (2 * sum_list (map ue_used_bytes (ut_rows t)) + 1048576) div (2 * 1048576)\<rparr>"

section \<open>Model: the quota cache\<close>

record cached_entry =
  ce_config :: "user_quota option"
  ce_cached_at :: int
  ce_ttl :: int

type_synonym quota_cache = "(public_key \<times> cached_entry) list"

definition CACHE_TTL :: int where "CACHE_TTL = 120 * 1000000"
definition NEGATIVE_CACHE_TTL :: int where "NEGATIVE_CACHE_TTL = 30 * 1000000"
definition MAX_ENTRIES :: nat where "MAX_ENTRIES = 100000"

definition entry_found :: "int \<Rightarrow> user_quota \<Rightarrow> cached_entry" where
  "entry_found now config = \<lparr>ce_config = Some config, ce_cached_at = now, ce_ttl = CACHE_TTL\<rparr>"

definition entry_not_found :: "int \<Rightarrow> cached_entry" where
  "entry_not_found now = \<lparr>ce_config = None, ce_cached_at = now, ce_ttl = NEGATIVE_CACHE_TTL\<rparr>"

definition is_expired :: "int \<Rightarrow> cached_entry \<Rightarrow> bool" where
  "is_expired now e \<longleftrightarrow> now - ce_cached_at e > ce_ttl e"

definition cache_get :: "int \<Rightarrow> public_key \<Rightarrow> quota_cache \<Rightarrow> user_quota option option" where
  "cache_get now pk cache =
     (case map_of cache pk of
        Some e \<Rightarrow> if is_expired now e then None else Some (ce_config e)
      | None \<Rightarrow> None)"

definition cache_insert :: "public_key \<Rightarrow> cached_entry \<Rightarrow> quota_cache \<Rightarrow> quota_cache" where
  "cache_insert pk e cache = AList.update pk e cache"

definition cache_remove :: "public_key \<Rightarrow> quota_cache \<Rightarrow> quota_cache" where
  "cache_remove pk cache = AList.delete pk cache"

definition cache_cleanup :: "int \<Rightarrow> quota_cache \<Rightarrow> quota_cache" where
  "cache_cleanup now cache = filter (\<lambda>(_, e). \<not> is_expired now e) cache"

definition make_room :: "int \<Rightarrow> quota_cache \<Rightarrow> quota_cache" where
  "make_room now cache =
     (if length cache < MAX_ENTRIES then cache
      else let retained = cache_cleanup now cache
           in if length retained \<ge> MAX_ENTRIES
              then fold cache_remove (map fst (take (max (MAX_ENTRIES div 10) 1) retained)) retained
              else retained)"

section \<open>Model: the user service\<close>

record user_service =
  us_db :: user_table
  us_cache :: quota_cache

definition FILE_METADATA_SIZE :: nat where "FILE_METADATA_SIZE = 256"

definition get_or_http_error :: "public_key \<Rightarrow> bool \<Rightarrow> user_table \<Rightarrow> (http_error, user_entity) result" where
  "get_or_http_error pk err_if_disabled t =
     (case user_get pk t of
        Inl RowNotFound \<Rightarrow> Err not_found
      | Inl _ \<Rightarrow> Err internal_server
      | Inr u \<Rightarrow> if err_if_disabled \<and> ue_disabled u
                 then Err (forbidden_with_message ''User is disabled'') else Ok u)"

definition get_ids :: "public_key list \<Rightarrow> user_table \<Rightarrow> (sql_error, int list) result" where
  "get_ids pks t = try_map (\<lambda>pk. user_get_id pk t) pks"

definition set_disabled :: "public_key \<Rightarrow> bool \<Rightarrow> user_table \<Rightarrow> (http_error, user_table) result" where
  "set_disabled pk disabled t =
     (case user_get pk t of
        Inl RowNotFound \<Rightarrow> Err not_found
      | Inl _ \<Rightarrow> Err internal_server
      | Inr u \<Rightarrow> map_err (\<lambda>_. internal_server) (user_update (u\<lparr>ue_disabled := disabled\<rparr>) t))"

text \<open>\<^verbatim>\<open>resolve_quota\<close> reads the database between two accesses to the cache and holds
  no lock over the three steps: a lookup, which makes room on a miss, the query,
  and the store of its answer.\<close>

definition resolve_lookup ::
  "int \<Rightarrow> public_key \<Rightarrow> quota_cache \<Rightarrow> user_quota option option \<times> quota_cache" where
  "resolve_lookup now pk cache =
     (case cache_get now pk cache of
        Some cached \<Rightarrow> (Some cached, cache)
      | None \<Rightarrow> (None, make_room now (cache_remove pk cache)))"

definition resolve_query ::
  "(string \<Rightarrow> storage_path list option) \<Rightarrow> public_key \<Rightarrow> user_table \<Rightarrow> (sql_error, user_quota option) result" where
  "resolve_query from_json pk t =
     (case user_get pk t of
        Inr u \<Rightarrow> Ok (Some (user_entity_quota from_json u))
      | Inl RowNotFound \<Rightarrow> Ok None
      | Inl e \<Rightarrow> Err e)"

definition resolve_store :: "int \<Rightarrow> public_key \<Rightarrow> user_quota option \<Rightarrow> quota_cache \<Rightarrow> quota_cache" where
  "resolve_store now pk answer cache =
     (case answer of
        Some config \<Rightarrow> cache_insert pk (entry_found now config) cache
      | None \<Rightarrow> cache_insert pk (entry_not_found now) cache)"

definition resolve_quota ::
  "(string \<Rightarrow> storage_path list option) \<Rightarrow> int \<Rightarrow> public_key \<Rightarrow> user_service \<Rightarrow>
   (sql_error, user_quota option) result \<times> user_service" where
  "resolve_quota from_json now pk s =
     (case resolve_lookup now pk (us_cache s) of
        (Some cached, cache) \<Rightarrow> (Ok cached, s\<lparr>us_cache := cache\<rparr>)
      | (None, cache) \<Rightarrow>
          (case resolve_query from_json pk (us_db s) of
             Inr answer \<Rightarrow> (Ok answer, s\<lparr>us_cache := resolve_store now pk answer cache\<rparr>)
           | Inl e \<Rightarrow> (Err e, s\<lparr>us_cache := cache\<rparr>)))"

definition cache_user_quota ::
  "(string \<Rightarrow> storage_path list option) \<Rightarrow> int \<Rightarrow> user_entity \<Rightarrow> quota_cache \<Rightarrow> quota_cache" where
  "cache_user_quota from_json now u cache =
     cache_insert (ue_public_key u) (entry_found now (user_entity_quota from_json u)) cache"

text \<open>\<^verbatim>\<open>patch_quota\<close>: a refused patch is a 404, or a 422 with the validation message.\<close>

datatype patch_error = PatchHttp http_error | PatchUnprocessable quota_error

definition patch_quota ::
  "(storage_path list \<Rightarrow> string) \<Rightarrow> (string \<Rightarrow> storage_path list option) \<Rightarrow> public_key \<Rightarrow> user_quota_patch \<Rightarrow>
   user_service \<Rightarrow> (patch_error, user_entity \<times> user_service) result" where
  "patch_quota to_json from_json pk patch s =
     and_then (case user_get pk (us_db s) of
         Inl RowNotFound \<Rightarrow> Err (PatchHttp not_found)
       | Inl _ \<Rightarrow> Err (PatchHttp internal_server)
       | Inr u \<Rightarrow> Ok u) (\<lambda>u.
     let config = user_quota_merge (user_entity_quota from_json u) patch in
     and_then (map_err PatchUnprocessable (user_quota_validate config)) (\<lambda>_.
     and_then (map_err (\<lambda>_. PatchHttp internal_server)
       (user_set_quota to_json (ue_id u) config (us_db s))) (\<lambda>(updated, db).
     Ok (updated, \<lparr>us_db = db, us_cache = cache_remove pk (us_cache s)\<rparr>))))"

section \<open>The table invariant\<close>

text \<open>The unique indexes on the id and the public key, and the id sequence ahead of
  every id.\<close>

definition user_invar :: "user_table \<Rightarrow> bool" where
  "user_invar t \<longleftrightarrow> keyed ue_id (ut_rows t) \<and> keyed ue_public_key (ut_rows t)
     \<and> (\<forall>u \<in> set (ut_rows t). ue_id u < ut_seq t)"

lemma user_get_ok_iff:
  "user_get pk t = Ok u \<longleftrightarrow> row_of ue_public_key (ut_rows t) pk = Some u"
  by (simp add: user_get_def)

lemma user_get_err_iff:
  "user_get pk t = Err e \<longleftrightarrow> row_of ue_public_key (ut_rows t) pk = None \<and> e = RowNotFound"
  by (auto simp: user_get_def)

lemma user_getD: "user_get pk t = Ok u \<Longrightarrow> u \<in> set (ut_rows t) \<and> ue_public_key u = pk"
  by (auto simp: user_get_ok_iff dest: row_of_SomeD)

lemma user_row_by_id:
  "user_invar t \<Longrightarrow> user_get pk t = Ok u \<Longrightarrow> row_of ue_id (ut_rows t) (ue_id u) = Some u"
  by (simp add: user_invar_def row_of_Some_iff user_getD)

lemma user_row_iff:
  "user_invar t \<Longrightarrow> row_of ue_id (ut_rows t) i = Some u \<longleftrightarrow> user_get (ue_public_key u) t = Ok u \<and> ue_id u = i"
  by (auto simp: user_invar_def row_of_Some_iff user_get_ok_iff)

lemma user_invar_create: "user_invar t \<Longrightarrow> user_create now pk t = Ok (u, t') \<Longrightarrow> user_invar t'"
  unfolding user_create_def Let_def
  by (force simp: user_invar_def keyed_snoc row_of_None_iff split: if_splits)

lemma user_create_get:
  assumes "user_create now pk t = Ok (u, t')"
  shows "user_get p t' = (if p = pk then Ok u else user_get p t)"
  using assms
  by (auto simp: user_create_def user_get_def row_of_append row_of_Cons Let_def split: if_splits option.splits)

text \<open>An update of the row with the id of \<^verbatim>\<open>u\<close> that keeps the keys.\<close>

lemma user_update_row:
  fixes f :: "user_entity \<Rightarrow> user_entity"
  assumes inv: "user_invar t" and get: "user_get pk t = Ok u"
    and keys: "\<And>r. ue_id (f r) = ue_id r" "\<And>r. ue_public_key (f r) = ue_public_key r"
  defines "rows \<equiv> update_where (\<lambda>r. ue_id r = ue_id u) f (ut_rows t)"
  shows "user_invar (t\<lparr>ut_rows := rows\<rparr>)"
    and "user_get p (t\<lparr>ut_rows := rows\<rparr>) = (if p = pk then Ok (f u) else user_get p t)"
    and "row_of ue_id rows (ue_id u) = Some (f u)"
proof -
  show "user_invar (t\<lparr>ut_rows := rows\<rparr>)"
    using inv keys by (auto simp: user_invar_def rows_def set_update_where)
  show "row_of ue_id rows (ue_id u) = Some (f u)"
    unfolding rows_def using user_row_by_id [OF inv get] keys(1) by (simp add: row_of_update_where)
  have "ue_id r = ue_id u \<longleftrightarrow> r = u" if "r \<in> set (ut_rows t)" for r
    using that inv user_getD [OF get] unfolding user_invar_def keyed_def by (auto simp: distinct_map inj_on_def)
  then have "(case row_of ue_public_key (ut_rows t) p of None \<Rightarrow> None
      | Some r \<Rightarrow> Some (if ue_id r = ue_id u then f r else r)) =
    (if p = pk then Some (f u) else row_of ue_public_key (ut_rows t) p)"
    using get user_getD [OF get]
    by (auto simp: user_get_ok_iff split: option.splits dest!: row_of_SomeD)
  then show "user_get p (t\<lparr>ut_rows := rows\<rparr>) = (if p = pk then Ok (f u) else user_get p t)"
    unfolding rows_def user_get_def using keys(2) by (simp add: row_of_update_where)
qed

lemma user_update_ok:
  assumes "user_invar t" and "user_get pk t = Ok u" and "ue_id v = ue_id u"
  shows "\<exists>t'. user_update v t = Ok t' \<and> user_invar t' \<and>
    (\<forall>p. user_get p t' = (if p = pk
       then Ok (u\<lparr>ue_disabled := ue_disabled v, ue_used_bytes := ue_used_bytes v\<rparr>) else user_get p t))"
  using user_update_row [OF assms(1,2), where f = "\<lambda>r. r\<lparr>ue_disabled := ue_disabled v, ue_used_bytes := ue_used_bytes v\<rparr>"]
    user_row_by_id [OF assms(1,2)] assms(3)
  by (simp add: user_update_def)

lemma user_set_quota_ok:
  assumes "user_invar t" and "user_get pk t = Ok u" and "user_quota_validate config = Ok ()"
  shows "\<exists>t'. user_set_quota to_json (ue_id u) config t =
      Ok (u\<lparr>ue_quota_columns := to_nullable_columns to_json config\<rparr>, t') \<and> user_invar t' \<and>
    (\<forall>p. user_get p t' = (if p = pk
       then Ok (u\<lparr>ue_quota_columns := to_nullable_columns to_json config\<rparr>) else user_get p t))"
  using user_update_row [OF assms(1,2), where f = "\<lambda>r. r\<lparr>ue_quota_columns := to_nullable_columns to_json config\<rparr>"]
    assms(3)
  by (simp add: user_set_quota_def Let_def)

section \<open>The listing is a paged listing\<close>

lemma user_list_before_irrefl: "\<not> user_list_before q u u"
  by (simp add: user_list_before_def)

lemma user_list_before_asym: "user_list_before q u v \<Longrightarrow> \<not> user_list_before q v u"
  by (auto simp: user_list_before_def split: if_splits)

definition list_selects :: "user_list_query \<Rightarrow> user_entity \<Rightarrow> bool" where
  "list_selects q u = (case state_disabled (lq_state q) of None \<Rightarrow> True | Some d \<Rightarrow> ue_disabled u = d)"

lemma set_user_list_rows: "set (user_list_rows q t) = {u \<in> set (ut_rows t). list_selects q u}"
  by (simp add: user_list_rows_def Let_def list_selects_def)

lemma length_user_list_rows: "length (user_list_rows q t) \<le> length (ut_rows t)"
  by (simp add: user_list_rows_def Let_def)

lemma sorted_user_list_rows:
  assumes "user_invar t"
  shows "sorted_wrt (user_list_before q) (user_list_rows q t)"
proof -
  let ?xs = "sort_key (list_position q) (filter (list_selects q) (ut_rows t))"
  have "distinct (map ue_id (ut_rows t))" using assms by (simp add: user_invar_def keyed_def)
  then have "inj_on ue_id (set ?xs)" and d: "distinct ?xs"
    by (auto simp: distinct_map inj_on_def)
  then have "inj_on (list_position q) (set ?xs)" by (auto simp: inj_on_def list_position_def)
  with d have "distinct (map (list_position q) ?xs)" by (simp add: distinct_map)
  then have "sorted_wrt (<) (map (list_position q) ?xs)"
    by (simp add: strict_sorted_iff del: sorted_wrt_map)
  then have asc: "sorted_wrt (\<lambda>u v. list_position q u < list_position q v) ?xs"
    by (simp add: sorted_wrt_map)
  show ?thesis
  proof (cases "lq_reverse q")
    case True
    have "user_list_before q = (\<lambda>u v. list_position q v < list_position q u)"
      using True by (simp add: user_list_before_def fun_eq_iff)
    with asc show ?thesis using True
      by (simp add: user_list_rows_def Let_def sorted_wrt_rev flip: list_selects_def)
  next
    case False
    have "user_list_before q = (\<lambda>u v. list_position q u < list_position q v)"
      using False by (simp add: user_list_before_def fun_eq_iff)
    with asc show ?thesis using False
      by (simp add: user_list_rows_def Let_def flip: list_selects_def)
  qed
qed

text \<open>One request of a client that follows the cursors.\<close>

definition user_list_page ::
  "user_table \<times> user_list_query \<Rightarrow> public_key option \<Rightarrow> user_entity list \<times> public_key option" where
  "user_list_page tq c =
     (case user_list ((snd tq)\<lparr>lq_cursor := c\<rparr>) (fst tq) of Inr page \<Rightarrow> page | Inl _ \<Rightarrow> ([], None))"

lemma list_position_cursor [simp]: "list_position (q\<lparr>lq_cursor := c\<rparr>) = list_position q"
  by (simp add: list_position_def fun_eq_iff)

lemma user_list_cursor [simp]:
  "user_list_rows (q\<lparr>lq_cursor := c\<rparr>) = user_list_rows q"
  "user_list_before (q\<lparr>lq_cursor := c\<rparr>) = user_list_before q"
  by (simp_all add: user_list_rows_def user_list_before_def fun_eq_iff)

interpretation user_pages: paged_listing
  "\<lambda>(t, q). user_list_rows q t" "\<lambda>(t, q). user_list_before q" ue_public_key
  "\<lambda>(t, q). effective_list_limit (lq_limit q)" user_list_page
  "\<lambda>(t, q). user_invar t \<and> lq_limit q \<noteq> Some 0"
proof (unfold_locales, goal_cases)
  case (6 tq r)
  then have "row_of ue_public_key (ut_rows (fst tq)) (ue_public_key r) = Some r"
    by (auto simp: user_invar_def row_of_Some_iff set_user_list_rows split: prod.splits)
  then show ?case
    by (simp add: user_list_page_def user_list_def user_get_def Let_def split: prod.splits)
qed (auto simp: sorted_user_list_rows user_list_before_irrefl user_list_before_asym
    effective_list_limit_pos user_list_page_def user_list_def Let_def)

section \<open>Coherence of the quota cache\<close>

text \<open>The cache has one entry per key, and an entry is the answer of the database.\<close>

definition cache_coherent :: "(string \<Rightarrow> storage_path list option) \<Rightarrow> user_service \<Rightarrow> bool" where
  "cache_coherent from_json s \<longleftrightarrow> distinct (map fst (us_cache s)) \<and>
     (\<forall>pk e. map_of (us_cache s) pk = Some e \<longrightarrow>
        resolve_query from_json pk (us_db s) = Ok (ce_config e))"

lemma map_of_filter_distinct:
  "distinct (map fst xs) \<Longrightarrow> map_of (filter P xs) k = Some v \<Longrightarrow> map_of xs k = Some v"
  by (metis map_of_SomeD map_of_is_SomeI filter_is_subset subset_iff)

lemma resolve_query_ok: "\<exists>answer. resolve_query from_json pk t = Ok answer"
  by (auto simp: resolve_query_def user_get_def split: option.splits sum.splits sql_error.splits)

definition sub_cache :: "quota_cache \<Rightarrow> quota_cache \<Rightarrow> bool" where
  "sub_cache c' c \<longleftrightarrow> distinct (map fst c') \<and> map_of c' \<subseteq>\<^sub>m map_of c"

lemma sub_cache_trans: "sub_cache c'' c' \<Longrightarrow> sub_cache c' c \<Longrightarrow> sub_cache c'' c"
  by (auto simp: sub_cache_def intro: map_le_trans)

lemma sub_cache_refl: "distinct (map fst c) \<Longrightarrow> sub_cache c c"
  by (simp add: sub_cache_def)

lemma sub_cache_remove: "distinct (map fst c) \<Longrightarrow> sub_cache (cache_remove pk c) c"
  by (auto simp: sub_cache_def cache_remove_def distinct_delete delete_conv' map_le_def)

lemma sub_cache_cleanup: "distinct (map fst c) \<Longrightarrow> sub_cache (cache_cleanup now c) c"
  by (auto simp: sub_cache_def cache_cleanup_def distinct_map_filter map_le_def dest: map_of_filter_distinct)

lemma sub_cache_removes: "distinct (map fst c) \<Longrightarrow> sub_cache (fold cache_remove pks c) c"
proof (induction pks arbitrary: c)
  case (Cons pk pks)
  have "sub_cache (cache_remove pk c) c" using Cons.prems by (rule sub_cache_remove)
  moreover from this have "sub_cache (fold cache_remove pks (cache_remove pk c)) (cache_remove pk c)"
    by (intro Cons.IH) (simp add: sub_cache_def)
  ultimately show ?case by (auto intro: sub_cache_trans)
qed (simp add: sub_cache_refl)

lemma sub_cache_make_room:
  assumes "distinct (map fst c)" shows "sub_cache (make_room now c) c"
proof -
  have "sub_cache (cache_cleanup now c) c" using assms by (rule sub_cache_cleanup)
  moreover from this have "sub_cache (fold cache_remove pks (cache_cleanup now c)) (cache_cleanup now c)" for pks
    by (intro sub_cache_removes) (simp add: sub_cache_def)
  ultimately show ?thesis using assms
    by (auto simp: make_room_def Let_def sub_cache_refl intro: sub_cache_trans)
qed

lemma coherent_sub_cache:
  "cache_coherent from_json s \<Longrightarrow> sub_cache c (us_cache s) \<Longrightarrow> cache_coherent from_json (s\<lparr>us_cache := c\<rparr>)"
  by (auto simp: cache_coherent_def sub_cache_def map_le_def dom_def)

lemma coherent_insert:
  "cache_coherent from_json s \<Longrightarrow> resolve_query from_json pk (us_db s) = Ok (ce_config e) \<Longrightarrow>
   cache_coherent from_json (s\<lparr>us_cache := cache_insert pk e (us_cache s)\<rparr>)"
  by (auto simp: cache_coherent_def cache_insert_def distinct_update update_conv' split: if_splits)

lemma resolve_store_insert:
  "\<exists>e. resolve_store now pk answer c = cache_insert pk e c \<and> ce_config e = answer"
  by (cases answer) (auto simp: resolve_store_def entry_found_def entry_not_found_def)

lemma resolve_quota_coherent:
  assumes "cache_coherent from_json s"
  shows "fst (resolve_quota from_json now pk s) = resolve_query from_json pk (us_db s)"
    and "us_db (snd (resolve_quota from_json now pk s)) = us_db s"
    and "cache_coherent from_json (snd (resolve_quota from_json now pk s))"
proof -
  obtain answer where a: "resolve_query from_json pk (us_db s) = Ok answer"
    using resolve_query_ok by blast
  have d: "distinct (map fst (us_cache s))" using assms by (simp add: cache_coherent_def)
  let ?c = "make_room now (cache_remove pk (us_cache s))"
  have "sub_cache ?c (us_cache s)"
    using d sub_cache_make_room sub_cache_remove by (metis sub_cache_def sub_cache_trans)
  then have coh: "cache_coherent from_json (s\<lparr>us_cache := ?c\<rparr>)"
    using assms by (rule coherent_sub_cache [rotated])
  have hit: "Ok v = resolve_query from_json pk (us_db s)" if "cache_get now pk (us_cache s) = Some v" for v
    using that assms by (auto simp: cache_get_def cache_coherent_def split: option.splits if_splits)
  obtain e where e: "resolve_store now pk answer ?c = cache_insert pk e ?c" "ce_config e = answer"
    using resolve_store_insert by blast
  have "cache_coherent from_json (s\<lparr>us_cache := cache_insert pk e ?c\<rparr>)"
    using coherent_insert [OF coh, of pk e] a e(2) by simp
  then show "fst (resolve_quota from_json now pk s) = resolve_query from_json pk (us_db s)"
    and "us_db (snd (resolve_quota from_json now pk s)) = us_db s"
    and "cache_coherent from_json (snd (resolve_quota from_json now pk s))"
    using a e(1) assms hit
    by (auto simp: resolve_quota_def resolve_lookup_def split: option.splits)
qed

lemma coherent_db:
  assumes "cache_coherent from_json s"
    and "\<And>p. map_of (us_cache s) p \<noteq> None \<Longrightarrow>
      resolve_query from_json p db = resolve_query from_json p (us_db s)"
  shows "cache_coherent from_json (s\<lparr>us_db := db\<rparr>)"
  unfolding cache_coherent_def
proof (intro conjI allI impI)
  fix pk e assume "map_of (us_cache (s\<lparr>us_db := db\<rparr>)) pk = Some e"
  then have e: "map_of (us_cache s) pk = Some e" by simp
  then have "resolve_query from_json pk (us_db s) = Ok (ce_config e)"
    using assms(1) by (simp add: cache_coherent_def)
  with assms(2) [of pk] e show "resolve_query from_json pk (us_db (s\<lparr>us_db := db\<rparr>)) = Ok (ce_config e)"
    by simp
qed (use assms(1) in \<open>simp add: cache_coherent_def\<close>)

lemma resolve_query_cong:
  "user_get p t' = user_get p t \<Longrightarrow> resolve_query from_json p t' = resolve_query from_json p t"
  by (simp add: resolve_query_def)

lemma patch_quota_cases:
  fixes from_json patch
  assumes "user_invar (us_db s)" and "user_get pk (us_db s) = Ok u"
  defines "config \<equiv> user_quota_merge (user_entity_quota from_json u) patch"
  shows "user_quota_validate config = Err e \<Longrightarrow>
      patch_quota to_json from_json pk patch s = Err (PatchUnprocessable e)"
    and "user_quota_validate config = Ok () \<Longrightarrow> \<exists>db.
      patch_quota to_json from_json pk patch s =
        Ok (u\<lparr>ue_quota_columns := to_nullable_columns to_json config\<rparr>,
            \<lparr>us_db = db, us_cache = cache_remove pk (us_cache s)\<rparr>) \<and>
      user_invar db \<and> (\<forall>p. user_get p db = (if p = pk
        then Ok (u\<lparr>ue_quota_columns := to_nullable_columns to_json config\<rparr>) else user_get p (us_db s)))"
proof -
  show "user_quota_validate config = Err e \<Longrightarrow>
      patch_quota to_json from_json pk patch s = Err (PatchUnprocessable e)"
    using assms by (simp add: patch_quota_def Let_def)
  assume ok: "user_quota_validate config = Ok ()"
  from user_set_quota_ok [OF assms(1,2) ok, of to_json] obtain db where
    "user_set_quota to_json (ue_id u) config (us_db s) =
       Ok (u\<lparr>ue_quota_columns := to_nullable_columns to_json config\<rparr>, db)" "user_invar db"
    "\<forall>p. user_get p db = (if p = pk
      then Ok (u\<lparr>ue_quota_columns := to_nullable_columns to_json config\<rparr>) else user_get p (us_db s))"
    by blast
  then show "\<exists>db. patch_quota to_json from_json pk patch s =
        Ok (u\<lparr>ue_quota_columns := to_nullable_columns to_json config\<rparr>,
            \<lparr>us_db = db, us_cache = cache_remove pk (us_cache s)\<rparr>) \<and>
      user_invar db \<and> (\<forall>p. user_get p db = (if p = pk
        then Ok (u\<lparr>ue_quota_columns := to_nullable_columns to_json config\<rparr>) else user_get p (us_db s)))"
    using ok assms(2) by (intro exI [of _ db]) (simp add: patch_quota_def Let_def config_def)
qed

lemma patch_quota_coherent:
  assumes "user_invar (us_db s)" and "cache_coherent from_json s"
    and "patch_quota to_json from_json pk patch s = Ok (u', s')"
  shows "user_invar (us_db s') \<and> cache_coherent from_json s'"
proof -
  have "\<exists>u. user_get pk (us_db s) = Ok u"
    using assms(3) by (cases "user_get pk (us_db s)")
      (auto simp: patch_quota_def split: sql_error.splits)
  then obtain u where u: "user_get pk (us_db s) = Ok u" by blast
  let ?config = "user_quota_merge (user_entity_quota from_json u) patch"
  have "user_quota_validate ?config = Ok ()"
    using assms(3) patch_quota_cases(1) [OF assms(1) u] by (cases "user_quota_validate ?config") auto
  then obtain db where db: "s' = \<lparr>us_db = db, us_cache = cache_remove pk (us_cache s)\<rparr>" "user_invar db"
    "\<And>p. p \<noteq> pk \<Longrightarrow> user_get p db = user_get p (us_db s)"
    using patch_quota_cases(2) [OF assms(1) u, of from_json patch to_json] assms(3) by auto
  have "cache_coherent from_json (s\<lparr>us_cache := cache_remove pk (us_cache s)\<rparr>)"
    using assms(2) by (intro coherent_sub_cache sub_cache_remove) (simp_all add: cache_coherent_def)
  then have "cache_coherent from_json (s\<lparr>us_cache := cache_remove pk (us_cache s), us_db := db\<rparr>)"
    by (rule coherent_db)
       (auto intro!: resolve_query_cong db(3) simp: cache_remove_def delete_conv')
  then show ?thesis using db(1,2) by (cases s) simp
qed

lemma set_disabled_ok:
  assumes "user_invar t" and "set_disabled pk d t = Ok t'"
  shows "user_invar t' \<and> (\<exists>u. user_get pk t = Ok u \<and>
    (\<forall>p. user_get p t' = (if p = pk then Ok (u\<lparr>ue_disabled := d\<rparr>) else user_get p t)))"
proof -
  obtain u where u: "user_get pk t = Ok u"
    using assms(2) by (cases "user_get pk t") (auto simp: set_disabled_def split: sql_error.splits)
  from user_update_ok [OF assms(1) u, of "u\<lparr>ue_disabled := d\<rparr>"] u assms(2) show ?thesis
    by (auto simp: set_disabled_def)
qed

lemma set_disabled_coherent:
  assumes "user_invar (us_db s)" and "cache_coherent from_json s" and "set_disabled pk d (us_db s) = Ok db"
  shows "user_invar db \<and> cache_coherent from_json (s\<lparr>us_db := db\<rparr>)"
proof -
  obtain u where u: "user_invar db" "user_get pk (us_db s) = Ok u"
    "\<And>p. user_get p db = (if p = pk then Ok (u\<lparr>ue_disabled := d\<rparr>) else user_get p (us_db s))"
    using set_disabled_ok [OF assms(1,3)] by blast
  have "resolve_query from_json p db = resolve_query from_json p (us_db s)" for p
    using u(2) by (auto simp: resolve_query_def u(3) user_entity_quota_def split: sum.splits sql_error.splits)
  then show ?thesis using u(1) assms(2) by (simp add: coherent_db)
qed

section \<open>Properties\<close>

text \<open>A client that follows the cursors of the user listing sees every user of the
  selected state exactly once, in the order asked for, ties on the sort column
  included, whatever the page size.\<close>

theorem user_list_pages_complete:
  assumes "user_invar t" and "lq_limit q \<noteq> Some 0" and "length (ut_rows t) < n"
  shows "let all = collect_pages n (user_list_page (t, q)) None in
    sorted_wrt (user_list_before q) all \<and> distinct all \<and>
    set all = {u \<in> set (ut_rows t).
      case lq_state q of AllUsers \<Rightarrow> True | EnabledUsers \<Rightarrow> \<not> ue_disabled u | DisabledUsers \<Rightarrow> ue_disabled u}"
proof -
  have "collect_pages n (user_list_page (t, q)) None = user_list_rows q t"
    using user_pages.collect_all [of "(t, q)" n] assms length_user_list_rows [of q t] by simp
  moreover have "distinct (user_list_rows q t)"
    using user_pages.distinct_rows [of "(t, q)"] assms by simp
  moreover have "list_selects q u = (case lq_state q of AllUsers \<Rightarrow> True
      | EnabledUsers \<Rightarrow> \<not> ue_disabled u | DisabledUsers \<Rightarrow> ue_disabled u)" for u
    by (cases "lq_state q") (simp_all add: list_selects_def)
  ultimately show ?thesis
    using sorted_user_list_rows [OF assms(1), of q] by (simp add: Let_def set_user_list_rows)
qed

theorem user_list_pages_complete_witness:
  "let u = (\<lambda>i used d. \<lparr>ue_id = i, ue_public_key = PublicKey (show_nat (nat i)), ue_created_at = 0,
        ue_disabled = d, ue_used_bytes = used, ue_quota_columns = NULL_COLUMNS\<rparr>);
       t = \<lparr>ut_rows = [u 1 7 False, u 2 7 False, u 3 9 True, u 4 5 False], ut_seq = 5\<rparr>;
       q = \<lparr>lq_state = EnabledUsers, lq_sort_by = UsedBytes, lq_reverse = True, lq_limit = Some 1, lq_cursor = None\<rparr>;
       all = collect_pages 5 (user_list_page (t, q)) None
   in all = [u 2 7 False, u 1 7 False, u 4 5 False] \<and> sorted_wrt (user_list_before q) all"
proof -
  let ?u = "\<lambda>i used d. \<lparr>ue_id = i, ue_public_key = PublicKey (show_nat (nat i)), ue_created_at = 0,
        ue_disabled = d, ue_used_bytes = used, ue_quota_columns = NULL_COLUMNS\<rparr>"
  let ?t = "\<lparr>ut_rows = [?u 1 7 False, ?u 2 7 False, ?u 3 9 True, ?u 4 5 False], ut_seq = 5\<rparr>"
  let ?q = "\<lparr>lq_state = EnabledUsers, lq_sort_by = UsedBytes, lq_reverse = True, lq_limit = Some 1, lq_cursor = None\<rparr>"
  have "user_invar ?t" by code_simp
  from user_list_pages_complete [OF this, of ?q 5]
  have "sorted_wrt (user_list_before ?q) (collect_pages 5 (user_list_page (?t, ?q)) None)"
    by (simp add: Let_def)
  moreover have "collect_pages 5 (user_list_page (?t, ?q)) None = [?u 2 7 False, ?u 1 7 False, ?u 4 5 False]"
    by code_simp
  ultimately show ?thesis by (simp only: Let_def)
qed

text \<open>A quota patch takes effect: for a known user and a merged quota that passes
  validation, the stored quota reads back as the merge, no other user changes and
  the cached quota is evicted; an unknown user is a 404 and an invalid merge a 422,
  with nothing changed.\<close>

theorem patch_quota_effect:
  fixes patch :: user_quota_patch and from_json :: "string \<Rightarrow> storage_path list option"
  assumes "user_invar (us_db s)"
  defines "new_quota u \<equiv> user_quota_merge (user_entity_quota from_json u) patch"
  assumes "\<And>u ps. user_get pk (us_db s) = Ok u \<Longrightarrow> uq_allowed_write_paths (new_quota u) = Some ps \<Longrightarrow>
      from_json (to_json ps) = Some ps"
    and "\<And>u. user_get pk (us_db s) = Ok u \<Longrightarrow>
      wf_user_quota (new_quota u) \<and> storage_fits (uq_storage_quota_mb (new_quota u))"
  shows "case user_get pk (us_db s) of
      Inl _ \<Rightarrow> patch_quota to_json from_json pk patch s = Err (PatchHttp not_found)
    | Inr u \<Rightarrow>
       (case user_quota_validate (new_quota u) of
          Inl e \<Rightarrow> patch_quota to_json from_json pk patch s = Err (PatchUnprocessable e)
        | Inr _ \<Rightarrow> \<exists>v s'. patch_quota to_json from_json pk patch s = Ok (v, s') \<and>
            user_entity_quota from_json v = new_quota u \<and>
            (\<forall>p. user_get p (us_db s') = (if p = pk then Ok v else user_get p (us_db s))) \<and>
            (\<forall>now. cache_get now pk (us_cache s') = None))"
proof (cases "user_get pk (us_db s)")
  case (Inl e)
  then show ?thesis using user_get_err_iff [of pk "us_db s" e] by (simp add: patch_quota_def)
next
  case (Inr u)
  show ?thesis
  proof (cases "user_quota_validate (new_quota u)")
    case (Inl e)
    then show ?thesis
      using Inr patch_quota_cases(1) [OF assms(1) Inr, of from_json patch e] by (simp add: new_quota_def)
  next
    case ok: (Inr x)
    let ?v = "u\<lparr>ue_quota_columns := to_nullable_columns to_json (new_quota u)\<rparr>"
    have "user_entity_quota from_json ?v = new_quota u"
      using quota_columns_rt [of "new_quota u" from_json to_json] assms(3,4) [OF Inr] ok
      by (simp add: user_entity_quota_def)
    moreover have "map_of (cache_remove pk c) pk = None" for c
      by (simp add: cache_remove_def delete_conv')
    ultimately show ?thesis
      using ok Inr patch_quota_cases(2) [OF assms(1) Inr, of from_json patch to_json]
      unfolding new_quota_def by (force simp: cache_get_def)
  qed
qed

theorem patch_quota_effect_witness:
  "let u = \<lparr>ue_id = 1, ue_public_key = PublicKey ''a'', ue_created_at = 0, ue_disabled = False,
        ue_used_bytes = 0, ue_quota_columns = NULL_COLUMNS\<rparr>;
       s = \<lparr>us_db = \<lparr>ut_rows = [u], ut_seq = 2\<rparr>, us_cache = []\<rparr>;
       patch = \<lparr>patch_storage_quota_mb = Some (Value 5), patch_rate_read = None, patch_rate_write = None,
         patch_rate_read_burst = None, patch_rate_write_burst = None, patch_allowed_write_paths = None\<rparr>
   in \<exists>v s'. patch_quota (\<lambda>_. []) (\<lambda>_. None) (PublicKey ''a'') patch s = Ok (v, s') \<and>
     uq_storage_quota_mb (user_entity_quota (\<lambda>_. None) v) = Value 5"
proof -
  let ?u = "\<lparr>ue_id = 1, ue_public_key = PublicKey ''a'', ue_created_at = 0, ue_disabled = False,
        ue_used_bytes = 0, ue_quota_columns = NULL_COLUMNS\<rparr>"
  let ?s = "\<lparr>us_db = \<lparr>ut_rows = [?u], ut_seq = 2\<rparr>, us_cache = []\<rparr>"
  let ?patch = "\<lparr>patch_storage_quota_mb = Some (Value 5), patch_rate_read = None, patch_rate_write = None,
         patch_rate_read_burst = None, patch_rate_write_burst = None, patch_allowed_write_paths = None\<rparr>"
  let ?to = "\<lambda>_ :: storage_path list. [] :: string"
  let ?from = "\<lambda>_ :: string. None :: storage_path list option"
  let ?merged = "user_quota_merge (user_entity_quota ?from ?u) ?patch"
  have inv: "user_invar (us_db ?s)" by code_simp
  have get: "user_get (PublicKey ''a'') (us_db ?s) = Ok ?u" by code_simp
  have m: "?merged = \<lparr>uq_storage_quota_mb = Value 5, uq_rate_read = Default, uq_rate_write = Default,
      uq_rate_read_burst = None, uq_rate_write_burst = None, uq_allowed_write_paths = None\<rparr>" by code_simp
  have v: "user_quota_validate ?merged = Ok ()" by code_simp
  have f: "wf_user_quota ?merged \<and> storage_fits (uq_storage_quota_mb ?merged)"
    unfolding m by (simp add: wf_user_quota_def I32_MAX_def)
  have "?from (?to ps) = Some ps" if "user_get (PublicKey ''a'') (us_db ?s) = Ok w"
    "uq_allowed_write_paths (user_quota_merge (user_entity_quota ?from w) ?patch) = Some ps" for w ps
  proof -
    from that(1) get have "w = ?u" by simp
    with that(2) m show ?thesis by simp
  qed
  moreover have "wf_user_quota (user_quota_merge (user_entity_quota ?from w) ?patch) \<and>
      storage_fits (uq_storage_quota_mb (user_quota_merge (user_entity_quota ?from w) ?patch))"
    if "user_get (PublicKey ''a'') (us_db ?s) = Ok w" for w
  proof -
    from that get have "w = ?u" by simp
    with f show ?thesis by (simp only:)
  qed
  ultimately have "\<exists>v s'. patch_quota ?to ?from (PublicKey ''a'') ?patch ?s = Ok (v, s') \<and>
      user_entity_quota ?from v = ?merged"
    using patch_quota_effect [OF inv, of "PublicKey ''a''" ?from ?patch ?to] unfolding get sum.case v by blast
  then show ?thesis unfolding Let_def m by (metis user_quota.select_convs(1))
qed

text \<open>C30: The window in which the cache serves a replaced quota: a resolution that
  missed the cache and queried the database before a patch committed, and stores
  its answer after it, leaves the replaced quota in the cache, where it is served
  for exactly \<^verbatim>\<open>CACHE_TTL\<close> after the store; the first resolution after that
  returns the patched quota.\<close>

theorem resolve_race_window:
  assumes "user_invar (us_db s)" and "user_get pk (us_db s) = Ok u"
    and miss: "resolve_lookup t0 pk (us_cache s) = (None, cache)"
    and patched: "patch_quota to_json from_json pk patch (s\<lparr>us_cache := cache\<rparr>) = Ok (v, s')"
  shows "resolve_query from_json pk (us_db s) = Ok (Some (user_entity_quota from_json u)) \<and>
    fst (resolve_quota from_json now pk (s'\<lparr>us_cache :=
        resolve_store t1 pk (Some (user_entity_quota from_json u)) (us_cache s')\<rparr>)) =
      Ok (Some (user_entity_quota from_json (if now - t1 \<le> CACHE_TTL then u else v)))"
proof -
  let ?config = "user_quota_merge (user_entity_quota from_json u) patch"
  let ?s = "s\<lparr>us_cache := cache\<rparr>"
  have inv: "user_invar (us_db ?s)" and get: "user_get pk (us_db ?s) = Ok u" using assms(1,2) by simp_all
  have "user_quota_validate ?config = Ok ()"
    using patched patch_quota_cases(1) [OF inv get] by (cases "user_quota_validate ?config") auto
  then have "user_get pk (us_db s') = Ok v"
    using patch_quota_cases(2) [OF inv get, of from_json patch to_json] patched by auto
  then show ?thesis
    using assms(2)
    by (auto simp: resolve_query_def resolve_quota_def resolve_lookup_def resolve_store_def
        cache_get_def cache_insert_def update_conv' is_expired_def entry_found_def)
qed

theorem resolve_race_window_witness:
  "let u = \<lparr>ue_id = 1, ue_public_key = PublicKey ''a'', ue_created_at = 0, ue_disabled = False,
        ue_used_bytes = 0, ue_quota_columns = NULL_COLUMNS\<rparr>;
       s = \<lparr>us_db = \<lparr>ut_rows = [u], ut_seq = 2\<rparr>, us_cache = []\<rparr>;
       patch = \<lparr>patch_storage_quota_mb = Some (Value 5), patch_rate_read = None, patch_rate_write = None,
         patch_rate_read_burst = None, patch_rate_write_burst = None, patch_allowed_write_paths = None\<rparr>;
       answer = resolve_query (\<lambda>_. None) (PublicKey ''a'') (us_db s)
   in case patch_quota (\<lambda>_. []) (\<lambda>_. None) (PublicKey ''a'') patch s of
        Inl _ \<Rightarrow> False
      | Inr (v, s') \<Rightarrow>
          let stale = s'\<lparr>us_cache := resolve_store 10 (PublicKey ''a'') (case answer of Inr a \<Rightarrow> a) (us_cache s')\<rparr>
          in fst (resolve_quota (\<lambda>_. None) 120000010 (PublicKey ''a'') stale) = answer \<and>
             user_entity_quota (\<lambda>_. None) v \<noteq> user_entity_quota (\<lambda>_. None) u"
proof -
  let ?u = "\<lparr>ue_id = 1, ue_public_key = PublicKey ''a'', ue_created_at = 0, ue_disabled = False,
        ue_used_bytes = 0, ue_quota_columns = NULL_COLUMNS\<rparr>"
  let ?s = "\<lparr>us_db = \<lparr>ut_rows = [?u], ut_seq = 2\<rparr>, us_cache = []\<rparr>"
  let ?patch = "\<lparr>patch_storage_quota_mb = Some (Value 5), patch_rate_read = None, patch_rate_write = None,
         patch_rate_read_burst = None, patch_rate_write_burst = None, patch_allowed_write_paths = None\<rparr>"
  let ?to = "\<lambda>_ :: storage_path list. [] :: string"
  let ?from = "\<lambda>_ :: string. None :: storage_path list option"
  let ?v = "?u\<lparr>ue_quota_columns := NULL_COLUMNS\<lparr>col_storage_mb := Some 5\<rparr>\<rparr>"
  let ?s' = "\<lparr>us_db = \<lparr>ut_rows = [?v], ut_seq = 2\<rparr>, us_cache = []\<rparr>"
  have inv: "user_invar (us_db ?s)" by code_simp
  have get: "user_get (PublicKey ''a'') (us_db ?s) = Ok ?u" by code_simp
  have miss: "resolve_lookup 0 (PublicKey ''a'') (us_cache ?s) = (None, [])" by code_simp
  have p: "patch_quota ?to ?from (PublicKey ''a'') ?patch ?s = Ok (?v, ?s')" by code_simp
  have d: "user_entity_quota ?from ?v \<noteq> user_entity_quota ?from ?u" by code_simp
  have "?s\<lparr>us_cache := []\<rparr> = ?s" by simp
  with p have "patch_quota ?to ?from (PublicKey ''a'') ?patch (?s\<lparr>us_cache := []\<rparr>) = Ok (?v, ?s')" by (simp only:)
  note race = resolve_race_window [OF inv get miss this, where now = 120000010 and ?t1.0 = 10]
  show ?thesis
    unfolding Let_def p using race d by (simp add: CACHE_TTL_def)
qed

end
