(* ===== verification/Entry_Lock.thy ===== *)
theory Entry_Lock
  imports Authorization
begin

text \<open>
  Exclusive WebDAV write locks: the lock table
  (\<^verbatim>\<open>persistence/sql/entities/entry_lock.rs\<close>), the parsing of the \<^verbatim>\<open>If\<close>,
  \<^verbatim>\<open>Timeout\<close> and \<^verbatim>\<open>Lock-Token\<close> headers and of the \<^verbatim>\<open>lockinfo\<close> body, and the lock
  check a write makes before it starts (\<^verbatim>\<open>client_server/routes/tenants/lock.rs\<close>).

  Every statement reads the database clock itself: the current time in Unix
  seconds is an argument of each repository operation.  The lemmas show that a
  live lock cannot be taken by anybody else before it expires, that lifetimes
  are bounded, and the exact decision of the check.
\<close>

section \<open>Model: the lock table\<close>

record entry_lock =
  lock_path :: string
  lock_token :: string
  lock_expires_at :: int

type_synonym lock_table = "entry_lock list"

text \<open>\<^verbatim>\<open>INSERT ... ON CONFLICT (path) DO UPDATE ... WHERE expires_at <= now\<close>: the
  row returned, and the table after the statement.\<close>

definition acquire ::
  "int \<Rightarrow> string \<Rightarrow> string \<Rightarrow> int \<Rightarrow> lock_table \<Rightarrow> entry_lock option \<times> lock_table" where
  "acquire now path token lifetime_secs t =
     (let new = \<lparr>lock_path = path, lock_token = token, lock_expires_at = now + lifetime_secs\<rparr>
      in case row_of lock_path t path of
           None \<Rightarrow> (Some new, t @ [new])
         | Some old \<Rightarrow>
             if lock_expires_at old \<le> now
             then (Some new, update_where (\<lambda>r. lock_path r = path) (\<lambda>_. new) t)
             else (None, t))"

definition get_active :: "int \<Rightarrow> string \<Rightarrow> lock_table \<Rightarrow> entry_lock option" where
  "get_active now path t = find (\<lambda>r. lock_path r = path \<and> lock_expires_at r > now) t"

definition hold :: "int \<Rightarrow> string \<Rightarrow> string \<Rightarrow> lock_table \<Rightarrow> bool" where
  "hold now path token t =
     (find (\<lambda>r. lock_path r = path \<and> lock_token r = token \<and> lock_expires_at r > now) t \<noteq> None)"

definition set_expiry_of_live_lock ::
  "int \<Rightarrow> string \<Rightarrow> string list \<Rightarrow> (entry_lock \<Rightarrow> int) \<Rightarrow> lock_table \<Rightarrow>
   entry_lock option \<times> lock_table" where
  "set_expiry_of_live_lock now path tokens expires_at t =
     (let live = (\<lambda>r. lock_path r = path \<and> lock_token r \<in> set tokens \<and> lock_expires_at r > now);
          upd = (\<lambda>r. r\<lparr>lock_expires_at := expires_at r\<rparr>)
      in (map_option upd (find live t), update_where live upd t))"

definition refresh ::
  "int \<Rightarrow> string \<Rightarrow> string list \<Rightarrow> int \<Rightarrow> lock_table \<Rightarrow> entry_lock option \<times> lock_table" where
  "refresh now path tokens lifetime_secs t =
     set_expiry_of_live_lock now path tokens (\<lambda>_. now + lifetime_secs) t"

definition keep_alive ::
  "int \<Rightarrow> string \<Rightarrow> string list \<Rightarrow> int \<Rightarrow> lock_table \<Rightarrow> entry_lock option \<times> lock_table" where
  "keep_alive now path tokens horizon_secs t =
     set_expiry_of_live_lock now path tokens (\<lambda>r. max (lock_expires_at r) (now + horizon_secs)) t"

definition release :: "string \<Rightarrow> string \<Rightarrow> lock_table \<Rightarrow> bool \<times> lock_table" where
  "release path token t =
     (let P = (\<lambda>r. lock_path r = path \<and> lock_token r = token)
      in (list_ex P t, delete_where P t))"

definition delete_expired :: "int \<Rightarrow> lock_table \<Rightarrow> nat \<times> lock_table" where
  "delete_expired now t =
     (length (filter (\<lambda>r. lock_expires_at r \<le> now) t), delete_where (\<lambda>r. lock_expires_at r \<le> now) t)"

text \<open>The statements that change the table, as one step function.\<close>

datatype lock_op =
    Acquire string string int
  | Refresh string "string list" int
  | KeepAlive string "string list" int
  | Release string string
  | DeleteExpired

fun lock_step :: "lock_table \<Rightarrow> int \<Rightarrow> lock_op \<Rightarrow> lock_table" where
  "lock_step t now (Acquire path token secs) = snd (acquire now path token secs t)"
| "lock_step t now (Refresh path tokens secs) = snd (refresh now path tokens secs t)"
| "lock_step t now (KeepAlive path tokens secs) = snd (keep_alive now path tokens secs t)"
| "lock_step t now (Release path token) = snd (release path token t)"
| "lock_step t now DeleteExpired = snd (delete_expired now t)"

section \<open>Model: headers and bodies\<close>

definition DEFAULT_LOCK_TIMEOUT_SECS :: int where "DEFAULT_LOCK_TIMEOUT_SECS = 30"
definition MAX_LOCK_TIMEOUT_SECS :: int where "MAX_LOCK_TIMEOUT_SECS = 60"
definition WRITE_LOCK_HORIZON_SECS :: int where "WRITE_LOCK_HORIZON_SECS = 30"
definition MAX_LOCKINFO_BYTES :: nat where "MAX_LOCKINFO_BYTES = 16 * 1024"
definition LOCK_TOKEN_SCHEME :: string where "LOCK_TOKEN_SCHEME = ''opaquelocktoken:''"

text \<open>The header values of a request that are visible ASCII: all the \<^verbatim>\<open>If\<close>
  values, and the first \<^verbatim>\<open>Timeout\<close> and \<^verbatim>\<open>Lock-Token\<close> value.\<close>

record lock_headers =
  if_values :: "string list"
  timeout_value :: "string option"
  lock_token_value :: "string option"

definition timeout_part :: "string \<Rightarrow> int option" where
  "timeout_part part =
     (if eq_ignore_ascii_case part ''infinite'' then Some MAX_LOCK_TIMEOUT_SECS
      else Option.bind (strip_prefix ''Second-'' part) parse_i64)"

definition requested_timeout :: "lock_headers \<Rightarrow> int" where
  "requested_timeout headers =
     (case timeout_value headers of
        None \<Rightarrow> DEFAULT_LOCK_TIMEOUT_SECS
      | Some value \<Rightarrow>
          (case find_map timeout_part (map trim_ascii (split_on (CHR '','') value)) of
             Some seconds \<Rightarrow> max 1 (min MAX_LOCK_TIMEOUT_SECS seconds)
           | None \<Rightarrow> DEFAULT_LOCK_TIMEOUT_SECS))"

lemma split_once_shorter: "split_once c s = Some (a, b) \<Longrightarrow> length b < length s"
  by (auto simp: split_once_Some_iff)

function coded_urls :: "string \<Rightarrow> string list" where
  "coded_urls value =
     (case split_once (CHR ''<'') value of
        None \<Rightarrow> []
      | Some (before, after) \<Rightarrow>
          (case split_once (CHR ''>'') after of
             None \<Rightarrow> []
           | Some (url, rest) \<Rightarrow> trim_ascii url # coded_urls rest))"
  by pat_completeness auto
termination
  by (relation "measure length") (auto dest!: split_once_shorter)

declare coded_urls.simps [simp del]

definition if_header_tokens :: "lock_headers \<Rightarrow> string list" where
  "if_header_tokens headers =
     List.map_filter (strip_prefix LOCK_TOKEN_SCHEME) (concat (map coded_urls (if_values headers)))"

definition lock_token_header :: "lock_headers \<Rightarrow> string option" where
  "lock_token_header headers =
     Option.bind (lock_token_value headers) (\<lambda>value.
       strip_prefix LOCK_TOKEN_SCHEME
         (case coded_urls value of url # _ \<Rightarrow> url | [] \<Rightarrow> trim_ascii value))"

definition element_name :: "string \<Rightarrow> nat list" where
  "element_name tag = takeWhile
     (\<lambda>c. \<not> (c = of_char (CHR ''/'') \<or> c = of_char (CHR ''>'') \<or> is_whitespace c)) (chars tag)"

definition has_element :: "string \<Rightarrow> string \<Rightarrow> bool" where
  "has_element xml local_name =
     list_ex (\<lambda>tag. last (split_on (of_char (CHR '':'')) (element_name tag)) = chars local_name)
       (tl (split_on (CHR ''<'') xml))"

definition is_exclusive_write_lockinfo :: "string \<Rightarrow> bool" where
  "is_exclusive_write_lockinfo body \<longleftrightarrow>
     valid_utf8 body \<and> has_element body ''exclusive'' \<and> has_element body ''write''
     \<and> \<not> has_element body ''shared''"

definition check_lockinfo :: "string \<Rightarrow> (http_error, unit) result" where
  "check_lockinfo lockinfo =
     (if length lockinfo > MAX_LOCKINFO_BYTES
      then Err (new_with_message 413 ''lockinfo body too large'')
      else if lockinfo \<noteq> [] \<and> \<not> is_exclusive_write_lockinfo lockinfo
      then Err (bad_request ''Only exclusive write locks are supported'')
      else Ok ())"

text \<open>\<^verbatim>\<open>str::replace\<close> for a one-byte pattern; the four replacements run in the
  order of the code, the ampersand first.\<close>

definition replace_char :: "char \<Rightarrow> string \<Rightarrow> string \<Rightarrow> string" where
  "replace_char c r s = concat (map (\<lambda>x. if x = c then r else [x]) s)"

definition xml_escape :: "string \<Rightarrow> string" where
  "xml_escape text =
     replace_char (CHR 0x22) ''&quot;'' (replace_char (CHR ''>'') ''&gt;''
       (replace_char (CHR ''<'') ''&lt;'' (replace_char (CHR ''&'') ''&amp;'' text)))"

section \<open>Model: granting and checking\<close>

text \<open>\<^verbatim>\<open>create_lock\<close>: the sweep and the acquisition are two statements with
  their own clock readings; the token is a fresh random UUID.\<close>

definition create_lock ::
  "int \<Rightarrow> int \<Rightarrow> string \<Rightarrow> string \<Rightarrow> int \<Rightarrow> lock_table \<Rightarrow>
   (http_error, entry_lock) result \<times> lock_table" where
  "create_lock now now' uuid path lifetime_secs t =
     (let t1 = snd (delete_expired now t);
          (lock, t2) = acquire now' path uuid lifetime_secs t1
      in (ok_or locked lock, t2))"

text \<open>\<^verbatim>\<open>check_lock\<close>: what a write must show before it starts.  On success it
  returns the token the write runs under, if any.\<close>

definition check_lock ::
  "int \<Rightarrow> string \<Rightarrow> lock_headers \<Rightarrow> lock_table \<Rightarrow>
   (http_error, string option) result \<times> lock_table" where
  "check_lock now path headers t =
     (let held = if_header_tokens headers
      in if held = []
         then (case get_active now path t of
                 None \<Rightarrow> (Ok None, t)
               | Some _ \<Rightarrow> (Err locked, t))
         else (case keep_alive now path held WRITE_LOCK_HORIZON_SECS t of
                 (None, t') \<Rightarrow> (Err lock_token_mismatch, t')
               | (Some live, t') \<Rightarrow> (Ok (Some (lock_token live)), t')))"

text \<open>One tick of the background keep-alive of a write.\<close>

definition keepalive_tick :: "int \<Rightarrow> string \<Rightarrow> string \<Rightarrow> lock_table \<Rightarrow> bool \<times> lock_table" where
  "keepalive_tick now path token t =
     (let (lock, t') = keep_alive now path [token] WRITE_LOCK_HORIZON_SECS t
      in (lock \<noteq> None, t'))"

section \<open>The table keeps one row per path\<close>

abbreviation lock_invar :: "lock_table \<Rightarrow> bool" where
  "lock_invar t \<equiv> keyed lock_path t"

lemma get_active_row:
  "lock_invar t \<Longrightarrow> get_active now path t =
     (case row_of lock_path t path of
        Some r \<Rightarrow> if lock_expires_at r > now then Some r else None | None \<Rightarrow> None)"
  by (induction t) (auto simp: get_active_def row_of_Cons keyed_Cons find_None_iff)

lemma hold_row:
  "lock_invar t \<Longrightarrow> hold now path token t \<longleftrightarrow>
     (\<exists>r. row_of lock_path t path = Some r \<and> lock_token r = token \<and> lock_expires_at r > now)"
  by (auto simp: hold_def find_None_iff row_of_Some_iff)

lemma set_expiry_row:
  "lock_invar t \<Longrightarrow> fst (set_expiry_of_live_lock now path tokens e t) =
     (case row_of lock_path t path of
        Some r \<Rightarrow> if lock_token r \<in> set tokens \<and> lock_expires_at r > now
                  then Some (r\<lparr>lock_expires_at := e r\<rparr>) else None
      | None \<Rightarrow> None)"
  by (induction t)
     (auto simp: set_expiry_of_live_lock_def Let_def row_of_Cons keyed_Cons row_of_None_iff find_None_iff)

lemma row_of_set_expiry:
  "row_of lock_path (snd (set_expiry_of_live_lock now path tokens e t)) p =
     (case row_of lock_path t p of
        Some r \<Rightarrow> Some (if p = path \<and> lock_token r \<in> set tokens \<and> lock_expires_at r > now
                        then r\<lparr>lock_expires_at := e r\<rparr> else r)
      | None \<Rightarrow> None)"
  by (auto simp: set_expiry_of_live_lock_def Let_def row_of_update_where split: option.splits
      dest: row_of_SomeD)

lemma row_of_acquire:
  "lock_invar t \<Longrightarrow> row_of lock_path (snd (acquire now path token secs t)) p =
     (if p = path \<and> get_active now path t = None
      then Some \<lparr>lock_path = path, lock_token = token, lock_expires_at = now + secs\<rparr>
      else row_of lock_path t p)"
  by (auto simp: acquire_def Let_def get_active_row row_of_append row_of_Cons row_of_overwrite
      split: option.splits)

lemma acquire_invar: "lock_invar t \<Longrightarrow> lock_invar (snd (acquire now path token secs t))"
  by (auto simp: acquire_def Let_def keyed_snoc keyed_overwrite split: option.splits)

lemma set_expiry_invar: "lock_invar t \<Longrightarrow> lock_invar (snd (set_expiry_of_live_lock now path tokens e t))"
  by (simp add: set_expiry_of_live_lock_def Let_def)

lemma lock_step_invar: "lock_invar t \<Longrightarrow> lock_invar (lock_step t now op)"
  by (cases op) (simp_all add: acquire_invar set_expiry_invar refresh_def keep_alive_def
      release_def delete_expired_def Let_def)

section \<open>A live lock is kept until its expiry\<close>

text \<open>The holder itself may give a lock up: by releasing it, or by refreshing
  it with a shorter lifetime.\<close>

fun gives_up :: "lock_op \<Rightarrow> string \<times> string \<Rightarrow> bool" where
  "gives_up (Release path token) k \<longleftrightarrow> (path, token) = k"
| "gives_up (Refresh path tokens _) k \<longleftrightarrow> path = fst k \<and> snd k \<in> set tokens"
| "gives_up _ k \<longleftrightarrow> False"

definition lock_held :: "lock_table \<Rightarrow> string \<times> string \<Rightarrow> bool" where
  "lock_held t k \<longleftrightarrow> (\<exists>r. row_of lock_path t (fst k) = Some r \<and> lock_token r = snd k)"

definition lock_until :: "lock_table \<Rightarrow> string \<times> string \<Rightarrow> int" where
  "lock_until t k = (case row_of lock_path t (fst k) of Some r \<Rightarrow> lock_expires_at r | None \<Rightarrow> 0)"

lemma lock_step_keeps_row:
  assumes "lock_invar t" and "row_of lock_path t p = Some r" and "now < lock_expires_at r"
    and "\<not> gives_up op (p, lock_token r)"
  shows "\<exists>r'. row_of lock_path (lock_step t now op) p = Some r' \<and> lock_token r' = lock_token r \<and>
     lock_expires_at r \<le> lock_expires_at r'"
proof (cases op)
  case (Acquire path token secs)
  then show ?thesis using assms by (auto simp: row_of_acquire get_active_row)
next
  case (Refresh path tokens secs)
  then show ?thesis using assms by (auto simp: refresh_def row_of_set_expiry)
next
  case (KeepAlive path tokens secs)
  then show ?thesis using assms by (auto simp: keep_alive_def row_of_set_expiry)
next
  case (Release path token)
  then show ?thesis using assms by (auto simp: release_def Let_def row_of_delete_where dest: row_of_SomeD)
next
  case DeleteExpired
  then show ?thesis using assms by (auto simp: delete_expired_def row_of_delete_where)
qed

interpretation lock_ret: retention lock_held lock_until lock_step gives_up lock_invar
proof
  fix t n op k
  assume a: "lock_invar t" "lock_held t k" "n < lock_until t k" "\<not> gives_up op k"
  then obtain r where r: "row_of lock_path t (fst k) = Some r" "lock_token r = snd k" "n < lock_expires_at r"
    by (auto simp: lock_held_def lock_until_def)
  have g: "\<not> gives_up op (fst k, lock_token r)" using a(4) r(2) by simp
  from lock_step_keeps_row [OF a(1) r(1,3) g] r
  show "lock_held (lock_step t n op) k" "lock_until t k \<le> lock_until (lock_step t n op) k"
    by (auto simp: lock_held_def lock_until_def)
qed (rule lock_step_invar)

section \<open>Properties\<close>



text \<open>C28: Bounded lifetimes: whatever the \<^verbatim>\<open>Timeout\<close> header says, the granted lifetime
  is between 1 and 60 seconds, so that a lock that is granted and never touched
  again is dead after at most 60 seconds, and from then on another client gets
  the path.\<close>

theorem lock_lifetime_bounded:
  assumes "lock_invar t"
    and "create_lock now now' uuid path (requested_timeout headers) t = (Ok lock, t')"
    and "later \<ge> now' + MAX_LOCK_TIMEOUT_SECS"
  shows "now' < lock_expires_at lock \<and> lock_expires_at lock \<le> now' + MAX_LOCK_TIMEOUT_SECS \<and>
    get_active now' path t' = Some lock \<and> lock_token lock = uuid \<and>
    get_active later path t' = None \<and>
    fst (acquire later path token secs t') \<noteq> None"
proof -
  have to: "1 \<le> requested_timeout headers" "requested_timeout headers \<le> MAX_LOCK_TIMEOUT_SECS"
    by (auto simp: requested_timeout_def MAX_LOCK_TIMEOUT_SECS_def DEFAULT_LOCK_TIMEOUT_SECS_def
        split: option.splits)
  let ?t1 = "snd (delete_expired now t)"
  have inv1: "lock_invar ?t1" using assms(1) by (simp add: delete_expired_def)
  have acq: "acquire now' path uuid (requested_timeout headers) ?t1 = (Some lock, t')"
    using assms(2) by (auto simp: create_lock_def Let_def split: prod.splits)
  then have lock: "lock = \<lparr>lock_path = path, lock_token = uuid,
      lock_expires_at = now' + requested_timeout headers\<rparr>"
    and act: "get_active now' path ?t1 = None"
    using inv1 by (auto simp: acquire_def Let_def get_active_row split: option.splits if_splits)
  have inv: "lock_invar t'" using acquire_invar [OF inv1] acq by (metis snd_conv)
  have row: "row_of lock_path t' path = Some lock"
    using row_of_acquire [OF inv1, of now' path uuid "requested_timeout headers" path] acq act lock by simp
  then show ?thesis
    using to inv lock assms(3) by (auto simp: get_active_row acquire_def Let_def)
qed

theorem lock_lifetime_bounded_witness:
  "requested_timeout \<lparr>if_values = [], timeout_value = Some ''Second-4000000'', lock_token_value = None\<rparr> = 60 \<and>
   get_active 70 ''p'' (snd (create_lock 10 10 ''a'' ''p'' 60 [])) = None"
proof -
  let ?h = "\<lparr>if_values = [], timeout_value = Some ''Second-4000000'', lock_token_value = None\<rparr>"
  let ?l = "\<lparr>lock_path = ''p'', lock_token = ''a'', lock_expires_at = 70\<rparr>"
  have t: "requested_timeout ?h = 60" by code_simp
  have c: "create_lock 10 10 ''a'' ''p'' (requested_timeout ?h) [] = (Ok ?l, [?l])"
    unfolding t by code_simp
  show ?thesis
    using lock_lifetime_bounded [of "[]" 10 10 "''a''" "''p''" ?h ?l "[?l]" 70 "''b''" 1] c t
    by (simp add: MAX_LOCK_TIMEOUT_SECS_def)
qed

text \<open>The decision of the lock check: a write that names no token is let through
  unlocked when no lock is live and answered 423 otherwise; a write that names
  tokens is let through exactly when one of them is the token of the live lock,
  which then lives at least 30 seconds more and is never shortened, and answered
  412 otherwise; the locks of other paths are not touched.\<close>

theorem check_lock_decision:
  assumes "lock_invar t" and "check_lock now path headers t = (res, t')"
  shows "(if_header_tokens headers = [] \<longrightarrow> t' = t \<and>
            res = (if get_active now path t = None then Ok None else Err locked)) \<and>
    (if_header_tokens headers \<noteq> [] \<longrightarrow>
       (case get_active now path t of
          Some lock \<Rightarrow>
            if lock_token lock \<in> set (if_header_tokens headers)
            then res = Ok (Some (lock_token lock)) \<and>
                 (\<exists>lock'. get_active now path t' = Some lock' \<and> lock_token lock' = lock_token lock \<and>
                    lock_expires_at lock' = max (lock_expires_at lock) (now + WRITE_LOCK_HORIZON_SECS))
            else res = Err lock_token_mismatch
        | None \<Rightarrow> res = Err lock_token_mismatch)) \<and>
    (\<forall>p. p = path \<or> row_of lock_path t' p = row_of lock_path t p)"
proof (cases "if_header_tokens headers = []")
  case True
  then show ?thesis using assms(2) by (auto simp: check_lock_def split: option.splits)
next
  case False
  let ?ka = "keep_alive now path (if_header_tokens headers) WRITE_LOCK_HORIZON_SECS t"
  have t': "t' = snd ?ka" and res: "res = (case fst ?ka of None \<Rightarrow> Err lock_token_mismatch
      | Some live \<Rightarrow> Ok (Some (lock_token live)))"
    using assms(2) False by (auto simp: check_lock_def split: option.splits prod.splits)
  have rows: "row_of lock_path t' p = row_of lock_path t p" if "p \<noteq> path" for p
    unfolding t' keep_alive_def row_of_set_expiry using that by (auto split: option.splits)
  have inv: "lock_invar t'" unfolding t' keep_alive_def by (rule set_expiry_invar [OF assms(1)])
  show ?thesis
    using False assms(1) rows inv
    unfolding res t' keep_alive_def set_expiry_row [OF assms(1)]
    by (auto simp: get_active_row row_of_set_expiry split: option.splits)
qed

theorem check_lock_decision_witness:
  "fst (check_lock 5 ''p'' \<lparr>if_values = [''(<opaquelocktoken:a>)''], timeout_value = None,
       lock_token_value = None\<rparr> [\<lparr>lock_path = ''p'', lock_token = ''a'', lock_expires_at = 10\<rparr>]) =
     Ok (Some ''a'') \<and>
   fst (check_lock 5 ''p'' \<lparr>if_values = [], timeout_value = None,
       lock_token_value = None\<rparr> [\<lparr>lock_path = ''p'', lock_token = ''a'', lock_expires_at = 10\<rparr>]) =
     Err locked"
proof -
  let ?l = "\<lparr>lock_path = ''p'', lock_token = ''a'', lock_expires_at = 10\<rparr>"
  let ?h = "\<lparr>if_values = [''(<opaquelocktoken:a>)''], timeout_value = None, lock_token_value = None\<rparr>"
  let ?hn = "\<lparr>if_values = [], timeout_value = None, lock_token_value = None\<rparr>"
  have k: "lock_invar [?l]" by (simp add: keyed_def)
  have h: "if_header_tokens ?h = [''a'']" by code_simp
  have h0: "if_header_tokens ?hn = []" by code_simp
  have g: "get_active 5 ''p'' [?l] = Some ?l" by (simp add: get_active_def)
  have "fst (check_lock 5 ''p'' ?h [?l]) = Ok (Some ''a'')"
    using check_lock_decision [where now = 5 and path = "''p''" and headers = ?h, OF k prod.collapse [symmetric]] g h by simp
  moreover have "fst (check_lock 5 ''p'' ?hn [?l]) = Err locked"
    using check_lock_decision [where now = 5 and path = "''p''" and headers = ?hn, OF k prod.collapse [symmetric]] g h0 by simp
  ultimately show ?thesis by blast
qed

end
