(* ===== verification/Entries.thy ===== *)
theory Entries
  imports Users Entry_Lock
begin

text \<open>
  The \<^verbatim>\<open>entries\<close> table (\<^verbatim>\<open>persistence/sql/entities/entry\<close>): one row per stored file,
  its lookups, the collision check between files and folders, and the shallow and
  deep listings, with the \<^verbatim>\<open>LIKE\<close> patterns they use (\<^verbatim>\<open>persistence/sql/like_pattern.rs\<close>).
  The \<^verbatim>\<open>LIKE\<close> operator and the C collation of the queries are modelled; the regular
  expression function the shallow listing calls is a parameter.
\<close>

section \<open>Model: patterns\<close>

abbreviation backslash :: char where "backslash \<equiv> CHR 0x5C"

definition like_starts_with :: "string \<Rightarrow> string" where
  "like_starts_with pre =
     replace_char (CHR ''%'') [backslash, CHR ''%''] (replace_char (CHR ''_'') [backslash, CHR ''_'']
       (replace_char backslash [backslash, backslash] pre)) @ ''%''"

text \<open>\<^verbatim>\<open>value LIKE pattern ESCAPE backslash\<close>.\<close>

function like_match :: "string \<Rightarrow> string \<Rightarrow> bool" where
  "like_match [] s = (s = [])"
| "like_match (c # p) s =
     (if c = CHR ''%'' then like_match p s \<or> (case s of [] \<Rightarrow> False | _ # s' \<Rightarrow> like_match (c # p) s')
      else case s of
        [] \<Rightarrow> False
      | x # s' \<Rightarrow>
          if c = CHR ''_'' then like_match p (drop (utf8_width x - 1) s')
          else if c = backslash then (case p of [] \<Rightarrow> False | q # p' \<Rightarrow> x = q \<and> like_match p' s')
          else x = c \<and> like_match p s')"
  by pat_completeness auto
termination
  by (relation "measure (\<lambda>(p, s). length p + length s)") auto

section \<open>Model: the entries table\<close>

record entry_row =
  en_id :: int
  en_user :: int
  en_path :: string
  en_hash :: string
  en_length :: nat
  en_type :: string
  en_modified_at :: int
  en_created_at :: int

record entry_table =
  et_rows :: "entry_row list"
  et_seq :: int

record entry_entity =
  ee_id :: int
  ee_user_id :: int
  ee_path :: entry_path
  ee_hash :: string
  ee_length :: nat
  ee_type :: string
  ee_modified_at :: int
  ee_created_at :: int

text \<open>The key of the user a row joins with.\<close>

definition owner_key :: "user_table \<Rightarrow> int \<Rightarrow> public_key option" where
  "owner_key users user_id = map_option ue_public_key (row_of ue_id (ut_rows users) user_id)"

definition entry_from_row :: "user_table \<Rightarrow> entry_row \<Rightarrow> (sql_error, entry_entity) result" where
  "entry_from_row users r =
     and_then (ok_or DecodeError (owner_key users (en_user r))) (\<lambda>pk.
     and_then (map_err (\<lambda>_. DecodeError) (storage_path_new (en_path r))) (\<lambda>path.
     and_then (ensure (length (en_hash r) = 32) DecodeError) (\<lambda>_.
       Ok \<lparr>ee_id = en_id r, ee_user_id = en_user r, ee_path = entry_path_new pk path, ee_hash = en_hash r,
           ee_length = en_length r, ee_type = en_type r, ee_modified_at = en_modified_at r,
           ee_created_at = en_created_at r\<rparr>)))"

definition entry_create ::
  "int \<Rightarrow> int \<Rightarrow> storage_path \<Rightarrow> string \<Rightarrow> nat \<Rightarrow> string \<Rightarrow> entry_table \<Rightarrow> (sql_error, int \<times> entry_table) result" where
  "entry_create now user_id path content_hash content_length content_type t =
     (if row_of (\<lambda>r. (en_user r, en_path r)) (et_rows t) (user_id, as_str path) \<noteq> None then Err UniqueViolation
      else Ok (et_seq t,
        \<lparr>et_rows = et_rows t @ [\<lparr>en_id = et_seq t, en_user = user_id, en_path = as_str path,
           en_hash = content_hash, en_length = content_length, en_type = content_type,
           en_modified_at = now, en_created_at = now\<rparr>],
         et_seq = et_seq t + 1\<rparr>))"

definition entry_get_by_path :: "entry_path \<Rightarrow> user_table \<Rightarrow> entry_table \<Rightarrow> (sql_error, entry_entity) result" where
  "entry_get_by_path path users t =
     and_then (ok_or RowNotFound (find (\<lambda>r. en_path r = as_str (ep_path path) \<and>
         owner_key users (en_user r) = Some (ep_pubkey path)) (et_rows t)))
       (entry_from_row users)"

text \<open>The operator \<^verbatim>\<open>~\<close> of the query is the parameter \<^verbatim>\<open>regex_matches\<close>.\<close>

definition list_by_path_pattern ::
  "(string \<Rightarrow> string \<Rightarrow> bool) \<Rightarrow> string \<Rightarrow> int \<Rightarrow> nat \<Rightarrow> user_table \<Rightarrow> entry_table \<Rightarrow>
   (sql_error, entry_entity list) result" where
  "list_by_path_pattern regex_matches pattern after_id limit users t =
     try_map (entry_from_row users)
       (take limit (sort_key en_id (filter (\<lambda>r. regex_matches pattern (en_path r) \<and> en_id r > after_id) (et_rows t))))"

definition entry_update :: "int \<Rightarrow> entry_entity \<Rightarrow> entry_table \<Rightarrow> entry_table" where
  "entry_update now e t =
     t\<lparr>et_rows := update_where (\<lambda>r. en_id r = ee_id e)
       (\<lambda>r. r\<lparr>en_hash := ee_hash e, en_length := ee_length e, en_type := ee_type e, en_modified_at := now\<rparr>)
       (et_rows t)\<rparr>"

definition entry_delete :: "int \<Rightarrow> entry_table \<Rightarrow> entry_table" where
  "entry_delete i t = t\<lparr>et_rows := delete_where (\<lambda>r. en_id r = i) (et_rows t)\<rparr>"

definition folder_of :: "storage_path \<Rightarrow> string" where
  "folder_of p = (if suffix ''/'' (as_str p) then as_str p else as_str p @ ''/'')"

definition contains_directory :: "entry_path \<Rightarrow> user_table \<Rightarrow> entry_table \<Rightarrow> bool" where
  "contains_directory path users t =
     (0 < length (filter (\<lambda>r. like_match (like_starts_with (folder_of (ep_path path))) (en_path r) \<and>
        owner_key users (en_user r) = Some (ep_pubkey path)) (et_rows t)))"

section \<open>Model: collisions\<close>

definition descendant_path_bounds :: "string \<Rightarrow> string \<times> string" where
  "descendant_path_bounds path =
     (let folder = (case strip_suffix ''/'' path of Some f \<Rightarrow> f | None \<Rightarrow> path)
      in (folder @ ''/'', folder @ ''0''))"

definition trim_end_slashes :: "string \<Rightarrow> string" where
  "trim_end_slashes s = rev (dropWhile (\<lambda>c. c = CHR ''/'') (rev s))"

definition rsplit_once :: "char \<Rightarrow> string \<Rightarrow> (string \<times> string) option" where
  "rsplit_once c s = map_option (\<lambda>(a, b). (rev b, rev a)) (split_once c (rev s))"

lemma rsplit_once_Some_iff: "rsplit_once c s = Some (a, b) \<longleftrightarrow> s = a @ c # b \<and> c \<notin> set b"
proof -
  have "rsplit_once c s = Some (a, b) \<longleftrightarrow> split_once c (rev s) = Some (rev b, rev a)"
    by (auto simp: rsplit_once_def)
  also have "\<dots> \<longleftrightarrow> rev s = rev b @ c # rev a \<and> c \<notin> set b" by (simp add: split_once_Some_iff)
  also have "rev s = rev b @ c # rev a \<longleftrightarrow> s = a @ c # b"
    by (metis rev_append rev_rev_ident rev.simps(2) append.assoc append_Cons append_Nil)
  finally show ?thesis .
qed

lemma rsplit_once_None_iff: "rsplit_once c s = None \<longleftrightarrow> c \<notin> set s"
  by (simp add: rsplit_once_def split_once_None_iff)

text \<open>The loop of \<^verbatim>\<open>ancestor_file_paths\<close>: the parents of the path, nearest first.\<close>

function parent_paths :: "string \<Rightarrow> string list" where
  "parent_paths path =
     (case rsplit_once (CHR ''/'') path of
        None \<Rightarrow> []
      | Some (parent, _) \<Rightarrow> if parent = [] then [] else parent # parent_paths parent)"
  by pat_completeness auto
termination
  by (relation "measure length") (auto simp: rsplit_once_Some_iff)

declare parent_paths.simps [simp del]

definition ancestor_file_paths :: "string \<Rightarrow> string list" where
  "ancestor_file_paths path =
     (let path = trim_end_slashes path in if path = [] then [] else parent_paths path)"

definition has_file_folder_collision :: "entry_path \<Rightarrow> user_table \<Rightarrow> entry_table \<Rightarrow> bool" where
  "has_file_folder_collision path users t =
     (let path_str = as_str (ep_path path);
          (descendants_after, descendants_before) = descendant_path_bounds path_str;
          ancestor_paths = ancestor_file_paths path_str @
            (case strip_suffix ''/'' path_str of
               Some without_trailing_slash \<Rightarrow> if without_trailing_slash \<noteq> [] then [without_trailing_slash] else []
             | None \<Rightarrow> [])
      in case user_get_id (ep_pubkey path) users of
           Inl _ \<Rightarrow> False
         | Inr user_id \<Rightarrow>
             list_ex (\<lambda>r. en_user r = user_id \<and> descendants_after < en_path r \<and> en_path r < descendants_before) (et_rows t)
             \<or> list_ex (\<lambda>r. en_user r = user_id \<and> en_path r \<in> set ancestor_paths) (et_rows t))"

section \<open>Model: listings\<close>

text \<open>What both listings do with the paths a query selects: order them by their
  bytes, start after the cursor, cut at the limit, and decode.\<close>

definition path_after :: "bool \<Rightarrow> string \<Rightarrow> string \<Rightarrow> bool" where
  "path_after rv c p = (if rv then p < c else c < p)"

definition ordered_paths :: "bool \<Rightarrow> string list \<Rightarrow> string list" where
  "ordered_paths rv ps = (if rv then rev (sort ps) else sort ps)"

definition list_page ::
  "public_key \<Rightarrow> nat option \<Rightarrow> entry_path option \<Rightarrow> bool \<Rightarrow> string list \<Rightarrow> (sql_error, entry_path list) result" where
  "list_page pk limit cursor rv paths =
     (let ordered = ordered_paths rv paths;
          rest = (case cursor of None \<Rightarrow> ordered | Some c \<Rightarrow> filter (path_after rv (as_str (ep_path c))) ordered)
      in try_map (\<lambda>p. map_ok (entry_path_new pk) (map_err (\<lambda>_. DecodeError) (storage_path_new p)))
           (take (effective_list_limit limit) rest))"

text \<open>The paths below a folder of the user.\<close>

definition paths_below :: "entry_path \<Rightarrow> user_table \<Rightarrow> entry_table \<Rightarrow> string list" where
  "paths_below path users t =
     map en_path (filter (\<lambda>r. like_match (like_starts_with (folder_of (ep_path path))) (en_path r) \<and>
       owner_key users (en_user r) = Some (ep_pubkey path)) (et_rows t))"

definition list_deep ::
  "entry_path \<Rightarrow> nat option \<Rightarrow> entry_path option \<Rightarrow> bool \<Rightarrow> user_table \<Rightarrow> entry_table \<Rightarrow>
   (sql_error, entry_path list) result" where
  "list_deep path limit cursor rv users t =
     list_page (ep_pubkey path) limit cursor rv (paths_below path users t)"

text \<open>\<^verbatim>\<open>regexp_replace source pattern replacement\<close> is the database function.\<close>

type_synonym regexp_function = "string \<Rightarrow> string \<Rightarrow> string \<Rightarrow> string"

definition shallow_pattern :: "string \<Rightarrow> string" where
  "shallow_pattern dir = ''^'' @ dir @ ''([^/]*)('' @ [backslash] @ ''/?)(.*)?$''"

definition shallow_replacement :: "string \<Rightarrow> string" where
  "shallow_replacement dir = dir @ [backslash, CHR ''1''] @ [backslash, CHR ''2'']"

definition list_shallow ::
  "regexp_function \<Rightarrow> entry_path \<Rightarrow> nat option \<Rightarrow> entry_path option \<Rightarrow> bool \<Rightarrow> user_table \<Rightarrow> entry_table \<Rightarrow>
   (sql_error, entry_path list) result" where
  "list_shallow regexp_replace path limit cursor rv users t =
     (let dir = folder_of (ep_path path);
          regpaths = map (\<lambda>p. regexp_replace p (shallow_pattern dir) (shallow_replacement dir)) (paths_below path users t)
      in list_page (ep_pubkey path) limit cursor rv (remdups regpaths))"

section \<open>Patterns match prefixes\<close>

definition like_escape :: "char \<Rightarrow> string" where
  "like_escape c = (if c \<in> {backslash, CHR ''_'', CHR ''%''} then [backslash, c] else [c])"

lemma like_starts_with_escape: "like_starts_with p = concat (map like_escape p) @ ''%''"
  by (induction p) (auto simp: like_starts_with_def replace_char_def like_escape_def)

lemma like_match_percent [simp]: "like_match ''%'' s"
  by (induction s) simp_all

lemma like_match_escape:
  "like_match (like_escape c @ p) s \<longleftrightarrow> (\<exists>s'. s = c # s' \<and> like_match p s')"
  by (cases s) (auto simp: like_escape_def)

declare like_match.simps [simp del]

lemma like_starts_with_prefix [simp]: "like_match (like_starts_with p) s \<longleftrightarrow> prefix p s"
  unfolding like_starts_with_escape
proof (induction p arbitrary: s)
  case (Cons c p)
  then show ?case by (cases s) (auto simp: like_match_escape)
qed simp

section \<open>Collisions are prefixes\<close>

lemma char_between: "CHR ''/'' \<le> c \<Longrightarrow> c < CHR ''0'' \<Longrightarrow> c = CHR ''/''"
proof -
  assume "CHR ''/'' \<le> c" "c < CHR ''0''"
  then have "of_char c = (of_char (CHR ''/'') :: nat)" by (simp add: less_eq_char_def less_char_def)
  then show ?thesis by (rule injD [OF inj_of_char])
qed

lemma between_bounds:
  "f @ ''/'' < s \<and> s < f @ ''0'' \<longleftrightarrow> (\<exists>c t. s = f @ CHR ''/'' # c # t)"
proof (induction f arbitrary: s)
  case Nil
  show ?case
  proof (cases s)
    case (Cons x t)
    have "CHR ''/'' \<le> x \<and> x < CHR ''0'' \<longleftrightarrow> x = CHR ''/''"
      using char_between [of x] by (auto simp: less_eq_char_def less_char_def)
    with Cons show ?thesis by (cases t) (auto simp: less_le)
  qed simp
next
  case (Cons y f)
  then show ?case by (cases s) auto
qed

lemma split_last_slash:
  "a @ CHR ''/'' # b = p @ CHR ''/'' # seg \<Longrightarrow> CHR ''/'' \<notin> set seg \<Longrightarrow>
   a = p \<or> (\<exists>b'. p = a @ CHR ''/'' # b')"
  by (auto simp: append_eq_append_conv2 Cons_eq_append_conv append_eq_Cons_conv)

lemma set_parent_paths: "a \<in> set (parent_paths p) \<longleftrightarrow> a \<noteq> [] \<and> (\<exists>b. p = a @ CHR ''/'' # b)"
proof (induction p rule: parent_paths.induct)
  case (1 p)
  show ?case
  proof (cases "rsplit_once (CHR ''/'') p")
    case None
    then have "parent_paths p = []" by (simp add: parent_paths.simps [of p])
    with None show ?thesis by (auto simp: rsplit_once_None_iff)
  next
    case (Some ps)
    then obtain par seg where ps: "ps = (par, seg)" "p = par @ CHR ''/'' # seg" "CHR ''/'' \<notin> set seg"
      by (cases ps) (auto simp: rsplit_once_Some_iff)
    have unfold: "set (parent_paths p) = (if par = [] then {} else insert par (set (parent_paths par)))"
      unfolding parent_paths.simps [of p] Some ps(1) by simp
    show ?thesis
    proof (cases "par = []")
      case True
      then show ?thesis using ps unfold split_last_slash [of a _ par seg] by fastforce
    next
      case False
      then have "a \<in> set (parent_paths par) \<longleftrightarrow> a \<noteq> [] \<and> (\<exists>b. par = a @ CHR ''/'' # b)"
        using 1 [OF Some ps(1) [symmetric]] by simp
      then show ?thesis using False ps unfold split_last_slash [of a _ par seg] by fastforce
    qed
  qed
qed

lemma strict_prefix_iff_append: "strict_prefix p q \<longleftrightarrow> (\<exists>c t. q = p @ c # t)"
  by (metis strict_prefixE' strict_prefixI')

text \<open>What a collision is: a file of the user below the path, or a file on the way to it.\<close>

definition collides :: "string \<Rightarrow> string \<Rightarrow> bool" where
  "collides p q \<longleftrightarrow> strict_prefix (p @ ''/'') q \<or> q \<noteq> [] \<and> prefix (q @ ''/'') p"

lemma file_path_shape:
  assumes "canonical p" and "is_file p"
  shows "trim_end_slashes (as_str p) = as_str p" and "strip_suffix ''/'' (as_str p) = None"
    and "as_str p \<noteq> []"
proof -
  show "strip_suffix ''/'' (as_str p) = None"
    using assms(2) by (simp add: is_file_def is_directory_def strip_suffix_def)
  show "as_str p \<noteq> []" using canonical_starts_slash [OF assms(1)] by auto
  then show "trim_end_slashes (as_str p) = as_str p"
    using assms(2) by (cases "as_str p" rule: rev_cases)
      (auto simp: trim_end_slashes_def is_file_def is_directory_def)
qed

lemma has_collision_iff:
  assumes "user_get (ep_pubkey path) users = Ok u" and "canonical (ep_path path)" and "is_file (ep_path path)"
  shows "has_file_folder_collision path users t \<longleftrightarrow>
    (\<exists>r \<in> set (et_rows t). en_user r = ue_id u \<and> collides (as_str (ep_path path)) (en_path r))"
proof -
  let ?p = "as_str (ep_path path)"
  note shape = file_path_shape [OF assms(2,3)]
  have anc: "q \<in> set (ancestor_file_paths ?p) \<longleftrightarrow> q \<noteq> [] \<and> prefix (q @ ''/'') ?p" for q
    using shape by (auto simp: ancestor_file_paths_def set_parent_paths prefix_def)
  have below: "?p @ ''/'' < q \<and> q < ?p @ ''0'' \<longleftrightarrow> strict_prefix (?p @ ''/'') q" for q
    unfolding between_bounds strict_prefix_iff_append by simp
  show ?thesis
    using assms(1) shape(2) below anc
    by (auto simp: has_file_folder_collision_def descendant_path_bounds_def user_get_id_def collides_def
        list_ex_iff Let_def)
qed

section \<open>The table invariant\<close>

text \<open>The unique indexes on the id and on user and path, the id sequence, and what
  the columns of a row hold: an existing user, a canonical path, a hash.\<close>

abbreviation en_key :: "entry_row \<Rightarrow> int \<times> string" where
  "en_key r \<equiv> (en_user r, en_path r)"

definition entry_row_wf :: "user_table \<Rightarrow> entry_row \<Rightarrow> bool" where
  "entry_row_wf users r \<longleftrightarrow> owner_key users (en_user r) \<noteq> None \<and> canonical (StoragePath (en_path r)) \<and>
     valid_utf8 (en_path r) \<and> length (en_hash r) = 32"

definition entry_invar :: "user_table \<Rightarrow> entry_table \<Rightarrow> bool" where
  "entry_invar users t \<longleftrightarrow> keyed en_id (et_rows t) \<and> keyed en_key (et_rows t) \<and>
     (\<forall>r \<in> set (et_rows t). en_id r < et_seq t \<and> entry_row_wf users r)"

definition entity_of :: "public_key \<Rightarrow> entry_row \<Rightarrow> entry_entity" where
  "entity_of pk r = \<lparr>ee_id = en_id r, ee_user_id = en_user r, ee_path = entry_path_new pk (StoragePath (en_path r)),
     ee_hash = en_hash r, ee_length = en_length r, ee_type = en_type r, ee_modified_at = en_modified_at r,
     ee_created_at = en_created_at r\<rparr>"

lemma owner_key_iff:
  assumes "user_invar users"
  shows "owner_key users i = Some pk \<longleftrightarrow> (\<exists>u. user_get pk users = Ok u \<and> ue_id u = i)"
proof -
  have "owner_key users i = Some pk \<longleftrightarrow>
      (\<exists>u. user_get (ue_public_key u) users = Ok u \<and> ue_id u = i \<and> ue_public_key u = pk)"
    by (auto simp: owner_key_def user_row_iff [OF assms])
  then show ?thesis by (auto dest: user_getD)
qed

lemma owner_key_get:
  assumes "user_invar users" and "user_get pk users = Ok u"
  shows "owner_key users i = Some pk \<longleftrightarrow> i = ue_id u"
  using assms by (auto simp: owner_key_iff)

lemma owner_key_cong:
  assumes "user_invar users" "user_invar users'"
    and "\<And>pk. map_ok ue_id (user_get pk users') = map_ok ue_id (user_get pk users)"
  shows "owner_key users' i = owner_key users i"
proof -
  have "(\<exists>u. user_get pk users' = Ok u \<and> ue_id u = i) \<longleftrightarrow> (\<exists>u. user_get pk users = Ok u \<and> ue_id u = i)" for pk
    using assms(3) [of pk] by (cases "user_get pk users"; cases "user_get pk users'") auto
  then have "owner_key users' i = Some pk \<longleftrightarrow> owner_key users i = Some pk" for pk
    using assms(1,2) by (simp add: owner_key_iff)
  then show ?thesis by (metis option.exhaust)
qed

lemma entry_from_row_wf:
  "owner_key users (en_user r) = Some pk \<Longrightarrow> entry_row_wf users r \<Longrightarrow> entry_from_row users r = Ok (entity_of pk r)"
  by (simp add: entry_from_row_def entry_row_wf_def entity_of_def and_then_ok_iff)

lemma find_cong: "(\<And>x. x \<in> set xs \<Longrightarrow> P x = Q x) \<Longrightarrow> find P xs = find Q xs"
  by (induction xs) auto

text \<open>A lookup by path is a lookup in the index.\<close>

lemma entry_get_by_path_row:
  assumes "user_invar users" and "entry_invar users t" and "user_get (ep_pubkey path) users = Ok u"
  shows "entry_get_by_path path users t =
    (case row_of en_key (et_rows t) (ue_id u, as_str (ep_path path)) of
       None \<Rightarrow> Err RowNotFound | Some r \<Rightarrow> Ok (entity_of (ep_pubkey path) r))"
proof -
  have "find (\<lambda>r. en_path r = as_str (ep_path path) \<and> owner_key users (en_user r) = Some (ep_pubkey path)) (et_rows t) =
      row_of en_key (et_rows t) (ue_id u, as_str (ep_path path))"
    unfolding row_of_def using owner_key_get [OF assms(1,3)] by (intro find_cong) auto
  moreover have "entry_from_row users r = Ok (entity_of (ep_pubkey path) r)"
    if "row_of en_key (et_rows t) (ue_id u, as_str (ep_path path)) = Some r" for r
    using row_of_SomeD [OF that] assms owner_key_get [OF assms(1,3)]
    by (auto simp: entry_invar_def intro: entry_from_row_wf)
  ultimately show ?thesis
    unfolding entry_get_by_path_def by (simp split: option.split)
qed

lemma entry_get_by_path_no_user:
  assumes "user_invar users" and "user_get (ep_pubkey path) users = Err e"
  shows "entry_get_by_path path users t = Err RowNotFound"
proof -
  have "owner_key users i \<noteq> Some (ep_pubkey path)" for i using assms by (simp add: owner_key_iff)
  then have "find (\<lambda>r. en_path r = as_str (ep_path path) \<and> owner_key users (en_user r) = Some (ep_pubkey path)) (et_rows t) = None"
    by (auto simp: find_None_iff)
  then show ?thesis by (simp only: entry_get_by_path_def ok_or_simps and_then_simps)
qed

subsection \<open>The operations\<close>

lemma entry_create_ok:
  assumes "entry_invar users t" and "owner_key users user_id \<noteq> None" and "canonical path" and "valid_utf8 (as_str path)"
    and "length h = 32" and "row_of en_key (et_rows t) (user_id, as_str path) = None"
  shows "\<exists>t'. entry_create now user_id path h n ty t = Ok (et_seq t, t') \<and> entry_invar users t' \<and>
    (\<forall>k. row_of en_key (et_rows t') k = (if k = (user_id, as_str path)
       then Some \<lparr>en_id = et_seq t, en_user = user_id, en_path = as_str path, en_hash = h, en_length = n,
         en_type = ty, en_modified_at = now, en_created_at = now\<rparr> else row_of en_key (et_rows t) k))"
proof -
  have fresh: "row_of en_id (et_rows t) (et_seq t) = None"
    using assms(1) by (force simp: entry_invar_def row_of_None_iff)
  show ?thesis
    using assms fresh
    by (auto simp: entry_create_def entry_invar_def keyed_snoc row_of_append row_of_Cons entry_row_wf_def
        split: option.splits)
qed

lemma entry_row_id_iff:
  assumes "entry_invar users t" and "row_of en_key (et_rows t) k = Some r" and "x \<in> set (et_rows t)"
  shows "en_id x = en_id r \<longleftrightarrow> x = r"
  using assms row_of_SomeD [OF assms(2)] by (auto simp: entry_invar_def keyed_def distinct_map inj_on_def)

lemma row_of_update_one:
  fixes f :: "'r \<Rightarrow> 'r"
  assumes "row_of key t k = Some r" and "\<And>x. x \<in> set t \<Longrightarrow> P x \<longleftrightarrow> x = r" and "\<And>x. key (f x) = key x"
  shows "row_of key (update_where P f t) k' = (if k' = k then Some (f r) else row_of key t k')"
proof -
  have "key r = k" using row_of_SomeD [OF assms(1)] by simp
  moreover have "P x \<longleftrightarrow> x = r" if "row_of key t k' = Some x" for x using assms(2) row_of_SomeD [OF that] by simp
  ultimately show ?thesis
    using assms(1) row_of_SomeD [of key t k'] by (cases "row_of key t k'") (auto simp: row_of_update_where assms(3))
qed

lemma row_of_delete_one:
  assumes "keyed key t" and "row_of key t k = Some r" and "\<And>x. x \<in> set t \<Longrightarrow> P x \<longleftrightarrow> x = r"
  shows "row_of key (delete_where P t) k' = (if k' = k then None else row_of key t k')"
proof -
  have "key r = k" using row_of_SomeD [OF assms(2)] by simp
  moreover have "P x \<longleftrightarrow> x = r" if "row_of key t k' = Some x" for x using assms(3) row_of_SomeD [OF that] by simp
  ultimately show ?thesis
    using assms(2) row_of_SomeD [of key t k'] by (cases "row_of key t k'") (auto simp: row_of_delete_where [OF assms(1)])
qed

lemma entry_update_ok:
  assumes "entry_invar users t" and "row_of en_key (et_rows t) k = Some r" and "ee_id e = en_id r" and "length (ee_hash e) = 32"
  shows "entry_invar users (entry_update now e t)"
    and "row_of en_key (et_rows (entry_update now e t)) k' = (if k' = k
       then Some (r\<lparr>en_hash := ee_hash e, en_length := ee_length e, en_type := ee_type e, en_modified_at := now\<rparr>)
       else row_of en_key (et_rows t) k')"
proof -
  show "entry_invar users (entry_update now e t)"
    using assms(1,4) by (auto simp: entry_invar_def entry_update_def set_update_where entry_row_wf_def)
  have P: "en_id x = ee_id e \<longleftrightarrow> x = r" if "x \<in> set (et_rows t)" for x
    using entry_row_id_iff [OF assms(1,2) that] assms(3) by simp
  show "row_of en_key (et_rows (entry_update now e t)) k' = (if k' = k
       then Some (r\<lparr>en_hash := ee_hash e, en_length := ee_length e, en_type := ee_type e, en_modified_at := now\<rparr>)
       else row_of en_key (et_rows t) k')"
    unfolding entry_update_def using row_of_update_one [OF assms(2) P,
      where f = "\<lambda>r. r\<lparr>en_hash := ee_hash e, en_length := ee_length e, en_type := ee_type e, en_modified_at := now\<rparr>"]
    by simp
qed

lemma entry_delete_ok:
  assumes "entry_invar users t" and "row_of en_key (et_rows t) k = Some r"
  shows "entry_invar users (entry_delete (en_id r) t)"
    and "row_of en_key (et_rows (entry_delete (en_id r) t)) k' = (if k' = k then None else row_of en_key (et_rows t) k')"
proof -
  show "entry_invar users (entry_delete (en_id r) t)"
    using assms(1) by (auto simp: entry_invar_def entry_delete_def)
  have "keyed en_key (et_rows t)" using assms(1) by (simp add: entry_invar_def)
  from row_of_delete_one [OF this assms(2) entry_row_id_iff [OF assms]]
  show "row_of en_key (et_rows (entry_delete (en_id r) t)) k' = (if k' = k then None else row_of en_key (et_rows t) k')"
    by (simp add: entry_delete_def)
qed

section \<open>Folders of canonical paths\<close>

lemma utf8_chunk_continuation: "utf8_chunk b cs \<Longrightarrow> c \<in> set cs \<Longrightarrow> 128 \<le> (of_char c :: nat)"
  by (auto simp: utf8_chunk_def list_all_iff Let_def)

lemma utf8_chunk_length: "utf8_chunk b cs \<Longrightarrow> length cs = utf8_width b - 1"
  by (simp add: utf8_chunk_def Let_def)

text \<open>An ASCII byte ends every sequence before it.\<close>

lemma valid_utf8_before_ascii:
  "valid_utf8 (q @ c # r) \<Longrightarrow> (of_char c :: nat) < 128 \<Longrightarrow> valid_utf8 q"
proof (induction q rule: valid_utf8.induct)
  case (2 b bs)
  let ?k = "utf8_width b - 1"
  have chunk: "utf8_chunk b (take ?k (bs @ c # r))" and rest: "valid_utf8 (drop ?k (bs @ c # r))"
    using 2(2) by simp_all
  have "?k \<le> length bs"
  proof (rule ccontr)
    assume "\<not> ?k \<le> length bs"
    then have "c \<in> set (take ?k (bs @ c # r))" by (cases "?k - length bs") auto
    then show False using utf8_chunk_continuation [OF chunk] 2(3) by fastforce
  qed
  then show ?case using chunk rest 2(1,3) by simp
qed simp

lemma chars_append: "valid_utf8 q \<Longrightarrow> chars (q @ r) = chars q @ chars r"
proof (induction q rule: valid_utf8.induct)
  case (2 b bs)
  then have "utf8_width b - 1 \<le> length bs" using utf8_chunk_length [of b "take (utf8_width b - 1) bs"] by simp
  with 2 show ?case by simp
qed simp

lemma split_on_append_sep: "split_on c (a @ c # b) = split_on c a @ split_on c b"
  by (induction a) (auto split: list.splits)

lemma canonical_folder:
  assumes "canonical (StoragePath (q @ CHR ''/'' # r))" and "valid_utf8 (q @ CHR ''/'' # r)"
  shows "canonical (StoragePath (q @ ''/''))"
proof (cases q)
  case Nil
  then show ?thesis using canonical_root by (simp add: storage_path_root_def)
next
  case (Cons x t)
  have c: "validate_canonical (q @ CHR ''/'' # r) = Ok ()" using assms(1) by (simp add: canonical_def)
  then have x: "x = CHR ''/''" using Cons by (auto simp: validate_canonical_def split: if_splits)
  have len: "length (q @ ''/'') \<le> MAX_STORAGE_PATH_TOTAL_LENGTH" and segs: "validate_segments (split_on (CHR ''/'') (t @ CHR ''/'' # r)) = Ok ()"
    using c Cons x by (auto simp: validate_canonical_def and_then_ok_iff split: if_splits)
  have "validate_segments (split_on (CHR ''/'') (t @ ''/'')) = Ok ()"
    using segs unfolding validate_segments_ok split_on_append_sep
    by (auto simp: butlast_append)
  moreover have "chars (q @ ''/'') = chars q @ [47]"
    using chars_append [OF valid_utf8_before_ascii [OF assms(2)], of "''/''"] chars_ascii [of "''/''"]
    by (simp add: is_ascii_def)
  then have "validate_trailing_whitespace (q @ ''/'') = Ok ()"
    by (simp add: validate_trailing_whitespace_def is_whitespace_def)
  ultimately show ?thesis
    using len Cons x by (simp add: canonical_def validate_canonical_def and_then_ok_iff)
qed

section \<open>The listings are feeds\<close>

abbreviation listed_path :: "public_key \<Rightarrow> string \<Rightarrow> entry_path" where
  "listed_path pk p \<equiv> entry_path_new pk (StoragePath p)"

definition ok_list :: "('e, 'a list) result \<Rightarrow> 'a list" where
  "ok_list r = (case r of Inr xs \<Rightarrow> xs | Inl _ \<Rightarrow> [])"

definition listable_paths :: "string list \<Rightarrow> bool" where
  "listable_paths ps \<longleftrightarrow> distinct ps \<and> (\<forall>p \<in> set ps. canonical (StoragePath p))"

lemma set_ordered_paths [simp]: "set (ordered_paths rv ps) = set ps"
  by (simp add: ordered_paths_def)

lemma sorted_ordered_paths:
  assumes "distinct ps"
  shows "sorted_wrt (path_after rv) (ordered_paths rv ps)"
proof -
  have "sorted_wrt (<) (sort ps)" using assms by (simp add: strict_sorted_iff)
  then show ?thesis
    by (cases rv) (simp_all add: ordered_paths_def path_after_def [abs_def] sorted_wrt_rev)
qed

lemma try_map_decode:
  assumes "\<forall>p \<in> set ps. canonical (StoragePath p)"
  shows "try_map (\<lambda>p. map_ok (entry_path_new pk) (map_err (\<lambda>_. DecodeError) (storage_path_new p))) ps =
    Ok (map (listed_path pk) ps)"
  using assms unfolding try_map_ok_iff
  by (auto simp: list_all2_map2 list.rel_refl_strong)

lemma list_page_ok:
  assumes "listable_paths ps"
  shows "list_page pk limit cursor rv ps = Ok (map (listed_path pk) (take (effective_list_limit limit)
    (case cursor of None \<Rightarrow> ordered_paths rv ps
     | Some c \<Rightarrow> filter (path_after rv (as_str (ep_path c))) (ordered_paths rv ps))))"
  unfolding list_page_def Let_def
  by (rule try_map_decode) (use assms in \<open>auto simp: listable_paths_def split: option.splits dest!: in_set_takeD\<close>)

interpretation listing_feed: keyset_feed
  "\<lambda>(pk, limit, rv, ps). map (listed_path pk) (ordered_paths rv ps)"
  "\<lambda>(pk, limit, rv, ps) x y. path_after rv (as_str (ep_path x)) (as_str (ep_path y))"
  "\<lambda>(pk, limit, rv, ps). effective_list_limit limit"
  "\<lambda>(pk, limit, rv, ps) c. ok_list (list_page pk limit c rv ps)"
  "\<lambda>(pk, limit, rv, ps). listable_paths ps \<and> limit \<noteq> Some 0"
proof (unfold_locales, goal_cases)
  case (1 s)
  then show ?case
    by (auto simp: sorted_wrt_map listable_paths_def sorted_ordered_paths split: prod.splits)
next
  case (6 s r)
  then show ?case
    by (auto simp: list_page_ok ok_list_def take_map filter_map comp_def split: prod.splits)
qed (auto simp: path_after_def effective_list_limit_pos list_page_ok ok_list_def take_map split: prod.splits if_splits)

lemma set_paths_below:
  "p \<in> set (paths_below path users t) \<longleftrightarrow> (\<exists>r \<in> set (et_rows t). en_path r = p \<and>
     prefix (folder_of (ep_path path)) p \<and> owner_key users (en_user r) = Some (ep_pubkey path))"
  by (auto simp: paths_below_def)

lemma paths_below_image:
  "set (paths_below path users t) = en_path ` {r \<in> set (et_rows t). owner_key users (en_user r) = Some (ep_pubkey path) \<and>
     prefix (folder_of (ep_path path)) (en_path r)}"
  by (auto simp: paths_below_def)

lemma length_paths_below: "length (paths_below path users t) \<le> length (et_rows t)"
  by (simp add: paths_below_def)

lemma listable_paths_below:
  assumes "user_invar users" and "entry_invar users t"
  shows "listable_paths (paths_below path users t)"
proof -
  let ?sel = "filter (\<lambda>r. like_match (like_starts_with (folder_of (ep_path path))) (en_path r) \<and>
       owner_key users (en_user r) = Some (ep_pubkey path)) (et_rows t)"
  have "en_user r = en_user r'" if "r \<in> set ?sel" "r' \<in> set ?sel" for r r'
    using that assms(1) by (auto simp: owner_key_iff)
  moreover have "inj_on en_key (set ?sel)" "distinct ?sel"
    using assms(2) by (auto simp: entry_invar_def keyed_def distinct_map inj_on_def)
  ultimately have "distinct (map en_path ?sel)" by (auto simp: distinct_map inj_on_def)
  then show ?thesis
    using assms(2) unfolding listable_paths_def paths_below_def by (auto simp: entry_invar_def entry_row_wf_def)
qed

text \<open>A child of a folder: the next segment of a path below it, with the slash of a folder.\<close>

definition child_of :: "string \<Rightarrow> string \<Rightarrow> string" where
  "child_of dir p = (let rest = drop (length dir) p in
     dir @ takeWhile (\<lambda>c. c \<noteq> CHR ''/'') rest @ (if CHR ''/'' \<in> set rest then ''/'' else []))"

text \<open>The characters a PostgreSQL regular expression reads literally, and the dot: a
  pattern of them that starts a string literally matches exactly that start.\<close>

definition regex_literal :: "string \<Rightarrow> bool" where
  "regex_literal s \<longleftrightarrow> list_all (\<lambda>c. c \<notin> set ''*+?()[]{}|^$'' \<and> c \<noteq> backslash) s"

text \<open>What the shallow listing relies on: for a literal folder the pattern captures
  the next segment and its slash, and the replacement keeps them.\<close>

definition captures_child :: "regexp_function \<Rightarrow> bool" where
  "captures_child regexp_replace \<longleftrightarrow> (\<forall>dir p. regex_literal dir \<longrightarrow> prefix dir p \<longrightarrow>
     regexp_replace p (shallow_pattern dir) (shallow_replacement dir) = child_of dir p)"

lemma split_at_slash:
  assumes "CHR ''/'' \<in> set rest"
  shows "\<exists>tail. rest = takeWhile (\<lambda>c. c \<noteq> CHR ''/'') rest @ CHR ''/'' # tail"
  using assms by (induction rest) auto

lemma canonical_child_of:
  assumes "canonical (StoragePath p)" and "valid_utf8 p" and "prefix dir p"
  shows "canonical (StoragePath (child_of dir p))"
proof -
  obtain rest where p: "p = dir @ rest" using assms(3) by (auto simp: prefix_def)
  show ?thesis
  proof (cases "CHR ''/'' \<in> set rest")
    case True
    then obtain tail where "rest = takeWhile (\<lambda>c. c \<noteq> CHR ''/'') rest @ CHR ''/'' # tail" using split_at_slash by blast
    then have q: "p = (dir @ takeWhile (\<lambda>c. c \<noteq> CHR ''/'') rest) @ CHR ''/'' # tail" using p by simp
    have "canonical (StoragePath ((dir @ takeWhile (\<lambda>c. c \<noteq> CHR ''/'') rest) @ ''/''))"
      by (rule canonical_folder) (use assms(1,2) q in simp_all)
    then show ?thesis using True p by (simp add: child_of_def Let_def)
  next
    case False
    then have "child_of dir p = dir @ takeWhile (\<lambda>c. c \<noteq> CHR ''/'') rest" using p by (simp add: child_of_def Let_def)
    also have "takeWhile (\<lambda>c. c \<noteq> CHR ''/'') rest = rest" using False by auto
    finally show ?thesis using assms(1) p by simp
  qed
qed

lemma list_shallow_page:
  assumes "captures_child regexp_replace" and "regex_literal (folder_of (ep_path path))"
  shows "list_shallow regexp_replace path limit cursor rv users t =
    list_page (ep_pubkey path) limit cursor rv (remdups (map (child_of (folder_of (ep_path path))) (paths_below path users t)))"
proof -
  have "map (\<lambda>p. regexp_replace p (shallow_pattern (folder_of (ep_path path))) (shallow_replacement (folder_of (ep_path path))))
      (paths_below path users t) = map (child_of (folder_of (ep_path path))) (paths_below path users t)"
    using assms by (intro map_cong) (auto simp: captures_child_def set_paths_below)
  then show ?thesis by (simp only: list_shallow_def Let_def)
qed

lemma listable_children:
  assumes "user_invar users" and "entry_invar users t"
  shows "listable_paths (remdups (map (child_of (folder_of (ep_path path))) (paths_below path users t)))"
  using assms(2) unfolding listable_paths_def
  by (auto simp: set_paths_below entry_invar_def entry_row_wf_def intro!: canonical_child_of)

section \<open>Properties\<close>

text \<open>C36: A client that lists a folder page by page, each request continuing after the
  last path it got until a page is empty, receives every file of the user below
  the folder exactly once, in byte order (or its reverse), whatever the limit, and
  no request fails; it never receives a file of another user.\<close>

theorem deep_listing_complete:
  assumes "user_invar users" and "entry_invar users t" and "limit \<noteq> Some 0" and "length (et_rows t) < n"
  shows "(\<exists>ps. drain n (\<lambda>c. ok_list (list_deep path limit c rv users t)) None = Some (map (listed_path (ep_pubkey path)) ps) \<and>
      sorted_wrt (path_after rv) ps \<and> distinct ps \<and>
      set ps = {en_path r | r. r \<in> set (et_rows t) \<and> owner_key users (en_user r) = Some (ep_pubkey path) \<and>
        prefix (folder_of (ep_path path)) (en_path r)}) \<and>
    (\<forall>cursor. is_ok (list_deep path limit cursor rv users t))"
proof -
  let ?below = "paths_below path users t"
  note l = listable_paths_below [OF assms(1,2), of path]
  have "length ?below < n" using assms(4) length_paths_below [of path users t] by simp
  then have "drain n (\<lambda>c. ok_list (list_deep path limit c rv users t)) None =
      Some (map (listed_path (ep_pubkey path)) (ordered_paths rv ?below))"
    using listing_feed.drain_all [of "(ep_pubkey path, limit, rv, ?below)" n] l assms(3)
    by (simp add: list_deep_def ordered_paths_def)
  moreover have "distinct (ordered_paths rv ?below)" using l by (simp add: listable_paths_def ordered_paths_def)
  moreover have "set (ordered_paths rv ?below) = {en_path r | r. r \<in> set (et_rows t) \<and>
      owner_key users (en_user r) = Some (ep_pubkey path) \<and> prefix (folder_of (ep_path path)) (en_path r)}"
    by (auto simp: paths_below_image)
  moreover have "sorted_wrt (path_after rv) (ordered_paths rv ?below)"
    using l by (simp add: sorted_ordered_paths listable_paths_def)
  moreover have "is_ok (list_deep path limit cursor rv users t)" for cursor by (simp add: list_deep_def list_page_ok [OF l])
  ultimately show ?thesis by blast
qed

definition example_users :: user_table where
  "example_users = \<lparr>ut_rows = [\<lparr>ue_id = 1, ue_public_key = PublicKey ''a'', ue_created_at = 0, ue_disabled = False,
     ue_used_bytes = 0, ue_quota_columns = NULL_COLUMNS\<rparr>], ut_seq = 2\<rparr>"

definition example_entry :: "int \<Rightarrow> string \<Rightarrow> entry_row" where
  "example_entry i p = \<lparr>en_id = i, en_user = 1, en_path = p, en_hash = replicate 32 (CHR ''h''), en_length = 3,
     en_type = [], en_modified_at = 0, en_created_at = 0\<rparr>"

definition example_entries :: entry_table where
  "example_entries = \<lparr>et_rows = [example_entry 1 ''/pub/z'', example_entry 2 ''/pub/d/x'', example_entry 3 ''/pub/d/y'',
     example_entry 4 ''/priv/q''], et_seq = 5\<rparr>"

lemma example_users_invar: "user_invar example_users"
  by (simp add: user_invar_def example_users_def keyed_def)

lemma example_canonical:
  "canonical (StoragePath ''/pub/z'')" "canonical (StoragePath ''/pub/d/x'')" "canonical (StoragePath ''/pub/d/y'')"
  "canonical (StoragePath ''/priv/q'')"
  by code_simp+

lemma example_utf8: "valid_utf8 ''/pub/z''" "valid_utf8 ''/pub/d/x''" "valid_utf8 ''/pub/d/y''" "valid_utf8 ''/priv/q''"
  by code_simp+

lemma example_entries_invar: "entry_invar example_users example_entries"
  using example_canonical example_utf8
  by (auto simp: entry_invar_def example_entries_def example_entry_def keyed_def entry_row_wf_def owner_key_def
      example_users_def row_of_Cons)

theorem deep_listing_complete_witness:
  "drain 5 (\<lambda>c. ok_list (list_deep (entry_path_new (PublicKey ''a'') (StoragePath ''/pub/'')) (Some 2) c False
     example_users example_entries)) None =
   Some (map (listed_path (PublicKey ''a'')) [''/pub/d/x'', ''/pub/d/y'', ''/pub/z''])"
proof -
  let ?path = "entry_path_new (PublicKey ''a'') (StoragePath ''/pub/'')"
  have "length (et_rows example_entries) < 5" by (simp add: example_entries_def)
  from deep_listing_complete [OF example_users_invar example_entries_invar _ this, of "Some 2" ?path False]
  obtain ps where ps: "drain 5 (\<lambda>c. ok_list (list_deep ?path (Some 2) c False example_users example_entries)) None =
      Some (map (listed_path (PublicKey ''a'')) ps)" "sorted_wrt (path_after False) ps"
    "set ps = {en_path r | r. r \<in> set (et_rows example_entries) \<and> owner_key example_users (en_user r) = Some (PublicKey ''a'') \<and>
        prefix (folder_of (StoragePath ''/pub/'')) (en_path r)}"
    by auto
  have "set ps = set [''/pub/d/x'', ''/pub/d/y'', ''/pub/z'']"
  proof -
    have "set ps = set (paths_below ?path example_users example_entries)" unfolding ps(3) by (auto simp: paths_below_image)
    also have "paths_below ?path example_users example_entries = [''/pub/z'', ''/pub/d/x'', ''/pub/d/y'']" by code_simp
    finally show ?thesis by auto
  qed
  moreover have "sorted_wrt (<) ps" using ps(2) by (simp add: path_after_def [abs_def])
  moreover have "sorted_wrt (<) [''/pub/d/x'', ''/pub/d/y'', ''/pub/z'']" by code_simp
  ultimately have "ps = [''/pub/d/x'', ''/pub/d/y'', ''/pub/z'']"
    by (metis strict_sorted_equal)
  with ps(1) show ?thesis by simp
qed

text \<open>The shallow listing of a folder whose path has no regular expression
  operators, read page by page, gives the children of the folder: each file
  directly in it and each folder in it that holds a file, with its slash, exactly
  once and in order.\<close>

theorem shallow_listing_complete:
  assumes "user_invar users" and "entry_invar users t" and "limit \<noteq> Some 0" and "length (et_rows t) < n"
    and "captures_child regexp_replace" and "regex_literal (folder_of (ep_path path))"
  shows "\<exists>ps. drain n (\<lambda>c. ok_list (list_shallow regexp_replace path limit c rv users t)) None =
      Some (map (listed_path (ep_pubkey path)) ps) \<and>
    sorted_wrt (path_after rv) ps \<and> distinct ps \<and>
    set ps = {child_of (folder_of (ep_path path)) (en_path r) | r. r \<in> set (et_rows t) \<and>
      owner_key users (en_user r) = Some (ep_pubkey path) \<and> prefix (folder_of (ep_path path)) (en_path r)}"
proof -
  let ?children = "remdups (map (child_of (folder_of (ep_path path))) (paths_below path users t))"
  note l = listable_children [OF assms(1,2), of path]
  have "length ?children \<le> length (et_rows t)"
    using length_remdups_leq [of "map (child_of (folder_of (ep_path path))) (paths_below path users t)"]
      length_paths_below [of path users t] by simp
  then have "length ?children < n" using assms(4) by simp
  then have "drain n (\<lambda>c. ok_list (list_shallow regexp_replace path limit c rv users t)) None =
      Some (map (listed_path (ep_pubkey path)) (ordered_paths rv ?children))"
    using listing_feed.drain_all [of "(ep_pubkey path, limit, rv, ?children)" n] l assms(3)
    by (simp add: list_shallow_page [OF assms(5,6)] ordered_paths_def)
  moreover have "distinct (ordered_paths rv ?children)" by (simp add: ordered_paths_def)
  moreover have "set (ordered_paths rv ?children) = {child_of (folder_of (ep_path path)) (en_path r) | r. r \<in> set (et_rows t) \<and>
      owner_key users (en_user r) = Some (ep_pubkey path) \<and> prefix (folder_of (ep_path path)) (en_path r)}"
    by (auto simp: paths_below_image)
  moreover have "sorted_wrt (path_after rv) (ordered_paths rv ?children)" by (simp add: sorted_ordered_paths)
  ultimately show ?thesis by blast
qed

definition example_regexp :: regexp_function where
  "example_regexp p pattern replacement = child_of (take (length replacement - 4) replacement) p"

theorem shallow_listing_complete_witness:
  "captures_child example_regexp \<and>
   drain 5 (\<lambda>c. ok_list (list_shallow example_regexp (entry_path_new (PublicKey ''a'') (StoragePath ''/pub/'')) (Some 1) c True
     example_users example_entries)) None =
   Some (map (listed_path (PublicKey ''a'')) [''/pub/z'', ''/pub/d/''])"
proof -
  let ?path = "entry_path_new (PublicKey ''a'') (StoragePath ''/pub/'')"
  have len: "length (et_rows example_entries) < 5" by (simp add: example_entries_def)
  have cap: "captures_child example_regexp"
    by (simp add: captures_child_def example_regexp_def shallow_replacement_def)
  have lit: "regex_literal (folder_of (ep_path ?path))" by code_simp
  from shallow_listing_complete [OF example_users_invar example_entries_invar _ len cap lit, of "Some 1" True]
  obtain ps where ps: "drain 5 (\<lambda>c. ok_list (list_shallow example_regexp ?path (Some 1) c True example_users example_entries)) None =
      Some (map (listed_path (PublicKey ''a'')) ps)" "sorted_wrt (path_after True) ps"
    "set ps = {child_of (folder_of (StoragePath ''/pub/'')) (en_path r) | r. r \<in> set (et_rows example_entries) \<and>
        owner_key example_users (en_user r) = Some (PublicKey ''a'') \<and> prefix (folder_of (StoragePath ''/pub/'')) (en_path r)}"
    by auto
  have "set ps = set [''/pub/d/'', ''/pub/z'']"
  proof -
    have "set ps = set (map (child_of (folder_of (StoragePath ''/pub/''))) (paths_below ?path example_users example_entries))"
      unfolding ps(3) by (auto simp: paths_below_image)
    also have "map (child_of (folder_of (StoragePath ''/pub/''))) (paths_below ?path example_users example_entries) =
      [''/pub/z'', ''/pub/d/'', ''/pub/d/'']" by code_simp
    finally show ?thesis by auto
  qed
  moreover have "sorted_wrt (<) (rev ps)" using ps(2) by (simp add: path_after_def [abs_def] sorted_wrt_rev)
  moreover have "sorted_wrt (<) [''/pub/d/'', ''/pub/z'']" by code_simp
  ultimately have "rev ps = [''/pub/d/'', ''/pub/z'']" by (metis strict_sorted_equal set_rev)
  then have "ps = [''/pub/z'', ''/pub/d/'']" by (simp add: rev_swap)
  with ps(1) cap show ?thesis by simp
qed

end
