(* ===== verification/Events.thy ===== *)
theory Events
  imports Entries
begin

text \<open>
  Events: their types and cursors (\<^verbatim>\<open>pubky-common/src/events.rs\<close>), the \<^verbatim>\<open>events\<close> table
  (\<^verbatim>\<open>persistence/sql/entities/events\<close>) and the queries of the event streams
  (\<^verbatim>\<open>services/events_service/query.rs\<close>).  Inserts of events are serialised
  by an advisory lock, so the ids of committed events increase: a commit appends to
  the table.  Decoding of query strings, base64 and the parser of keys are
  parameters.
\<close>

section \<open>Model: events and cursors\<close>

datatype event_type = PutEvent string | DeleteEvent

fun event_type_as_str :: "event_type \<Rightarrow> string" where
  "event_type_as_str (PutEvent _) = ''PUT''"
| "event_type_as_str DeleteEvent = ''DEL''"

fun event_content_hash :: "event_type \<Rightarrow> string option" where
  "event_content_hash (PutEvent h) = Some h"
| "event_content_hash DeleteEvent = None"

definition cursor_from_str :: "string \<Rightarrow> nat option" where
  "cursor_from_str s = parse_uint 64 s"

definition cursor_to_string :: "nat \<Rightarrow> string" where
  "cursor_to_string c = show_nat c"

section \<open>Model: path filters\<close>

definition filter_matches :: "storage_path \<Rightarrow> string \<Rightarrow> bool" where
  "filter_matches f path = (if is_directory f then prefix (as_str f) path else path = as_str f)"

definition filter_condition :: "storage_path \<Rightarrow> string \<Rightarrow> bool" where
  "filter_condition f column =
     (if is_directory f then like_match (like_starts_with (as_str f)) column else column = as_str f)"

section \<open>Model: the events table\<close>

record event_row =
  ev_id :: nat
  ev_user :: int
  ev_type :: string
  ev_path :: string
  ev_created_at :: int
  ev_hash :: "string option"

record event_table =
  vt_rows :: "event_row list"
  vt_seq :: nat

record event_entity =
  vn_id :: nat
  vn_user_id :: int
  vn_user_pubkey :: public_key
  vn_type :: event_type
  vn_path :: entry_path
  vn_created_at :: int

definition event_from_row :: "user_table \<Rightarrow> event_row \<Rightarrow> (sql_error, event_entity) result" where
  "event_from_row users r =
     and_then (ok_or DecodeError (owner_key users (ev_user r))) (\<lambda>pk.
     and_then (map_err (\<lambda>_. DecodeError) (storage_path_new (ev_path r))) (\<lambda>path.
     let content_hash = Option.bind (ev_hash r) (\<lambda>h. if length h = 32 then Some h else None) in
     and_then (if ev_type r = ''PUT''
               then Ok (PutEvent (case content_hash of Some h \<Rightarrow> h | None \<Rightarrow> replicate 32 (CHR 0x00)))
               else if ev_type r = ''DEL'' then Ok DeleteEvent else Err DecodeError) (\<lambda>ty.
       Ok \<lparr>vn_id = ev_id r, vn_user_id = ev_user r, vn_user_pubkey = pk, vn_type = ty,
           vn_path = entry_path_new pk path, vn_created_at = ev_created_at r\<rparr>)))"

definition pubky_uri :: "event_entity \<Rightarrow> string" where
  "pubky_uri e = ''pubky://'' @ z32 (vn_user_pubkey e) @ as_str (ep_path (vn_path e))"

definition to_sse_data :: "(string \<Rightarrow> string) \<Rightarrow> event_entity \<Rightarrow> string" where
  "to_sse_data base64 e =
     join [CHR 0x0A] ([pubky_uri e, ''cursor: '' @ cursor_to_string (vn_id e)] @
       (case event_content_hash (vn_type e) of Some h \<Rightarrow> [''content_hash: '' @ base64 h] | None \<Rightarrow> []))"

datatype event_visibility = PublicEvents | AllEvents

definition get_max_id :: "event_table \<Rightarrow> nat" where
  "get_max_id t = fold max (map ev_id (vt_rows t)) 0"

definition event_create ::
  "int \<Rightarrow> int \<Rightarrow> event_type \<Rightarrow> entry_path \<Rightarrow> event_table \<Rightarrow> event_entity \<times> event_table" where
  "event_create now user_id ty path t =
     (\<lparr>vn_id = vt_seq t, vn_user_id = user_id, vn_user_pubkey = ep_pubkey path, vn_type = ty, vn_path = path,
       vn_created_at = now\<rparr>,
      \<lparr>vt_rows = vt_rows t @ [\<lparr>ev_id = vt_seq t, ev_user = user_id, ev_type = event_type_as_str ty,
         ev_path = as_str (ep_path path), ev_created_at = now, ev_hash = event_content_hash ty\<rparr>],
       vt_seq = vt_seq t + 1\<rparr>)"

definition any_filter :: "storage_path list \<Rightarrow> event_row \<Rightarrow> bool" where
  "any_filter filters r \<longleftrightarrow> filters = [] \<or> list_ex (\<lambda>f. filter_condition f (ev_path r)) filters"

definition beyond_cursor :: "bool \<Rightarrow> nat option \<Rightarrow> event_row \<Rightarrow> bool" where
  "beyond_cursor rv cursor r = (case cursor of None \<Rightarrow> True | Some c \<Rightarrow> if rv then ev_id r < c else ev_id r > c)"

definition by_id :: "bool \<Rightarrow> event_row list \<Rightarrow> event_row list" where
  "by_id rv rs = (if rv then rev (sort_key ev_id rs) else sort_key ev_id rs)"

definition get_by_user_cursors ::
  "(int \<times> nat option) list \<Rightarrow> nat option \<Rightarrow> bool \<Rightarrow> storage_path list \<Rightarrow> user_table \<Rightarrow> event_table \<Rightarrow>
   (sql_error, event_entity list) result" where
  "get_by_user_cursors user_cursors limit rv allowed_paths users t =
     (if user_cursors = [] then Ok []
      else try_map (event_from_row users) (take (effective_list_limit limit) (by_id rv
        (concat (map (\<lambda>(user_id, cursor).
          filter (\<lambda>r. ev_user r = user_id \<and> any_filter allowed_paths r \<and> beyond_cursor rv cursor r) (vt_rows t))
          user_cursors)))))"

definition get_by_cursor ::
  "nat option \<Rightarrow> nat option \<Rightarrow> event_visibility \<Rightarrow> user_table \<Rightarrow> event_table \<Rightarrow> (sql_error, event_entity list) result" where
  "get_by_cursor cursor limit visibility users t =
     (let c = (case cursor of Some c \<Rightarrow> c | None \<Rightarrow> 0)
      in try_map (event_from_row users) (take (effective_list_limit limit) (by_id False
           (filter (\<lambda>r. ev_id r > c \<and> (visibility = PublicEvents \<longrightarrow> like_match (like_starts_with PUBLIC_ROOT) (ev_path r)))
             (vt_rows t)))))"

definition get_all_filtered_by_cursor ::
  "nat option \<Rightarrow> nat option \<Rightarrow> bool \<Rightarrow> storage_path list \<Rightarrow> int list option \<Rightarrow> user_table \<Rightarrow> event_table \<Rightarrow>
   (sql_error, event_entity list) result" where
  "get_all_filtered_by_cursor cursor limit rv path_filters user_ids users t =
     (if user_ids = Some [] then Ok []
      else try_map (event_from_row users) (take (effective_list_limit limit) (by_id rv
        (filter (\<lambda>r. beyond_cursor rv cursor r \<and> any_filter path_filters r \<and>
           (case user_ids of None \<Rightarrow> True | Some ids \<Rightarrow> ev_user r \<in> set ids)) (vt_rows t)))))"

section \<open>Model: stream queries\<close>

definition MAX_EVENT_STREAM_USERS :: nat where "MAX_EVENT_STREAM_USERS = 50"

datatype stream_mode = Forward | ForwardLive | Reverse

fun mode_reverse :: "stream_mode \<Rightarrow> bool" where
  "mode_reverse Reverse = True"
| "mode_reverse _ = False"

fun mode_live :: "stream_mode \<Rightarrow> bool" where
  "mode_live ForwardLive = True"
| "mode_live _ = False"

datatype event_stream_error =
    StreamUserNotFound
  | StreamDatabaseError sql_error
  | InvalidPublicKey string
  | InvalidCursor string
  | InvalidLimit string
  | ZeroLimit
  | LiveWithReverse
  | TooManyUsers
  | UserRequired
  | InvalidPath string

fun stream_sql_error :: "sql_error \<Rightarrow> event_stream_error" where
  "stream_sql_error RowNotFound = StreamUserNotFound"
| "stream_sql_error e = StreamDatabaseError e"

record shared_params =
  sq_limit :: "nat option"
  sq_live :: bool
  sq_reverse :: bool
  sq_paths :: "storage_path list"

definition shared_default :: shared_params where
  "shared_default = \<lparr>sq_limit = None, sq_live = False, sq_reverse = False, sq_paths = []\<rparr>"

definition is_true :: "string \<Rightarrow> bool" where
  "is_true v \<longleftrightarrow> v = ''true'' \<or> v = ''1''"

definition stream_parse_path :: "string \<Rightarrow> (event_stream_error, storage_path) result" where
  "stream_parse_path v =
     (let normalized = (if prefix ''/'' v then v else ''/'' @ v)
      in map_err (\<lambda>_. InvalidPath normalized) (storage_path_normalize normalized))"

definition stream_parse_cursor :: "string \<Rightarrow> (event_stream_error, nat) result" where
  "stream_parse_cursor v = ok_or (InvalidCursor v) (cursor_from_str v)"

definition stream_parse_public_key :: "key_parser \<Rightarrow> string \<Rightarrow> (event_stream_error, public_key) result" where
  "stream_parse_public_key try_from_z32 v =
     (if is_pubky_prefixed v then Err (InvalidPublicKey v) else ok_or (InvalidPublicKey v) (try_from_z32 v))"

definition shared_parse :: "string \<Rightarrow> string \<Rightarrow> shared_params \<Rightarrow> (event_stream_error, shared_params) result" where
  "shared_parse key v sh =
     (if key = ''limit'' then
        (case parse_uint 16 v of
           None \<Rightarrow> Err (InvalidLimit v)
         | Some parsed \<Rightarrow> if parsed = 0 then Err ZeroLimit else Ok (sh\<lparr>sq_limit := Some parsed\<rparr>))
      else if key = ''live'' then Ok (sh\<lparr>sq_live := is_true v\<rparr>)
      else if key = ''reverse'' then Ok (sh\<lparr>sq_reverse := is_true v\<rparr>)
      else if key = ''path'' \<and> v \<noteq> [] then map_ok (\<lambda>p. sh\<lparr>sq_paths := sq_paths sh @ [p]\<rparr>) (stream_parse_path v)
      else Ok sh)"

definition shared_mode :: "shared_params \<Rightarrow> (event_stream_error, stream_mode) result" where
  "shared_mode sh =
     (case (sq_live sh, sq_reverse sh) of
        (False, False) \<Rightarrow> Ok Forward
      | (True, False) \<Rightarrow> Ok ForwardLive
      | (False, True) \<Rightarrow> Ok Reverse
      | (True, True) \<Rightarrow> Err LiveWithReverse)"

definition check_user_count :: "nat \<Rightarrow> (event_stream_error, unit) result" where
  "check_user_count count = ensure (\<not> count > MAX_EVENT_STREAM_USERS) TooManyUsers"

record client_stream_query =
  cq_user_cursors :: "(public_key \<times> nat option) list"
  cq_limit :: "nat option"
  cq_mode :: stream_mode
  cq_paths :: "storage_path list"

text \<open>A repeated user keeps its place and takes the last cursor.\<close>

definition push_user_cursor ::
  "public_key \<Rightarrow> nat option \<Rightarrow> (public_key \<times> nat option) list \<Rightarrow> (public_key \<times> nat option) list" where
  "push_user_cursor pk cursor ucs =
     (if pk \<in> fst ` set ucs then map (\<lambda>(k, c). if k = pk then (k, cursor) else (k, c)) ucs else ucs @ [(pk, cursor)])"

definition client_parse_user :: "key_parser \<Rightarrow> string \<Rightarrow> (event_stream_error, public_key \<times> nat option) result" where
  "client_parse_user try_from_z32 v =
     (let (pubkey, cursor) = (case split_once (CHR '':'') v of
            Some (pubkey, cursor) \<Rightarrow> (pubkey, if cursor \<noteq> [] then Some cursor else None)
          | None \<Rightarrow> (v, None))
      in and_then (stream_parse_public_key try_from_z32 pubkey) (\<lambda>pk.
         map_ok (\<lambda>c. (pk, c)) (case cursor of None \<Rightarrow> Ok None | Some c \<Rightarrow> map_ok Some (stream_parse_cursor c))))"

fun client_parse_pairs ::
  "key_parser \<Rightarrow> (string \<times> string) list \<Rightarrow> (public_key \<times> nat option) list \<times> shared_params \<Rightarrow>
   (event_stream_error, (public_key \<times> nat option) list \<times> shared_params) result" where
  "client_parse_pairs try_from_z32 [] acc = Ok acc"
| "client_parse_pairs try_from_z32 ((key, v) # rest) (ucs, sh) =
     (if key = ''user'' \<and> v \<noteq> []
      then and_then (client_parse_user try_from_z32 v) (\<lambda>(pk, cursor).
             client_parse_pairs try_from_z32 rest (push_user_cursor pk cursor ucs, sh))
      else and_then (shared_parse key v sh) (\<lambda>sh. client_parse_pairs try_from_z32 rest (ucs, sh)))"

text \<open>The decoded pairs of the query string are the input.\<close>

definition client_stream_query_parse ::
  "key_parser \<Rightarrow> (string \<times> string) list \<Rightarrow> (event_stream_error, client_stream_query) result" where
  "client_stream_query_parse try_from_z32 pairs =
     and_then (client_parse_pairs try_from_z32 pairs ([], shared_default)) (\<lambda>(ucs, sh).
     and_then (shared_mode sh) (\<lambda>mode.
     and_then (ensure (ucs \<noteq> []) UserRequired) (\<lambda>_.
     and_then (check_user_count (length ucs)) (\<lambda>_.
       Ok \<lparr>cq_user_cursors = ucs, cq_limit = sq_limit sh, cq_mode = mode, cq_paths = sq_paths sh\<rparr>))))"

record admin_stream_query =
  aq_users :: "public_key list"
  aq_cursor :: "nat option"
  aq_limit :: "nat option"
  aq_mode :: stream_mode
  aq_paths :: "storage_path list"

fun admin_parse_pairs ::
  "key_parser \<Rightarrow> (string \<times> string) list \<Rightarrow> public_key list \<times> nat option \<times> shared_params \<Rightarrow>
   (event_stream_error, public_key list \<times> nat option \<times> shared_params) result" where
  "admin_parse_pairs try_from_z32 [] acc = Ok acc"
| "admin_parse_pairs try_from_z32 ((key, v) # rest) (us, cursor, sh) =
     (if key = ''user'' \<and> v \<noteq> []
      then and_then (stream_parse_public_key try_from_z32 v) (\<lambda>pk.
             admin_parse_pairs try_from_z32 rest (if pk \<in> set us then us else us @ [pk], cursor, sh))
      else if key = ''cursor'' \<and> v \<noteq> []
      then and_then (stream_parse_cursor v) (\<lambda>c. admin_parse_pairs try_from_z32 rest (us, Some c, sh))
      else and_then (shared_parse key v sh) (\<lambda>sh. admin_parse_pairs try_from_z32 rest (us, cursor, sh)))"

definition admin_stream_query_parse ::
  "key_parser \<Rightarrow> (string \<times> string) list \<Rightarrow> (event_stream_error, admin_stream_query) result" where
  "admin_stream_query_parse try_from_z32 pairs =
     and_then (admin_parse_pairs try_from_z32 pairs ([], None, shared_default)) (\<lambda>(us, cursor, sh).
     and_then (shared_mode sh) (\<lambda>mode.
     and_then (check_user_count (length us)) (\<lambda>_.
       Ok \<lparr>aq_users = us, aq_cursor = cursor, aq_limit = sq_limit sh, aq_mode = mode, aq_paths = sq_paths sh\<rparr>)))"

section \<open>The table invariant\<close>

lemma filter_condition_matches [simp]: "filter_condition f p = filter_matches f p"
  by (simp add: filter_condition_def filter_matches_def)

definition event_row_wf :: "user_table \<Rightarrow> event_row \<Rightarrow> bool" where
  "event_row_wf users r \<longleftrightarrow> owner_key users (ev_user r) \<noteq> None \<and> canonical (StoragePath (ev_path r)) \<and>
     (ev_type r = ''DEL'' \<or> ev_type r = ''PUT'' \<and> (\<exists>h. ev_hash r = Some h \<and> length h = 32))"

text \<open>Ids are given out in the order of the commits, from one.\<close>

definition event_invar :: "user_table \<Rightarrow> event_table \<Rightarrow> bool" where
  "event_invar users t \<longleftrightarrow> sorted_wrt (\<lambda>r r'. ev_id r < ev_id r') (vt_rows t) \<and>
     (\<forall>r \<in> set (vt_rows t). 0 < ev_id r \<and> ev_id r < vt_seq t \<and> event_row_wf users r) \<and> 0 < vt_seq t"

definition event_of :: "user_table \<Rightarrow> event_row \<Rightarrow> event_entity" where
  "event_of users r =
     (let pk = (case owner_key users (ev_user r) of Some pk \<Rightarrow> pk | None \<Rightarrow> PublicKey [])
      in \<lparr>vn_id = ev_id r, vn_user_id = ev_user r, vn_user_pubkey = pk,
          vn_type = (if ev_type r = ''PUT'' then PutEvent (the (ev_hash r)) else DeleteEvent),
          vn_path = entry_path_new pk (StoragePath (ev_path r)), vn_created_at = ev_created_at r\<rparr>)"

lemma event_of_sel [simp]:
  "vn_id (event_of users r) = ev_id r" "vn_user_id (event_of users r) = ev_user r"
  "as_str (ep_path (vn_path (event_of users r))) = ev_path r"
  by (simp_all add: event_of_def Let_def)

lemma event_from_row_wf: "event_row_wf users r \<Longrightarrow> event_from_row users r = Ok (event_of users r)"
  by (auto simp: event_row_wf_def event_from_row_def event_of_def and_then_ok_iff Let_def)

lemma try_map_event_of:
  "\<forall>r \<in> set rs. event_row_wf users r \<Longrightarrow> try_map (event_from_row users) rs = Ok (map (event_of users) rs)"
  by (induction rs) (simp_all add: event_from_row_wf)

text \<open>The committed events, in the order of their ids.\<close>

definition committed :: "user_table \<Rightarrow> event_table \<Rightarrow> event_entity list" where
  "committed users t = map (event_of users) (vt_rows t)"

lemma committed_sorted: "event_invar users t \<Longrightarrow> sorted_wrt (\<lambda>e e'. vn_id e < vn_id e') (committed users t)"
  by (simp add: committed_def event_invar_def sorted_wrt_map)

lemma committed_bound: "event_invar users t \<Longrightarrow> e \<in> set (committed users t) \<Longrightarrow> 0 < vn_id e \<and> vn_id e < vt_seq t"
  by (auto simp: committed_def event_invar_def)

lemma event_create_committed:
  assumes "event_invar users t" and "owner_key users user_id = Some (ep_pubkey path)" and "canonical (ep_path path)"
    and "path = entry_path_new (ep_pubkey path) (ep_path path)" and "\<And>h. ty = PutEvent h \<Longrightarrow> length h = 32"
  shows "event_invar users (snd (event_create now user_id ty path t))"
    and "committed users (snd (event_create now user_id ty path t)) = committed users t @ [fst (event_create now user_id ty path t)]"
proof -
  have wf: "event_row_wf users \<lparr>ev_id = vt_seq t, ev_user = user_id, ev_type = event_type_as_str ty,
      ev_path = as_str (ep_path path), ev_created_at = now, ev_hash = event_content_hash ty\<rparr>"
    using assms by (cases ty) (auto simp: event_row_wf_def)
  then show "event_invar users (snd (event_create now user_id ty path t))"
    using assms(1) by (auto simp: event_invar_def event_create_def sorted_wrt_append)
  have "event_of users \<lparr>ev_id = vt_seq t, ev_user = user_id, ev_type = event_type_as_str ty,
      ev_path = as_str (ep_path path), ev_created_at = now, ev_hash = event_content_hash ty\<rparr> =
    fst (event_create now user_id ty path t)"
    using assms(2,4) by (cases ty) (auto simp: event_of_def event_create_def Let_def)
  then show "committed users (snd (event_create now user_id ty path t)) = committed users t @ [fst (event_create now user_id ty path t)]"
    by (simp add: committed_def event_create_def)
qed

section \<open>The queries select from the committed events\<close>

lemma strict_sorted_key_unique:
  fixes f :: "'a \<Rightarrow> 'k :: linorder"
  assumes "sorted_wrt (\<lambda>a b. f a < f b) xs" and "sorted_wrt (\<lambda>a b. f a < f b) ys" and "set xs = set ys"
  shows "xs = ys"
proof -
  have inj: "inj_on f (set xs)"
  proof (rule inj_onI, rule ccontr)
    fix a b assume "a \<in> set xs" "b \<in> set xs" and e: "f a = f b" "a \<noteq> b"
    then obtain i j where "i < length xs" "j < length xs" "xs ! i = a" "xs ! j = b" by (auto simp: in_set_conv_nth)
    then show False using e assms(1)
      by (metis linorder_neqE_nat order_less_irrefl sorted_wrt_iff_nth_less)
  qed
  have "map f xs = map f ys"
    using assms by (intro strict_sorted_equal) (simp_all add: sorted_wrt_map)
  then show ?thesis using inj assms(3) by (simp add: inj_on_map_eq_map)
qed

lemma sort_key_strict:
  fixes f :: "'a \<Rightarrow> 'k :: linorder"
  assumes "distinct (map f xs)"
  shows "sorted_wrt (\<lambda>a b. f a < f b) (sort_key f xs)"
proof -
  have "distinct (map f (sort_key f xs))" using assms by (metis distinct_sort distinct_map set_sort)
  then have "sorted_wrt (<) (map f (sort_key f xs))" by (simp add: strict_sorted_iff del: sorted_wrt_map)
  then show ?thesis by (simp add: sorted_wrt_map)
qed

lemma sort_key_sorted:
  assumes "sorted_wrt (\<lambda>r r'. ev_id r < ev_id r') rs"
  shows "by_id False rs = rs"
proof -
  have "sorted (map ev_id rs)" using assms by (induction rs) (auto simp: less_imp_le)
  then show ?thesis by (simp add: by_id_def sort_key_id_if_sorted)
qed

lemma invar_filter_sorted:
  "event_invar users t \<Longrightarrow> sorted_wrt (\<lambda>r r'. ev_id r < ev_id r') (filter P (vt_rows t))"
  by (simp add: event_invar_def sorted_wrt_filter)

lemma invar_rows_wf: "event_invar users t \<Longrightarrow> \<forall>r \<in> set (take n (filter P (vt_rows t))). event_row_wf users r"
  by (auto simp: event_invar_def dest!: in_set_takeD)

lemma get_by_cursor_ok:
  assumes "event_invar users t"
  shows "get_by_cursor (Some c) limit AllEvents users t =
    Ok (take (effective_list_limit limit) (filter (\<lambda>e. vn_id e > c) (committed users t)))"
proof -
  have "by_id False (filter (\<lambda>r. ev_id r > c) (vt_rows t)) = filter (\<lambda>r. ev_id r > c) (vt_rows t)"
    by (rule sort_key_sorted) (rule invar_filter_sorted [OF assms])
  then show ?thesis
    using try_map_event_of [OF invar_rows_wf [OF assms, of "effective_list_limit limit" "\<lambda>r. ev_id r > c"]]
    by (simp add: get_by_cursor_def committed_def take_map filter_map comp_def)
qed

definition any_match :: "storage_path list \<Rightarrow> event_entity \<Rightarrow> bool" where
  "any_match paths e \<longleftrightarrow> paths = [] \<or> list_ex (\<lambda>f. filter_matches f (as_str (ep_path (vn_path e)))) paths"

lemma any_filter_match [simp]: "any_match paths (event_of users r) \<longleftrightarrow> any_filter paths r"
  by (simp add: any_match_def any_filter_def)

lemma get_all_filtered_ok:
  assumes "event_invar users t"
  shows "get_all_filtered_by_cursor cursor limit False paths user_ids users t =
    Ok (take (effective_list_limit limit) (filter (\<lambda>e. (case cursor of None \<Rightarrow> True | Some c \<Rightarrow> c < vn_id e) \<and>
      any_match paths e \<and> (case user_ids of None \<Rightarrow> True | Some ids \<Rightarrow> vn_user_id e \<in> set ids)) (committed users t)))"
proof -
  let ?P = "\<lambda>r. beyond_cursor False cursor r \<and> any_filter paths r \<and>
      (case user_ids of None \<Rightarrow> True | Some ids \<Rightarrow> ev_user r \<in> set ids)"
  have "by_id False (filter ?P (vt_rows t)) = filter ?P (vt_rows t)"
    by (rule sort_key_sorted) (rule invar_filter_sorted [OF assms])
  then have "try_map (event_from_row users) (take (effective_list_limit limit) (by_id False (filter ?P (vt_rows t)))) =
      Ok (map (event_of users) (take (effective_list_limit limit) (filter ?P (vt_rows t))))"
    using try_map_event_of [OF invar_rows_wf [OF assms, of "effective_list_limit limit" ?P]] by simp
  moreover have "(\<lambda>e. (case cursor of None \<Rightarrow> True | Some c \<Rightarrow> c < vn_id e) \<and> any_match paths e \<and>
      (case user_ids of None \<Rightarrow> True | Some ids \<Rightarrow> vn_user_id e \<in> set ids)) \<circ> event_of users = ?P"
    by (auto simp: fun_eq_iff beyond_cursor_def split: option.splits)
  ultimately show ?thesis
    by (simp add: get_all_filtered_by_cursor_def committed_def take_map filter_map)
qed

lemma get_by_user_cursors_ok:
  assumes "event_invar users t" and "distinct (map fst ucs)"
  shows "get_by_user_cursors ucs limit False paths users t =
    Ok (take (effective_list_limit limit) (filter (\<lambda>e. (case map_of ucs (vn_user_id e) of None \<Rightarrow> False
      | Some None \<Rightarrow> True | Some (Some c) \<Rightarrow> c < vn_id e) \<and> any_match paths e) (committed users t)))"
proof (cases "ucs = []")
  case False
  let ?Q = "\<lambda>(user_id, cursor) r. ev_user r = user_id \<and> any_filter paths r \<and> beyond_cursor False cursor r"
  let ?P = "\<lambda>r. (case map_of ucs (ev_user r) of None \<Rightarrow> False | Some None \<Rightarrow> True
      | Some (Some c) \<Rightarrow> c < ev_id r) \<and> any_filter paths r"
  let ?all = "concat (map (\<lambda>uc. filter (?Q uc) (vt_rows t)) ucs)"
  have "distinct (map ev_id (filter (?Q uc) (vt_rows t)))" for uc
  proof -
    have "sorted_wrt (<) (map ev_id (filter (?Q uc) (vt_rows t)))"
      using invar_filter_sorted [OF assms(1), of "?Q uc"] by (simp add: sorted_wrt_map)
    then show ?thesis by (simp add: strict_sorted_iff)
  qed
  moreover have inj: "inj_on ev_id (set (vt_rows t))"
  proof -
    have "sorted_wrt (<) (map ev_id (vt_rows t))" using assms(1) by (simp add: event_invar_def sorted_wrt_map)
    then show ?thesis by (simp add: strict_sorted_iff distinct_map)
  qed
  ultimately have "distinct (map ev_id ?all)"
    using assms(2)
  proof (induction ucs)
    case (Cons uc ucs)
    have "ev_id r \<noteq> ev_id r'" if "r \<in> set (filter (?Q uc) (vt_rows t))" "vc \<in> set ucs" "r' \<in> set (filter (?Q vc) (vt_rows t))"
      for r r' vc
    proof
      assume "ev_id r = ev_id r'"
      then have "r = r'" using inj that by (auto simp: inj_on_def)
      then have "fst uc = fst vc" using that by (auto split: prod.splits)
      then show False using Cons.prems(3) that(2) by auto
    qed
    then show ?case using Cons by (auto split: prod.splits)
  qed simp
  then have "sorted_wrt (\<lambda>r r'. ev_id r < ev_id r') (sort_key ev_id ?all)" by (rule sort_key_strict)
  moreover have "set (sort_key ev_id ?all) = set (filter ?P (vt_rows t))"
  proof (rule set_eqI)
    fix r
    have "r \<in> set (sort_key ev_id ?all) \<longleftrightarrow>
        r \<in> set (vt_rows t) \<and> any_filter paths r \<and> (\<exists>c. (ev_user r, c) \<in> set ucs \<and> beyond_cursor False c r)"
      by auto
    also have "\<dots> \<longleftrightarrow> r \<in> set (vt_rows t) \<and> any_filter paths r \<and> (\<exists>c. map_of ucs (ev_user r) = Some c \<and> beyond_cursor False c r)"
      by (simp only: map_of_eq_Some_iff [OF assms(2)])
    also have "\<dots> \<longleftrightarrow> r \<in> set (filter ?P (vt_rows t))"
      by (auto simp: beyond_cursor_def split: option.splits)
    finally show "r \<in> set (sort_key ev_id ?all) \<longleftrightarrow> r \<in> set (filter ?P (vt_rows t))" .
  qed
  ultimately have "sort_key ev_id ?all = filter ?P (vt_rows t)"
    using invar_filter_sorted [OF assms(1), of ?P] by (intro strict_sorted_key_unique)
  then have "try_map (event_from_row users) (take (effective_list_limit limit) (by_id False ?all)) =
      Ok (map (event_of users) (take (effective_list_limit limit) (filter ?P (vt_rows t))))"
    using try_map_event_of [OF invar_rows_wf [OF assms(1), of "effective_list_limit limit" ?P]] by (simp add: by_id_def)
  moreover have "(\<lambda>e. (case map_of ucs (vn_user_id e) of None \<Rightarrow> False | Some None \<Rightarrow> True
      | Some (Some c) \<Rightarrow> c < vn_id e) \<and> any_match paths e) \<circ> event_of users = ?P"
    by (auto simp: fun_eq_iff split: option.splits)
  moreover have "(\<lambda>uc. filter (?Q uc) (vt_rows t)) = (\<lambda>(user_id, cursor).
      filter (\<lambda>r. ev_user r = user_id \<and> any_filter paths r \<and> beyond_cursor False cursor r) (vt_rows t))"
    by (simp add: fun_eq_iff)
  ultimately show ?thesis
    using False by (simp add: get_by_user_cursors_def committed_def take_map filter_map)
qed (simp add: get_by_user_cursors_def)

end
