(* ===== verification/Event_Stream.thy ===== *)
theory Event_Stream
  imports Events
begin

text \<open>
  The two phases of an event stream (\<^verbatim>\<open>services/events_service/stream.rs\<close>), replaying
  the table in batches and then tailing the broadcast channel, together with the
  listener that feeds the channel (\<^verbatim>\<open>persistence/sql/pg_event_listener.rs\<close>).  The
  stream, the listener and the transactions that commit events run concurrently:
  their steps interleave in any order.  The channel may drop its oldest messages
  for a slow receiver and then reports a lag.  What the credential guard answers is
  an input of the steps.
\<close>

section \<open>Model: stream cursors\<close>

datatype stream_cursor =
    PerUser "(int \<times> nat option) list"
  | Global "nat option" "int list option"

fun cursor_fetch ::
  "stream_cursor \<Rightarrow> nat option \<Rightarrow> bool \<Rightarrow> storage_path list \<Rightarrow> user_table \<Rightarrow> event_table \<Rightarrow>
   (sql_error, event_entity list) result" where
  "cursor_fetch (PerUser cursors) limit rv paths users t = get_by_user_cursors cursors limit rv paths users t"
| "cursor_fetch (Global last_sent user_ids) limit rv paths users t =
     get_all_filtered_by_cursor last_sent limit rv paths user_ids users t"

fun cursor_advance :: "event_entity \<Rightarrow> stream_cursor \<Rightarrow> stream_cursor" where
  "cursor_advance e (PerUser cursors) = PerUser (AList.update (vn_user_id e) (Some (vn_id e)) cursors)"
| "cursor_advance e (Global _ user_ids) = Global (Some (vn_id e)) user_ids"

definition after_last :: "nat option \<Rightarrow> event_entity \<Rightarrow> bool" where
  "after_last last_sent e = (case last_sent of None \<Rightarrow> True | Some c \<Rightarrow> \<not> vn_id e \<le> c)"

fun accepts_live :: "stream_cursor \<Rightarrow> storage_path list \<Rightarrow> event_entity \<Rightarrow> bool" where
  "accepts_live (PerUser cursors) paths e =
     (case map_of cursors (vn_user_id e) of
        None \<Rightarrow> False
      | Some last_sent \<Rightarrow> after_last last_sent e \<and> any_match paths e)"
| "accepts_live (Global last_sent user_ids) paths e =
     ((case user_ids of None \<Rightarrow> True | Some ids \<Rightarrow> vn_user_id e \<in> set ids) \<and>
      after_last last_sent e \<and> any_match paths e)"

record stream_options =
  so_paths :: "storage_path list"
  so_mode :: stream_mode
  so_limit :: "nat option"

section \<open>Model: the stream\<close>

text \<open>Where the stream is: about to drain the channel, about to query, sending a
  batch, tailing the channel, or closed.\<close>

datatype stream_phase = Draining | Fetching | Sending "event_entity list" | Tailing | Closed

record stream_state =
  st_phase :: stream_phase
  st_cursor :: stream_cursor
  st_total_sent :: nat
  st_out :: "event_entity list"

text \<open>What the receiver holds: the messages not yet received, and whether it has
  lost some since it last asked.\<close>

record receiver =
  rx_buffer :: "event_entity list"
  rx_lagged :: bool

definition limit_reached :: "stream_options \<Rightarrow> nat \<Rightarrow> bool" where
  "limit_reached opts sent = (case so_limit opts of None \<Rightarrow> False | Some m \<Rightarrow> sent \<ge> m)"

definition stream_yield :: "stream_options \<Rightarrow> stream_phase \<Rightarrow> event_entity \<Rightarrow> stream_state \<Rightarrow> stream_state" where
  "stream_yield opts next_phase e s =
     (let sent = st_total_sent s + 1
      in s\<lparr>st_cursor := cursor_advance e (st_cursor s), st_out := st_out s @ [e], st_total_sent := sent,
           st_phase := (if limit_reached opts sent then Closed else next_phase)\<rparr>)"

text \<open>The head of the replay loop: the guard, then \<^verbatim>\<open>while rx.try_recv().is_ok()\<close>, which
  a reported lag ends early.\<close>

definition stream_drain :: "bool \<Rightarrow> stream_state \<times> receiver \<Rightarrow> stream_state \<times> receiver" where
  "stream_drain valid srx =
     (case srx of (s, rx) \<Rightarrow>
       if st_phase s \<noteq> Draining then (s, rx)
       else if \<not> valid then (s\<lparr>st_phase := Closed\<rparr>, rx)
       else (s\<lparr>st_phase := Fetching\<rparr>,
             if rx_lagged rx then rx\<lparr>rx_lagged := False\<rparr> else rx\<lparr>rx_buffer := []\<rparr>))"

text \<open>After the replay loop: the live tail, or the end.\<close>

definition after_replay :: "stream_options \<Rightarrow> stream_phase" where
  "after_replay opts = (if mode_live (so_mode opts) then Tailing else Closed)"

definition stream_fetch :: "stream_options \<Rightarrow> user_table \<Rightarrow> event_table \<Rightarrow> stream_state \<Rightarrow> stream_state" where
  "stream_fetch opts users t s =
     (if st_phase s \<noteq> Fetching then s
      else let batch_limit = map_option (\<lambda>m. m - st_total_sent s) (so_limit opts)
           in case cursor_fetch (st_cursor s) batch_limit (mode_reverse (so_mode opts)) (so_paths opts) users t of
                Inl _ \<Rightarrow> s\<lparr>st_phase := after_replay opts\<rparr>
              | Inr events \<Rightarrow> s\<lparr>st_phase := (if events = [] then after_replay opts else Sending events)\<rparr>)"

text \<open>The query fails: the error is logged and the loop left.\<close>

definition stream_fetch_error :: "stream_options \<Rightarrow> stream_state \<Rightarrow> stream_state" where
  "stream_fetch_error opts s = (if st_phase s \<noteq> Fetching then s else s\<lparr>st_phase := after_replay opts\<rparr>)"

definition stream_send :: "stream_options \<Rightarrow> bool \<Rightarrow> stream_state \<Rightarrow> stream_state" where
  "stream_send opts valid s =
     (case st_phase s of
        Sending (e # rest) \<Rightarrow>
          if \<not> valid then s\<lparr>st_phase := Closed\<rparr>
          else stream_yield opts (if rest = [] then Draining else Sending rest) e s
      | _ \<Rightarrow> s)"

definition stream_receive :: "stream_options \<Rightarrow> stream_state \<times> receiver \<Rightarrow> stream_state \<times> receiver" where
  "stream_receive opts srx =
     (case srx of (s, rx) \<Rightarrow>
       if st_phase s \<noteq> Tailing then (s, rx)
       else if rx_lagged rx then (s\<lparr>st_phase := Closed\<rparr>, rx)
       else case rx_buffer rx of
              [] \<Rightarrow> (s, rx)
            | e # rest \<Rightarrow>
                (if accepts_live (st_cursor s) (so_paths opts) e then stream_yield opts Tailing e s else s,
                 rx\<lparr>rx_buffer := rest\<rparr>))"

definition stream_next_check :: "bool \<Rightarrow> stream_state \<Rightarrow> stream_state" where
  "stream_next_check valid s = (if st_phase s = Tailing \<and> \<not> valid then s\<lparr>st_phase := Closed\<rparr> else s)"

definition stream_channel_closed :: "stream_state \<Rightarrow> stream_state" where
  "stream_channel_closed s = (if st_phase s = Tailing then s\<lparr>st_phase := Closed\<rparr> else s)"

definition stream_start :: "stream_cursor \<Rightarrow> stream_state" where
  "stream_start cursor = \<lparr>st_phase = Draining, st_cursor = cursor, st_total_sent = 0, st_out = []\<rparr>"

section \<open>Model: the listener\<close>

definition BATCH_SIZE :: nat where "BATCH_SIZE = 100"
definition MAX_BATCHES_PER_WAKE :: nat where "MAX_BATCHES_PER_WAKE = 10"

definition listener_start :: "event_table \<Rightarrow> nat" where
  "listener_start t = get_max_id t"

text \<open>One turn of the loop in \<^verbatim>\<open>broadcast_new_events\<close>: the events to broadcast.\<close>

definition broadcast_batch :: "user_table \<Rightarrow> event_table \<Rightarrow> nat \<Rightarrow> (sql_error, event_entity list) result" where
  "broadcast_batch users t last_broadcast_id = get_by_cursor (Some last_broadcast_id) (Some BATCH_SIZE) AllEvents users t"

fun broadcast_loop ::
  "nat \<Rightarrow> user_table \<Rightarrow> event_table \<Rightarrow> nat \<Rightarrow> event_entity list \<times> nat \<times> bool" where
  "broadcast_loop 0 users t last_id = ([], last_id, True)"
| "broadcast_loop (Suc n) users t last_id =
     (case broadcast_batch users t last_id of
        Inl _ \<Rightarrow> ([], last_id, False)
      | Inr [] \<Rightarrow> ([], last_id, False)
      | Inr events \<Rightarrow>
          let last_id = vn_id (last events)
          in if length events \<noteq> BATCH_SIZE then (events, last_id, False)
             else let (more, last_id, wake) = broadcast_loop n users t last_id in (events @ more, last_id, wake))"

text \<open>The broadcast events, the new \<^verbatim>\<open>last_broadcast_id\<close>, and whether the loop wakes
  itself again because it hit the cap.\<close>

definition broadcast_new_events :: "user_table \<Rightarrow> event_table \<Rightarrow> nat \<Rightarrow> event_entity list \<times> nat \<times> bool" where
  "broadcast_new_events users t last_id = broadcast_loop MAX_BATCHES_PER_WAKE users t last_id"

section \<open>Model: the interleaving\<close>

record feed =
  fd_events :: event_table
  fd_last :: nat
  fd_rx :: receiver
  fd_stream :: stream_state

datatype feed_op =
    CommitEvent int int event_type entry_path
  | BroadcastEvents
  | LagReceiver nat
  | Drain bool
  | Fetch
  | FetchError
  | Send bool
  | Receive
  | NextCheck bool
  | ChannelClosed

definition push_messages :: "event_entity list \<Rightarrow> receiver \<Rightarrow> receiver" where
  "push_messages es rx = rx\<lparr>rx_buffer := rx_buffer rx @ es\<rparr>"

fun feed_step :: "user_table \<Rightarrow> stream_options \<Rightarrow> feed_op \<Rightarrow> feed \<Rightarrow> feed" where
  "feed_step users opts (CommitEvent now user_id ty path) f =
     f\<lparr>fd_events := snd (event_create now user_id ty path (fd_events f))\<rparr>"
| "feed_step users opts BroadcastEvents f =
     (case broadcast_new_events users (fd_events f) (fd_last f) of
        (es, last_id, _) \<Rightarrow> f\<lparr>fd_last := last_id, fd_rx := push_messages es (fd_rx f)\<rparr>)"
| "feed_step users opts (LagReceiver n) f =
     f\<lparr>fd_rx := \<lparr>rx_buffer = drop n (rx_buffer (fd_rx f)), rx_lagged = True\<rparr>\<rparr>"
| "feed_step users opts (Drain valid) f =
     (case stream_drain valid (fd_stream f, fd_rx f) of (s, rx) \<Rightarrow> f\<lparr>fd_stream := s, fd_rx := rx\<rparr>)"
| "feed_step users opts Fetch f = f\<lparr>fd_stream := stream_fetch opts users (fd_events f) (fd_stream f)\<rparr>"
| "feed_step users opts FetchError f = f\<lparr>fd_stream := stream_fetch_error opts (fd_stream f)\<rparr>"
| "feed_step users opts (Send valid) f = f\<lparr>fd_stream := stream_send opts valid (fd_stream f)\<rparr>"
| "feed_step users opts Receive f =
     (case stream_receive opts (fd_stream f, fd_rx f) of (s, rx) \<Rightarrow> f\<lparr>fd_stream := s, fd_rx := rx\<rparr>)"
| "feed_step users opts (NextCheck valid) f = f\<lparr>fd_stream := stream_next_check valid (fd_stream f)\<rparr>"
| "feed_step users opts ChannelClosed f = f\<lparr>fd_stream := stream_channel_closed (fd_stream f)\<rparr>"

definition feed_run :: "user_table \<Rightarrow> stream_options \<Rightarrow> feed_op list \<Rightarrow> feed \<Rightarrow> feed" where
  "feed_run users opts ops f = fold (feed_step users opts) ops f"

text \<open>A stream opens with an empty receiver while the listener has broadcast the
  events up to some id.\<close>

definition feed_open :: "event_table \<Rightarrow> nat \<Rightarrow> stream_cursor \<Rightarrow> feed" where
  "feed_open t last_id cursor =
     \<lparr>fd_events = t, fd_last = last_id, fd_rx = \<lparr>rx_buffer = [], rx_lagged = False\<rparr>, fd_stream = stream_start cursor\<rparr>"

section \<open>What a cursor accepts\<close>

definition cursor_wf :: "stream_cursor \<Rightarrow> bool" where
  "cursor_wf c = (case c of PerUser cursors \<Rightarrow> distinct (map fst cursors) | Global _ _ \<Rightarrow> True)"

lemma cursor_wf_advance: "cursor_wf c \<Longrightarrow> cursor_wf (cursor_advance e c)"
  by (cases c) (simp_all add: cursor_wf_def distinct_update)

lemma cursor_fetch_ok:
  assumes "event_invar users t" and "cursor_wf c"
  shows "cursor_fetch c limit False paths users t =
    Ok (take (effective_list_limit limit) (filter (accepts_live c paths) (committed users t)))"
proof (cases c)
  case (PerUser cursors)
  have "(\<lambda>e. (case map_of cursors (vn_user_id e) of None \<Rightarrow> False | Some None \<Rightarrow> True
      | Some (Some c) \<Rightarrow> c < vn_id e) \<and> any_match paths e) = accepts_live (PerUser cursors) paths"
    by (auto simp: fun_eq_iff after_last_def split: option.splits)
  then show ?thesis
    using get_by_user_cursors_ok [OF assms(1), of cursors limit paths] assms(2) PerUser by (simp add: cursor_wf_def)
next
  case (Global last_sent user_ids)
  have "(\<lambda>e. (case last_sent of None \<Rightarrow> True | Some c \<Rightarrow> c < vn_id e) \<and> any_match paths e \<and>
      (case user_ids of None \<Rightarrow> True | Some ids \<Rightarrow> vn_user_id e \<in> set ids)) = accepts_live (Global last_sent user_ids) paths"
    by (auto simp: fun_eq_iff after_last_def not_le split: option.splits)
  then show ?thesis
    using get_all_filtered_ok [OF assms(1), of last_sent limit paths user_ids] Global by simp
qed

text \<open>Two events whose order the cursor compares.\<close>

definition same_lane :: "stream_cursor \<Rightarrow> event_entity \<Rightarrow> event_entity \<Rightarrow> bool" where
  "same_lane c x e = (case c of PerUser _ \<Rightarrow> vn_user_id x = vn_user_id e | Global _ _ \<Rightarrow> True)"

lemma same_lane_refl [simp]: "same_lane c e e"
  by (simp add: same_lane_def split: stream_cursor.splits)

lemma accepts_advance:
  assumes "accepts_live c paths x"
  shows "accepts_live (cursor_advance x c) paths e \<longleftrightarrow>
    accepts_live c paths e \<and> (same_lane c x e \<longrightarrow> vn_id x < vn_id e)"
  using assms
  by (cases c) (auto simp: same_lane_def after_last_def update_conv' split: option.splits if_splits)

lemma same_lane_advance [simp]: "same_lane (cursor_advance y c) = same_lane c"
  by (cases c) (simp_all add: same_lane_def fun_eq_iff)

text \<open>After sending events in increasing order, a cursor accepts what it accepted
  before and comes after them.\<close>

lemma accepts_fold_advance:
  "sorted_wrt (\<lambda>a b. vn_id a < vn_id b) sent \<Longrightarrow> \<forall>x \<in> set sent. accepts_live c paths x \<Longrightarrow>
   accepts_live (fold cursor_advance sent c) paths e \<longleftrightarrow>
     accepts_live c paths e \<and> (\<forall>x \<in> set sent. same_lane c x e \<longrightarrow> vn_id x < vn_id e)"
proof (induction sent arbitrary: c)
  case (Cons x sent)
  have acc: "\<forall>y \<in> set sent. accepts_live (cursor_advance x c) paths y"
    using Cons.prems by (simp add: accepts_advance)
  show ?case
    using Cons.IH [of "cursor_advance x c"] Cons.prems acc by (auto simp: accepts_advance)
qed simp

lemma cursor_wf_fold: "cursor_wf c \<Longrightarrow> cursor_wf (fold cursor_advance sent c)"
  by (induction sent arbitrary: c) (simp_all add: cursor_wf_advance)

section \<open>Ranges of an increasing list of events\<close>

abbreviation increasing :: "event_entity list \<Rightarrow> bool" where
  "increasing \<equiv> sorted_wrt (\<lambda>a b. vn_id a < vn_id b)"

definition between :: "nat \<Rightarrow> nat \<Rightarrow> event_entity list \<Rightarrow> event_entity list" where
  "between lo hi es = filter (\<lambda>e. lo < vn_id e \<and> vn_id e \<le> hi) es"

lemma increasing_inj: "increasing es \<Longrightarrow> a \<in> set es \<Longrightarrow> b \<in> set es \<Longrightarrow> vn_id a = vn_id b \<Longrightarrow> a = b"
  by (induction es) auto

lemma increasing_take_last:
  "increasing es \<Longrightarrow> n \<noteq> 0 \<Longrightarrow> es \<noteq> [] \<Longrightarrow> e \<in> set es \<Longrightarrow>
   e \<in> set (take n es) \<longleftrightarrow> vn_id e \<le> vn_id (last (take n es))"
proof (induction es arbitrary: n)
  case (Cons x es)
  then obtain m where n: "n = Suc m" by (cases n) auto
  show ?case
  proof (cases "m = 0 \<or> es = []")
    case True
    then show ?thesis using Cons.prems n by fastforce
  next
    case False
    then have l: "last (take n (x # es)) = last (take m es)" and "take m es \<noteq> []" using n by auto
    then have "last (take m es) \<in> set es" using in_set_takeD [OF last_in_set] by blast
    then have "vn_id x < vn_id (last (take m es))" using Cons.prems(1) by simp
    then show ?thesis using Cons.IH [of m] Cons.prems False l n by auto
  qed
qed simp

lemma take_above:
  assumes "increasing T" and "n \<noteq> 0" and "filter (\<lambda>e. lo < vn_id e) T \<noteq> []"
  shows "take n (filter (\<lambda>e. lo < vn_id e) T) = between lo (vn_id (last (take n (filter (\<lambda>e. lo < vn_id e) T)))) T"
    (is "take n ?xs = _")
proof (rule strict_sorted_key_unique [where f = vn_id])
  have inc: "increasing ?xs" using assms(1) by (simp add: sorted_wrt_filter)
  then show "increasing (take n ?xs)" by (rule sorted_wrt_take)
  show "increasing (between lo (vn_id (last (take n ?xs))) T)" using assms(1) by (simp add: between_def sorted_wrt_filter)
  have "e \<in> set (take n ?xs) \<longleftrightarrow> e \<in> set ?xs \<and> vn_id e \<le> vn_id (last (take n ?xs))" for e
  proof (cases "e \<in> set ?xs")
    case True
    then show ?thesis using increasing_take_last [OF inc assms(2,3)] by simp
  qed (use in_set_takeD [of e n ?xs] in blast)
  then show "set (take n ?xs) = set (between lo (vn_id (last (take n ?xs))) T)" by (auto simp: between_def)
qed

lemma between_append:
  assumes "increasing T" and "a \<le> b" and "b \<le> c"
  shows "between a b T @ between b c T = between a c T"
proof (rule strict_sorted_key_unique [where f = vn_id])
  show "increasing (between a b T @ between b c T)"
    using assms(1) by (auto simp: sorted_wrt_append between_def sorted_wrt_filter)
  show "increasing (between a c T)" using assms(1) by (simp add: between_def sorted_wrt_filter)
  show "set (between a b T @ between b c T) = set (between a c T)" using assms(2,3) by (auto simp: between_def)
qed

lemma first_above:
  assumes "increasing T" and "filter (\<lambda>x. W x \<and> p < vn_id x) T = e # r"
  shows "W e" and "p < vn_id e" and "e \<in> set T" and "r = filter (\<lambda>x. W x \<and> vn_id e < vn_id x) T"
    and "filter (\<lambda>x. W x \<and> vn_id x \<le> vn_id e) T = filter (\<lambda>x. W x \<and> vn_id x \<le> p) T @ [e]"
proof -
  have sets: "{x \<in> set T. W x \<and> p < vn_id x} = insert e (set r)"
    using arg_cong [OF assms(2), of set] by simp
  then show e: "W e" "p < vn_id e" "e \<in> set T" by auto
  have inc: "increasing (e # r)" using assms(1) unfolding assms(2) [symmetric] by (rule sorted_wrt_filter)
  show "r = filter (\<lambda>x. W x \<and> vn_id e < vn_id x) T"
  proof (rule strict_sorted_key_unique [where f = vn_id])
    have "x \<in> set r \<longleftrightarrow> x \<in> set T \<and> W x \<and> vn_id e < vn_id x" for x
    proof
      assume "x \<in> set r"
      then show "x \<in> set T \<and> W x \<and> vn_id e < vn_id x" using sets inc by auto
    next
      assume x: "x \<in> set T \<and> W x \<and> vn_id e < vn_id x"
      then have "x \<in> insert e (set r)" unfolding sets [symmetric] using e(2) by simp
      with x show "x \<in> set r" by auto
    qed
    then show "set r = set (filter (\<lambda>x. W x \<and> vn_id e < vn_id x) T)" by auto
  qed (use inc assms(1) in \<open>simp_all add: sorted_wrt_filter\<close>)
  show "filter (\<lambda>x. W x \<and> vn_id x \<le> vn_id e) T = filter (\<lambda>x. W x \<and> vn_id x \<le> p) T @ [e]"
  proof (rule strict_sorted_key_unique [where f = vn_id])
    show "increasing (filter (\<lambda>x. W x \<and> vn_id x \<le> p) T @ [e])"
      using assms(1) e(2) by (auto simp: sorted_wrt_append sorted_wrt_filter)
    have "x = e" if "x \<in> set T" "W x" "vn_id x \<le> vn_id e" "\<not> vn_id x \<le> p" for x
    proof -
      have "x \<in> insert e (set r)" unfolding sets [symmetric] using that by simp
      then show ?thesis using inc that(3) by auto
    qed
    then show "set (filter (\<lambda>x. W x \<and> vn_id x \<le> vn_id e) T) = set (filter (\<lambda>x. W x \<and> vn_id x \<le> p) T @ [e])"
      using e by auto
  qed (use assms(1) in \<open>simp add: sorted_wrt_filter\<close>)
qed

lemma between_Cons:
  assumes "increasing T" and "between q h T = e # r"
  shows "q < vn_id e" and "vn_id e \<le> h" and "e \<in> set T" and "r = between (vn_id e) h T"
    and "\<And>x. x \<in> set T \<Longrightarrow> q < vn_id x \<Longrightarrow> vn_id x \<le> vn_id e \<Longrightarrow> x = e"
proof -
  have f: "filter (\<lambda>x. vn_id x \<le> h \<and> q < vn_id x) T = e # r"
    using assms(2) by (simp add: between_def conj_commute)
  note first = first_above [OF assms(1) f]
  show "q < vn_id e" "vn_id e \<le> h" "e \<in> set T" using first(1-3) by simp_all
  show "r = between (vn_id e) h T" using first(4) by (simp add: between_def conj_commute)
  fix x assume x: "x \<in> set T" "q < vn_id x" "vn_id x \<le> vn_id e"
  then have "x \<in> set (filter (\<lambda>x. vn_id x \<le> h \<and> vn_id x \<le> vn_id e) T)" using first(1) by simp
  then show "x = e" unfolding first(5) using x(2) by auto
qed

lemma drop_between:
  "increasing T \<Longrightarrow> \<exists>q'. q \<le> q' \<and> (q \<le> h \<longrightarrow> q' \<le> h) \<and> drop n (between q h T) = between q' h T"
proof (induction n arbitrary: q)
  case (Suc n)
  show ?case
  proof (cases "between q h T")
    case (Cons e r)
    note b = between_Cons [OF Suc.prems Cons]
    obtain q' where "vn_id e \<le> q'" "vn_id e \<le> h \<longrightarrow> q' \<le> h" "drop n (between (vn_id e) h T) = between q' h T"
      using Suc.IH [OF Suc.prems] by blast
    then show ?thesis using b Cons by (intro exI [of _ q']) auto
  qed auto
qed auto

section \<open>The listener broadcasts every event in order\<close>

lemma effective_batch: "effective_list_limit (Some BATCH_SIZE) = BATCH_SIZE"
  by (simp add: effective_list_limit_def BATCH_SIZE_def DEFAULT_MAX_LIST_LIMIT_def)

lemma broadcast_loop_range:
  assumes "event_invar users t"
  shows "broadcast_loop n users t l = (es, l', wake) \<Longrightarrow> l < vt_seq t \<Longrightarrow>
    es = between l l' (committed users t) \<and> l \<le> l' \<and> l' < vt_seq t \<and>
    (\<not> wake \<longrightarrow> (\<forall>e \<in> set (committed users t). vn_id e \<le> l')) \<and>
    (n \<noteq> 0 \<and> (\<exists>e \<in> set (committed users t). l < vn_id e) \<longrightarrow> es \<noteq> [])"
proof (induction n arbitrary: l es l' wake)
  case 0
  then show ?case by (auto simp: between_def)
next
  case (Suc n)
  let ?T = "committed users t"
  let ?above = "filter (\<lambda>e. l < vn_id e) ?T"
  let ?batch = "take BATCH_SIZE ?above"
  have inc: "increasing ?T" by (rule committed_sorted [OF assms])
  have b: "broadcast_batch users t l = Ok ?batch"
    by (simp add: broadcast_batch_def get_by_cursor_ok [OF assms] effective_batch)
  show ?case
  proof (cases "?above = []")
    case True
    then have "\<forall>e \<in> set ?T. vn_id e \<le> l" by (auto simp: filter_empty_conv not_less)
    then show ?thesis using Suc.prems b True by (auto simp: between_def)
  next
    case False
    let ?l1 = "vn_id (last ?batch)"
    have ne: "?batch \<noteq> []" using False by (simp add: BATCH_SIZE_def)
    have batch: "?batch = between l ?l1 ?T"
      by (rule take_above [OF inc _ False]) (simp add: BATCH_SIZE_def)
    have "last ?batch \<in> set ?above" using last_in_set [OF ne] by (rule in_set_takeD)
    then have l1: "l < ?l1" "?l1 < vt_seq t" using committed_bound [OF assms] by auto
    obtain x xs where xs: "?batch = x # xs" using ne by (cases ?batch) auto
    have step: "broadcast_loop (Suc n) users t l = (if length ?batch \<noteq> BATCH_SIZE then (?batch, ?l1, False)
        else let (more, l2, w) = broadcast_loop n users t ?l1 in (?batch @ more, l2, w))"
      using b xs by (simp add: Let_def)
    show ?thesis
    proof (cases "length ?batch = BATCH_SIZE")
      case True
      obtain more l2 w where more: "broadcast_loop n users t ?l1 = (more, l2, w)" by (metis prod_cases3)
      have res: "es = ?batch @ more" "l' = l2" "wake = w" using step Suc.prems(1) more True by simp_all
      note ih = Suc.IH [OF more l1(2)]
      have "es = between l l' ?T"
        using between_append [OF inc, of l ?l1 l2] l1(1) ih batch res(1,2) by simp
      moreover have "es \<noteq> []" using res(1) ne by simp
      ultimately show ?thesis using ih res l1(1) by simp
    next
      case False
      then have "?batch = ?above" by simp
      then have all: "between l ?l1 ?T = ?above" using batch by simp
      have "vn_id e \<le> ?l1" if "e \<in> set ?T" for e
      proof (cases "l < vn_id e")
        case True
        then have "e \<in> set (between l ?l1 ?T)" unfolding all using that by simp
        then show ?thesis by (simp add: between_def)
      qed (use l1(1) in simp)
      moreover have "(?batch, ?l1, False) = (es, l', wake)"
        unfolding Suc.prems(1) [symmetric] step using False by (simp only: not_False_eq_True if_True)
      then have "es = ?batch" "l' = ?l1" by blast+
      ultimately show ?thesis using l1 ne by (metis batch less_imp_le)
    qed
  qed
qed

lemmas broadcast_new_events_range = broadcast_loop_range [where n = MAX_BATCHES_PER_WAKE, folded broadcast_new_events_def]

section \<open>The invariant of a feed\<close>

definition out_limit :: "stream_options \<Rightarrow> event_entity list \<Rightarrow> event_entity list" where
  "out_limit opts es = (case so_limit opts of None \<Rightarrow> es | Some m \<Rightarrow> take m es)"

definition within_limit :: "stream_options \<Rightarrow> nat \<Rightarrow> bool" where
  "within_limit opts n = (case so_limit opts of None \<Rightarrow> True | Some m \<Rightarrow> n \<le> m)"

text \<open>The events a stream opened with a cursor has to send.\<close>

definition wanted :: "user_table \<Rightarrow> stream_options \<Rightarrow> stream_cursor \<Rightarrow> event_table \<Rightarrow> event_entity list" where
  "wanted users opts c0 t = filter (accepts_live c0 (so_paths opts)) (committed users t)"

definition sent_upto :: "user_table \<Rightarrow> stream_options \<Rightarrow> stream_cursor \<Rightarrow> event_table \<Rightarrow> nat \<Rightarrow> event_entity list" where
  "sent_upto users opts c0 t p = filter (\<lambda>x. accepts_live c0 (so_paths opts) x \<and> vn_id x \<le> p) (committed users t)"

definition owed_after :: "user_table \<Rightarrow> stream_options \<Rightarrow> stream_cursor \<Rightarrow> event_table \<Rightarrow> nat \<Rightarrow> event_entity list" where
  "owed_after users opts c0 t p = filter (\<lambda>x. accepts_live c0 (so_paths opts) x \<and> p < vn_id x) (committed users t)"

definition phase_ok ::
  "user_table \<Rightarrow> stream_options \<Rightarrow> stream_cursor \<Rightarrow> event_table \<Rightarrow> nat \<Rightarrow> nat \<Rightarrow> bool \<Rightarrow> nat \<Rightarrow> stream_phase \<Rightarrow> bool" where
  "phase_ok users opts c0 t p q lagged sent ph \<longleftrightarrow>
     (case ph of
        Sending es \<Rightarrow> es \<noteq> [] \<and> prefix es (owed_after users opts c0 t p) \<and> within_limit opts (sent + length es)
      | Tailing \<Rightarrow> lagged \<or> q \<le> p
      | _ \<Rightarrow> True)"

text \<open>Everything wanted up to a point has been sent and nothing else; the messages
  waiting in the receiver are the events up to the last one broadcast, starting no
  later than that point once the stream tails.\<close>

definition stream_inv ::
  "user_table \<Rightarrow> stream_options \<Rightarrow> stream_cursor \<Rightarrow> event_table \<Rightarrow> nat \<Rightarrow> nat \<Rightarrow> bool \<Rightarrow> stream_state \<Rightarrow> bool" where
  "stream_inv users opts c0 t p q lagged s \<longleftrightarrow>
     p < vt_seq t \<and> st_out s = sent_upto users opts c0 t p \<and> st_cursor s = fold cursor_advance (st_out s) c0 \<and>
     st_total_sent s = length (st_out s) \<and> within_limit opts (length (st_out s)) \<and>
     (st_phase s \<noteq> Closed \<longrightarrow> \<not> limit_reached opts (length (st_out s))) \<and>
     phase_ok users opts c0 t p q lagged (length (st_out s)) (st_phase s)"

definition feed_inv :: "user_table \<Rightarrow> stream_options \<Rightarrow> stream_cursor \<Rightarrow> feed \<Rightarrow> bool" where
  "feed_inv users opts c0 f \<longleftrightarrow> event_invar users (fd_events f) \<and> fd_last f < vt_seq (fd_events f) \<and>
     (\<exists>p q. q \<le> fd_last f \<and> rx_buffer (fd_rx f) = between q (fd_last f) (committed users (fd_events f)) \<and>
        stream_inv users opts c0 (fd_events f) p q (rx_lagged (fd_rx f)) (fd_stream f))"

fun op_ok :: "user_table \<Rightarrow> feed_op \<Rightarrow> bool" where
  "op_ok users (CommitEvent now user_id ty path) \<longleftrightarrow> owner_key users user_id = Some (ep_pubkey path) \<and>
     canonical (ep_path path) \<and> path = entry_path_new (ep_pubkey path) (ep_path path) \<and>
     (case ty of PutEvent h \<Rightarrow> length h = 32 | DeleteEvent \<Rightarrow> True)"
| "op_ok users FetchError = False"
| "op_ok users _ = True"

text \<open>A request the query parser lets through, read forward.\<close>

definition forward_request :: "stream_options \<Rightarrow> stream_cursor \<Rightarrow> bool" where
  "forward_request opts c0 \<longleftrightarrow> cursor_wf c0 \<and> \<not> mode_reverse (so_mode opts) \<and> so_limit opts \<noteq> Some 0"

lemma wanted_split:
  assumes "event_invar users t"
  shows "wanted users opts c0 t = sent_upto users opts c0 t p @ owed_after users opts c0 t p"
proof (rule strict_sorted_key_unique [where f = vn_id])
  show "increasing (sent_upto users opts c0 t p @ owed_after users opts c0 t p)"
    using committed_sorted [OF assms] by (auto simp: sorted_wrt_append sent_upto_def owed_after_def sorted_wrt_filter)
  show "set (wanted users opts c0 t) = set (sent_upto users opts c0 t p @ owed_after users opts c0 t p)"
    by (auto simp: wanted_def sent_upto_def owed_after_def)
qed (use committed_sorted [OF assms] in \<open>simp add: wanted_def sorted_wrt_filter\<close>)

lemma sent_upto_max:
  assumes "event_invar users t" and "vt_seq t \<le> Suc p"
  shows "sent_upto users opts c0 t p = wanted users opts c0 t"
  unfolding sent_upto_def wanted_def
  by (rule filter_cong) (use committed_bound [OF assms(1)] assms(2) in fastforce)+

lemma owed_first:
  assumes "event_invar users t" and "owed_after users opts c0 t p = e # r"
  shows "r = owed_after users opts c0 t (vn_id e)" and "vn_id e < vt_seq t"
    and "sent_upto users opts c0 t (vn_id e) = sent_upto users opts c0 t p @ [e]"
  using first_above [OF committed_sorted [OF assms(1)] assms(2) [unfolded owed_after_def]] committed_bound [OF assms(1)]
  by (simp_all add: owed_after_def sent_upto_def)

text \<open>The cursor of a stream accepts exactly what it still owes.\<close>

lemma accepts_owed:
  assumes "event_invar users t" and "x \<in> set (committed users t)"
  shows "accepts_live (fold cursor_advance (sent_upto users opts c0 t p) c0) (so_paths opts) x \<longleftrightarrow>
    accepts_live c0 (so_paths opts) x \<and> p < vn_id x"
proof -
  have inc: "increasing (sent_upto users opts c0 t p)"
    using committed_sorted [OF assms(1)] by (simp add: sent_upto_def sorted_wrt_filter)
  have "accepts_live (fold cursor_advance (sent_upto users opts c0 t p) c0) (so_paths opts) x \<longleftrightarrow>
      accepts_live c0 (so_paths opts) x \<and> (\<forall>y \<in> set (sent_upto users opts c0 t p). same_lane c0 y x \<longrightarrow> vn_id y < vn_id x)"
    by (rule accepts_fold_advance [OF inc]) (simp add: sent_upto_def)
  also have "\<dots> \<longleftrightarrow> accepts_live c0 (so_paths opts) x \<and> p < vn_id x"
    using assms(2) by (force simp: sent_upto_def not_less)
  finally show ?thesis .
qed

lemma fetch_owed:
  assumes "event_invar users t" and "cursor_wf c0"
  shows "cursor_fetch (fold cursor_advance (sent_upto users opts c0 t p) c0) limit False (so_paths opts) users t =
    Ok (take (effective_list_limit limit) (owed_after users opts c0 t p))"
  unfolding cursor_fetch_ok [OF assms(1) cursor_wf_fold [OF assms(2)]] owed_after_def
  using accepts_owed [OF assms(1)] by (simp cong: filter_cong)

section \<open>Every step keeps the invariant\<close>

lemma phase_ok_simps [simp]:
  "phase_ok users opts c0 t p q lagged n Draining" "phase_ok users opts c0 t p q lagged n Fetching"
  "phase_ok users opts c0 t p q lagged n Closed"
  "phase_ok users opts c0 t p q lagged n Tailing \<longleftrightarrow> lagged \<or> q \<le> p"
  "phase_ok users opts c0 t p q lagged n (Sending es) \<longleftrightarrow>
     es \<noteq> [] \<and> prefix es (owed_after users opts c0 t p) \<and> within_limit opts (n + length es)"
  by (simp_all add: phase_ok_def)

lemma not_reached_within: "\<not> limit_reached opts n \<Longrightarrow> within_limit opts (Suc n)"
  by (auto simp: limit_reached_def within_limit_def split: option.splits)

lemma stream_inv_yield:
  assumes inv: "event_invar users t" "stream_inv users opts c0 t p q lagged s" and running: "st_phase s \<noteq> Closed"
    and owed: "owed_after users opts c0 t p = e # r"
    and phase: "phase_ok users opts c0 t (vn_id e) q' lagged' (Suc (length (st_out s))) next_phase"
  shows "stream_inv users opts c0 t (vn_id e) q' lagged' (stream_yield opts next_phase e s)"
  using owed_first [OF inv(1) owed] inv(2) running phase not_reached_within [of opts "length (st_out s)"]
  by (auto simp: stream_inv_def stream_yield_def Let_def)

lemma stream_inv_commit:
  assumes "stream_inv users opts c0 t p q lagged s" and "committed users t' = committed users t @ [e]"
    and "vn_id e = vt_seq t" and "vt_seq t' = Suc (vt_seq t)"
  shows "stream_inv users opts c0 t' p q lagged s"
proof -
  have "sent_upto users opts c0 t' p = sent_upto users opts c0 t p"
    using assms by (simp add: sent_upto_def stream_inv_def)
  moreover have "prefix (owed_after users opts c0 t p) (owed_after users opts c0 t' p)"
    using assms(2) by (simp add: owed_after_def)
  ultimately show ?thesis
    using assms(1,4) by (auto simp: stream_inv_def phase_ok_def split: stream_phase.splits intro: prefix_order.trans)
qed

lemma event_create_seq:
  "vt_seq (snd (event_create now user_id ty path t)) = Suc (vt_seq t)"
  "vn_id (fst (event_create now user_id ty path t)) = vt_seq t"
  by (simp_all add: event_create_def Let_def)

lemma between_snoc: "h < vn_id e \<Longrightarrow> between q h (T @ [e]) = between q h T"
  by (simp add: between_def)

lemma feed_inv_commit:
  assumes "feed_inv users opts c0 f" and "op_ok users (CommitEvent now user_id ty path)"
  shows "feed_inv users opts c0 (feed_step users opts (CommitEvent now user_id ty path) f)"
proof -
  let ?t = "snd (event_create now user_id ty path (fd_events f))"
  have inv: "event_invar users (fd_events f)" "fd_last f < vt_seq (fd_events f)" using assms(1) by (simp_all add: feed_inv_def)
  obtain p q where pq: "q \<le> fd_last f" "rx_buffer (fd_rx f) = between q (fd_last f) (committed users (fd_events f))"
      "stream_inv users opts c0 (fd_events f) p q (rx_lagged (fd_rx f)) (fd_stream f)"
    using assms(1) by (auto simp: feed_inv_def)
  have hash: "\<And>h. ty = PutEvent h \<Longrightarrow> length h = 32" using assms(2) by simp
  have ok: "owner_key users user_id = Some (ep_pubkey path)" "canonical (ep_path path)"
    "path = entry_path_new (ep_pubkey path) (ep_path path)" using assms(2) by simp_all
  note created = event_create_committed [OF inv(1) ok hash, where now = now]
  have "stream_inv users opts c0 ?t p q (rx_lagged (fd_rx f)) (fd_stream f)"
    by (rule stream_inv_commit [OF pq(3) created(2)]) (simp_all add: event_create_seq)
  moreover have "rx_buffer (fd_rx f) = between q (fd_last f) (committed users ?t)"
    using pq(2) created(2) inv(2) by (simp add: between_snoc event_create_seq)
  ultimately show ?thesis using created(1) inv(2) pq(1) by (auto simp: feed_inv_def event_create_seq)
qed

lemma stream_inv_lag: "stream_inv users opts c0 t p q lagged s \<Longrightarrow> stream_inv users opts c0 t p q' True s"
  by (auto simp: stream_inv_def phase_ok_def split: stream_phase.splits)

lemma stream_inv_drain:
  assumes "stream_inv users opts c0 t p q lagged s" and "stream_drain valid (s, rx) = (s', rx')" and "rx_lagged rx = lagged"
  shows "stream_inv users opts c0 t p (if rx' = rx then q else q') (rx_lagged rx') s'"
  using assms
  by (auto simp: stream_drain_def stream_inv_def phase_ok_def split: if_splits stream_phase.splits)

text \<open>A query returns what is owed, up to the limit; when it returns nothing,
  nothing is owed.\<close>

lemma stream_fetch_cases:
  assumes inv: "event_invar users t" "stream_inv users opts c0 t p q lagged s" and req: "forward_request opts c0"
    and fetching: "st_phase s = Fetching"
  obtains (caught_up) "owed_after users opts c0 t p = []" "stream_fetch opts users t s = s\<lparr>st_phase := after_replay opts\<rparr>"
  | (batch) es where "es \<noteq> []" "prefix es (owed_after users opts c0 t p)" "within_limit opts (length (st_out s) + length es)"
      "stream_fetch opts users t s = s\<lparr>st_phase := Sending es\<rparr>"
proof -
  let ?limit = "map_option (\<lambda>m. m - st_total_sent s) (so_limit opts)"
  let ?es = "take (effective_list_limit ?limit) (owed_after users opts c0 t p)"
  have s: "st_cursor s = fold cursor_advance (sent_upto users opts c0 t p) c0" "st_total_sent s = length (st_out s)"
      "\<not> limit_reached opts (length (st_out s))"
    using inv(2) fetching by (auto simp: stream_inv_def)
  have wf: "cursor_wf c0" "\<not> mode_reverse (so_mode opts)" using req by (simp_all add: forward_request_def)
  have fetch: "stream_fetch opts users t s = s\<lparr>st_phase := (if ?es = [] then after_replay opts else Sending ?es)\<rparr>"
    using fetching s(1) wf(2) fetch_owed [OF inv(1) wf(1)] by (simp add: stream_fetch_def Let_def)
  have pos: "0 < effective_list_limit ?limit"
    using s(2,3) by (intro effective_list_limit_pos) (auto simp: limit_reached_def)
  have len: "within_limit opts (length (st_out s) + length ?es)"
    using s(2,3) by (auto simp: within_limit_def limit_reached_def effective_list_limit_def split: option.splits)
  show thesis
  proof (cases "?es = []")
    case True
    then show thesis using caught_up fetch pos by simp
  next
    case False
    then show thesis using batch [OF False take_is_prefix len] fetch by simp
  qed
qed

lemma stream_inv_fetch:
  assumes inv: "event_invar users t" "stream_inv users opts c0 t p q lagged s" and req: "forward_request opts c0"
    and "q < vt_seq t"
  shows "\<exists>p'. stream_inv users opts c0 t p' q lagged (stream_fetch opts users t s)"
proof (cases "st_phase s = Fetching")
  case True
  from inv req True show ?thesis
  proof (cases rule: stream_fetch_cases)
    case caught_up
    let ?p = "vt_seq t - 1"
    have "p < vt_seq t" using inv(2) by (simp add: stream_inv_def)
    then have "sent_upto users opts c0 t ?p = sent_upto users opts c0 t p"
      using sent_upto_max [OF inv(1)] wanted_split [OF inv(1), of opts c0 p] caught_up(1) by simp
    then have "stream_inv users opts c0 t ?p q lagged (stream_fetch opts users t s)"
      using inv(2) True assms(4) caught_up(2) \<open>p < vt_seq t\<close> by (auto simp: stream_inv_def after_replay_def)
    then show ?thesis ..
  next
    case (batch es)
    then have "stream_inv users opts c0 t p q lagged (stream_fetch opts users t s)"
      using inv(2) True by (auto simp: stream_inv_def)
    then show ?thesis ..
  qed
qed (use inv(2) in \<open>auto simp: stream_fetch_def\<close>)

lemma stream_inv_send:
  assumes inv: "event_invar users t" "stream_inv users opts c0 t p q lagged s"
  shows "\<exists>p'. stream_inv users opts c0 t p' q lagged (stream_send opts valid s)"
proof (cases "\<exists>e rest. st_phase s = Sending (e # rest) \<and> valid")
  case True
  then obtain e rest where ph: "st_phase s = Sending (e # rest)" and valid by blast
  then obtain r where owed: "owed_after users opts c0 t p = e # r" "prefix rest r"
    and within: "within_limit opts (length (st_out s) + length (e # rest))"
    using inv(2) by (auto simp: stream_inv_def prefix_def)
  have "stream_inv users opts c0 t (vn_id e) q lagged
      (stream_yield opts (if rest = [] then Draining else Sending rest) e s)"
    by (rule stream_inv_yield [OF inv _ owed(1)]) (use ph owed owed_first(1) [OF inv(1) owed(1)] within in auto)
  then show ?thesis using ph \<open>valid\<close> by (auto simp: stream_send_def)
next
  case False
  then have "stream_send opts valid s = s \<or> stream_send opts valid s = s\<lparr>st_phase := Closed\<rparr>"
    by (auto simp: stream_send_def split: stream_phase.splits list.splits)
  then show ?thesis using inv(2) by (auto simp: stream_inv_def)
qed

text \<open>A tailing stream that has missed no message skips what it does not want or has
  sent, and sends the first event it owes.\<close>

lemma stream_inv_receive:
  assumes inv: "event_invar users t" "stream_inv users opts c0 t p q False s"
    and tail: "st_phase s = Tailing" and buf: "between q h (committed users t) = e # rest"
  shows "\<exists>p'. stream_inv users opts c0 t p' (vn_id e) False
    (if accepts_live (st_cursor s) (so_paths opts) e then stream_yield opts Tailing e s else s)"
proof -
  note inc = committed_sorted [OF inv(1)]
  note b = between_Cons [OF inc buf]
  have s: "q \<le> p" "st_cursor s = fold cursor_advance (sent_upto users opts c0 t p) c0" "st_out s = sent_upto users opts c0 t p"
    using inv(2) tail by (simp_all add: stream_inv_def)
  have acc: "accepts_live (st_cursor s) (so_paths opts) e \<longleftrightarrow> accepts_live c0 (so_paths opts) e \<and> p < vn_id e"
    unfolding s(2) by (rule accepts_owed [OF inv(1) b(3)])
  show ?thesis
  proof (cases "accepts_live c0 (so_paths opts) e \<and> p < vn_id e")
    case True
    have "e \<in> set (owed_after users opts c0 t p)" using True b(3) by (simp add: owed_after_def)
    then obtain x r where owed: "owed_after users opts c0 t p = x # r" by (cases "owed_after users opts c0 t p") auto
    have "x = e"
    proof (rule b(5))
      have x: "x \<in> set (owed_after users opts c0 t p)" by (simp add: owed)
      then show "x \<in> set (committed users t)" "q < vn_id x" using s(1) by (auto simp: owed_after_def)
      have "e \<in> set (x # owed_after users opts c0 t (vn_id x))"
        using \<open>e \<in> set (owed_after users opts c0 t p)\<close> owed_first(1) [OF inv(1) owed] owed by simp
      then show "vn_id x \<le> vn_id e" by (auto simp: owed_after_def)
    qed
    then have "stream_inv users opts c0 t (vn_id e) (vn_id e) False (stream_yield opts Tailing e s)"
      by (intro stream_inv_yield [OF inv _ owed [unfolded \<open>x = e\<close>]]) (simp_all add: tail)
    then show ?thesis using acc True by auto
  next
    case False
    let ?p = "max p (vn_id e)"
    have same: "sent_upto users opts c0 t ?p = sent_upto users opts c0 t p"
      unfolding sent_upto_def
    proof (rule filter_cong [OF refl])
      fix x assume x: "x \<in> set (committed users t)"
      have "x = e" if "p < vn_id x" "vn_id x \<le> vn_id e" using b(5) [OF x] that s(1) by simp
      then show "(accepts_live c0 (so_paths opts) x \<and> vn_id x \<le> ?p) = (accepts_live c0 (so_paths opts) x \<and> vn_id x \<le> p)"
        using False by (cases "vn_id x \<le> p"; cases "vn_id x \<le> vn_id e") (auto simp: le_max_iff_disj not_le)
    qed
    have "?p < vt_seq t" using inv(2) committed_bound [OF inv(1) b(3)] by (auto simp: stream_inv_def)
    then have "stream_inv users opts c0 t ?p (vn_id e) False s" using inv(2) same tail by (auto simp: stream_inv_def)
    then show ?thesis using acc False by auto
  qed
qed

lemma feed_inv_intro:
  "event_invar users (fd_events f) \<Longrightarrow> fd_last f < vt_seq (fd_events f) \<Longrightarrow> q \<le> fd_last f \<Longrightarrow>
   rx_buffer (fd_rx f) = between q (fd_last f) (committed users (fd_events f)) \<Longrightarrow>
   \<exists>p. stream_inv users opts c0 (fd_events f) p q (rx_lagged (fd_rx f)) (fd_stream f) \<Longrightarrow> feed_inv users opts c0 f"
  by (auto simp: feed_inv_def)

lemma stream_inv_close: "stream_inv users opts c0 t p q lagged s \<Longrightarrow> stream_inv users opts c0 t p q lagged (s\<lparr>st_phase := Closed\<rparr>)"
  by (auto simp: stream_inv_def)

lemma stream_inv_next_check: "stream_inv users opts c0 t p q lagged s \<Longrightarrow> stream_inv users opts c0 t p q lagged (stream_next_check valid s)"
  by (auto simp: stream_inv_def stream_next_check_def)

lemma stream_inv_channel_closed: "stream_inv users opts c0 t p q lagged s \<Longrightarrow> stream_inv users opts c0 t p q lagged (stream_channel_closed s)"
  by (auto simp: stream_inv_def stream_channel_closed_def)

lemma between_self [simp]: "between h h T = []"
  by (auto simp: between_def)

lemma feed_inv_broadcast:
  assumes "feed_inv users opts c0 f"
  shows "feed_inv users opts c0 (feed_step users opts BroadcastEvents f)"
proof -
  obtain p q where pq: "event_invar users (fd_events f)" "fd_last f < vt_seq (fd_events f)" "q \<le> fd_last f"
      "rx_buffer (fd_rx f) = between q (fd_last f) (committed users (fd_events f))"
      "stream_inv users opts c0 (fd_events f) p q (rx_lagged (fd_rx f)) (fd_stream f)"
    using assms by (auto simp: feed_inv_def)
  obtain es l' wake where b: "broadcast_new_events users (fd_events f) (fd_last f) = (es, l', wake)" by (metis prod_cases3)
  note r = broadcast_new_events_range [OF pq(1) b pq(2)]
  show ?thesis
    by (rule feed_inv_intro [where q = q])
      (use b r pq between_append [OF committed_sorted [OF pq(1)] pq(3), of l'] in \<open>auto simp: push_messages_def\<close>)
qed

lemma feed_inv_receive:
  assumes "feed_inv users opts c0 f"
  shows "feed_inv users opts c0 (feed_step users opts Receive f)"
proof -
  let ?T = "committed users (fd_events f)"
  obtain p q where pq: "event_invar users (fd_events f)" "fd_last f < vt_seq (fd_events f)" "q \<le> fd_last f"
      "rx_buffer (fd_rx f) = between q (fd_last f) ?T"
      "stream_inv users opts c0 (fd_events f) p q (rx_lagged (fd_rx f)) (fd_stream f)"
    using assms by (auto simp: feed_inv_def)
  show ?thesis
  proof (cases "st_phase (fd_stream f) = Tailing \<and> \<not> rx_lagged (fd_rx f) \<and> rx_buffer (fd_rx f) \<noteq> []")
    case True
    then obtain e rest where e: "between q (fd_last f) ?T = e # rest" using pq(4) by (metis list.exhaust)
    note b = between_Cons [OF committed_sorted [OF pq(1)] e]
    show ?thesis
      by (rule feed_inv_intro [where q = "vn_id e"])
        (use True e pq b stream_inv_receive [OF pq(1) _ _ e, of opts c0 p "fd_stream f"] in \<open>auto simp: stream_receive_def\<close>)
  next
    case False
    then have "feed_step users opts Receive f = f \<or> feed_step users opts Receive f = f\<lparr>fd_stream := (fd_stream f)\<lparr>st_phase := Closed\<rparr>\<rparr>"
      by (auto simp: stream_receive_def split: list.splits)
    then show ?thesis
    proof
      assume "feed_step users opts Receive f = f\<lparr>fd_stream := (fd_stream f)\<lparr>st_phase := Closed\<rparr>\<rparr>"
      then show ?thesis using pq stream_inv_close [OF pq(5)] by (intro feed_inv_intro [where q = q]) auto
    qed (use assms in simp)
  qed
qed

lemma feed_inv_step:
  assumes inv: "feed_inv users opts c0 f" and "op_ok users op" and req: "forward_request opts c0"
  shows "feed_inv users opts c0 (feed_step users opts op f)"
proof -
  let ?T = "committed users (fd_events f)"
  obtain p q where pq: "event_invar users (fd_events f)" "fd_last f < vt_seq (fd_events f)" "q \<le> fd_last f"
      "rx_buffer (fd_rx f) = between q (fd_last f) ?T"
      "stream_inv users opts c0 (fd_events f) p q (rx_lagged (fd_rx f)) (fd_stream f)"
    using inv by (auto simp: feed_inv_def)
  show ?thesis
  proof (cases op)
    case (CommitEvent now user_id ty path)
    then show ?thesis using feed_inv_commit [OF inv] assms(2) by blast
  next
    case BroadcastEvents
    then show ?thesis using feed_inv_broadcast [OF inv] by simp
  next
    case (LagReceiver n)
    obtain q' where "q' \<le> fd_last f" "drop n (rx_buffer (fd_rx f)) = between q' (fd_last f) ?T"
      using drop_between [OF committed_sorted [OF pq(1)], of q "fd_last f" n] pq(3,4) by auto
    then show ?thesis using LagReceiver pq by (intro feed_inv_intro [where q = q']) (auto intro: stream_inv_lag)
  next
    case (Drain valid)
    obtain s' rx' where d: "stream_drain valid (fd_stream f, fd_rx f) = (s', rx')" by (metis prod.exhaust)
    note inv' = stream_inv_drain [OF pq(5) d refl, of "fd_last f"]
    show ?thesis
    proof (cases "rx_buffer rx' = rx_buffer (fd_rx f)")
      case True
      have "stream_inv users opts c0 (fd_events f) p q (rx_lagged rx') s'"
        using stream_inv_drain [OF pq(5) d refl, of q] by simp
      then show ?thesis using Drain d pq True by (intro feed_inv_intro [where q = q]) auto
    next
      case False
      then have "rx' \<noteq> fd_rx f" "rx_buffer rx' = []"
        using d by (auto simp: stream_drain_def split: if_splits)
      then show ?thesis using Drain d pq inv' by (intro feed_inv_intro [where q = "fd_last f"]) auto
    qed
  next
    case Fetch
    then show ?thesis
      using pq stream_inv_fetch [OF pq(1,5) req] by (intro feed_inv_intro [where q = q]) auto
  next
    case FetchError
    then show ?thesis using assms(2) by simp
  next
    case (Send valid)
    then show ?thesis using pq stream_inv_send [OF pq(1,5)] by (intro feed_inv_intro [where q = q]) auto
  next
    case Receive
    then show ?thesis using feed_inv_receive [OF inv] by simp
  next
    case (NextCheck valid)
    then show ?thesis using pq stream_inv_next_check [OF pq(5)] by (intro feed_inv_intro [where q = q]) auto
  next
    case ChannelClosed
    then show ?thesis using pq stream_inv_channel_closed [OF pq(5)] by (intro feed_inv_intro [where q = q]) auto
  qed
qed

lemma feed_inv_open:
  assumes "event_invar users t" and "last_id < vt_seq t" and "forward_request opts c0"
  shows "feed_inv users opts c0 (feed_open t last_id c0)"
proof (rule feed_inv_intro [where q = last_id])
  have none: "sent_upto users opts c0 t 0 = []"
    using committed_bound [OF assms(1)] by (auto simp: sent_upto_def filter_empty_conv)
  have "stream_inv users opts c0 t 0 last_id False (stream_start c0)"
    using none assms by (auto simp: stream_inv_def stream_start_def within_limit_def limit_reached_def forward_request_def
        split: option.splits)
  then show "\<exists>p. stream_inv users opts c0 (fd_events (feed_open t last_id c0)) p last_id
      (rx_lagged (fd_rx (feed_open t last_id c0))) (fd_stream (feed_open t last_id c0))"
    by (auto simp: feed_open_def)
qed (use assms in \<open>simp_all add: feed_open_def\<close>)

lemma feed_inv_run:
  "feed_inv users opts c0 f \<Longrightarrow> list_all (op_ok users) ops \<Longrightarrow> forward_request opts c0 \<Longrightarrow>
   feed_inv users opts c0 (feed_run users opts ops f)"
  by (induction ops arbitrary: f) (simp_all add: feed_run_def feed_inv_step)

lemma feed_inv_out:
  assumes "feed_inv users opts c0 f"
  shows "prefix (st_out (fd_stream f)) (wanted users opts c0 (fd_events f)) \<and> within_limit opts (length (st_out (fd_stream f)))"
proof -
  obtain p q where "event_invar users (fd_events f)"
      "stream_inv users opts c0 (fd_events f) p q (rx_lagged (fd_rx f)) (fd_stream f)"
    using assms by (auto simp: feed_inv_def)
  then show ?thesis using wanted_split [of users "fd_events f" opts c0 p] by (auto simp add: stream_inv_def)
qed

section \<open>A stream left alone catches up\<close>

definition settled :: "user_table \<Rightarrow> stream_options \<Rightarrow> stream_cursor \<Rightarrow> feed \<Rightarrow> bool" where
  "settled users opts c0 f \<longleftrightarrow> st_out (fd_stream f) = out_limit opts (wanted users opts c0 (fd_events f))"

lemma settled_iff:
  assumes "feed_inv users opts c0 f"
  shows "settled users opts c0 f \<longleftrightarrow> limit_reached opts (length (st_out (fd_stream f))) \<or>
    length (st_out (fd_stream f)) = length (wanted users opts c0 (fd_events f))"
proof -
  obtain r where "wanted users opts c0 (fd_events f) = st_out (fd_stream f) @ r"
    using feed_inv_out [OF assms] by (auto simp: prefix_def)
  moreover have "within_limit opts (length (st_out (fd_stream f)))" using feed_inv_out [OF assms] by simp
  ultimately show ?thesis
    by (cases "so_limit opts") (auto simp: settled_def out_limit_def within_limit_def limit_reached_def)
qed

text \<open>One turn of every participant, with a valid credential.\<close>

definition pump :: "feed_op list" where
  "pump = [Drain True, Fetch, Send True, BroadcastEvents, Receive]"

definition alive :: "user_table \<Rightarrow> stream_options \<Rightarrow> stream_cursor \<Rightarrow> feed \<Rightarrow> bool" where
  "alive users opts c0 f \<longleftrightarrow> feed_inv users opts c0 f \<and> \<not> rx_lagged (fd_rx f) \<and>
     (st_phase (fd_stream f) = Closed \<longrightarrow> settled users opts c0 f)"

fun phase_rank :: "stream_phase \<Rightarrow> nat" where
  "phase_rank Draining = 2"
| "phase_rank Fetching = 1"
| "phase_rank _ = 0"

definition unbroadcast :: "user_table \<Rightarrow> feed \<Rightarrow> event_entity list" where
  "unbroadcast users f = filter (\<lambda>e. fd_last f < vn_id e) (committed users (fd_events f))"

definition feed_work :: "user_table \<Rightarrow> stream_options \<Rightarrow> stream_cursor \<Rightarrow> feed \<Rightarrow> nat" where
  "feed_work users opts c0 f =
     3 * (length (wanted users opts c0 (fd_events f)) - length (st_out (fd_stream f))) + phase_rank (st_phase (fd_stream f)) +
     2 * length (unbroadcast users f) + length (rx_buffer (fd_rx f))"

fun enabled :: "user_table \<Rightarrow> feed_op \<Rightarrow> feed \<Rightarrow> bool" where
  "enabled users (Drain _) f \<longleftrightarrow> st_phase (fd_stream f) = Draining"
| "enabled users Fetch f \<longleftrightarrow> st_phase (fd_stream f) = Fetching"
| "enabled users (Send _) f \<longleftrightarrow> (\<exists>e rest. st_phase (fd_stream f) = Sending (e # rest))"
| "enabled users BroadcastEvents f \<longleftrightarrow> unbroadcast users f \<noteq> []"
| "enabled users Receive f \<longleftrightarrow> st_phase (fd_stream f) = Tailing \<and> rx_buffer (fd_rx f) \<noteq> []"
| "enabled users _ f \<longleftrightarrow> False"

lemma pump_ok: "list_all (op_ok users) pump"
  by (simp add: pump_def)

lemma idle:
  assumes "alive users opts c0 f" and "op \<in> set pump" and "\<not> enabled users op f"
  shows "feed_step users opts op f = f"
proof -
  have inv: "event_invar users (fd_events f)" "\<not> rx_lagged (fd_rx f)" using assms(1) by (simp_all add: alive_def feed_inv_def)
  have "broadcast_new_events users (fd_events f) (fd_last f) = ([], fd_last f, False)" if "unbroadcast users f = []"
  proof -
    have "broadcast_batch users (fd_events f) (fd_last f) = Ok []"
      using that by (simp add: broadcast_batch_def get_by_cursor_ok [OF inv(1)] unbroadcast_def)
    then show ?thesis by (simp add: broadcast_new_events_def MAX_BATCHES_PER_WAKE_def numeral_eq_Suc)
  qed
  then show ?thesis
    using assms(2,3) inv(2) unfolding pump_def
    by (auto simp: stream_drain_def stream_fetch_def stream_send_def stream_receive_def push_messages_def
        split: stream_phase.splits list.splits)
qed

text \<open>While something is left to send, some participant can move.\<close>

lemma some_enabled:
  assumes "alive users opts c0 f" and "\<not> settled users opts c0 f"
  shows "\<exists>op \<in> set pump. enabled users op f"
proof -
  let ?T = "committed users (fd_events f)"
  have inv: "feed_inv users opts c0 f" "\<not> rx_lagged (fd_rx f)" "st_phase (fd_stream f) \<noteq> Closed"
    using assms by (auto simp: alive_def)
  then obtain p q where pq: "event_invar users (fd_events f)" "rx_buffer (fd_rx f) = between q (fd_last f) ?T"
      "stream_inv users opts c0 (fd_events f) p q False (fd_stream f)"
    by (auto simp: feed_inv_def)
  show ?thesis
  proof (cases "st_phase (fd_stream f)")
    case (Sending es)
    then have "es \<noteq> []" using pq(3) by (simp add: stream_inv_def)
    then show ?thesis using Sending by (cases es) (auto simp: pump_def)
  next
    case Tailing
    then have s: "q \<le> p" "st_out (fd_stream f) = sent_upto users opts c0 (fd_events f) p" using pq(3) by (simp_all add: stream_inv_def)
    have "length (st_out (fd_stream f)) \<noteq> length (wanted users opts c0 (fd_events f))"
      using assms(2) settled_iff [OF inv(1)] by blast
    then have "owed_after users opts c0 (fd_events f) p \<noteq> []"
      using wanted_split [OF pq(1), of opts c0 p] s(2) by auto
    then obtain x where "x \<in> set (owed_after users opts c0 (fd_events f) p)" by (meson last_in_set)
    then have x: "x \<in> set ?T" "q < vn_id x" using s(1) by (auto simp: owed_after_def)
    show ?thesis
    proof (cases "vn_id x \<le> fd_last f")
      case True
      then have "x \<in> set (rx_buffer (fd_rx f))" using x pq(2) by (simp add: between_def)
      then show ?thesis using Tailing by (auto simp: pump_def)
    next
      case False
      then have "x \<in> set (unbroadcast users f)" using x(1) by (simp add: unbroadcast_def)
      then have "enabled users BroadcastEvents f" by auto
      then show ?thesis by (auto simp: pump_def)
    qed
  qed (use inv(3) in \<open>auto simp: pump_def\<close>)
qed

lemma yield_settles:
  assumes "feed_inv users opts c0 f'" and "fd_stream f' = stream_yield opts next_phase e s"
    and "st_total_sent s = length (st_out s)" and "next_phase \<noteq> Closed" and "st_phase (fd_stream f') = Closed"
  shows "settled users opts c0 f'"
  using assms(2-) unfolding settled_iff [OF assms(1)] by (simp add: stream_yield_def Let_def split: if_splits)

lemma yield_work:
  assumes "feed_inv users opts c0 f'" and "fd_stream f' = stream_yield opts next_phase e (fd_stream f)"
    and "fd_events f' = fd_events f" and "fd_last f' = fd_last f"
    and "phase_rank next_phase + length (rx_buffer (fd_rx f')) < 3 + length (rx_buffer (fd_rx f))"
  shows "feed_work users opts c0 f' < feed_work users opts c0 f"
proof -
  have "length (st_out (fd_stream f')) = Suc (length (st_out (fd_stream f)))"
    using assms(2) by (simp add: stream_yield_def Let_def)
  moreover have "length (st_out (fd_stream f')) \<le> length (wanted users opts c0 (fd_events f))"
    using feed_inv_out [OF assms(1)] assms(3) by (auto dest: prefix_length_le)
  moreover have "phase_rank (st_phase (fd_stream f')) \<le> phase_rank next_phase"
    using assms(2) by (simp add: stream_yield_def Let_def)
  ultimately show ?thesis using assms(3-5) by (simp add: feed_work_def unbroadcast_def)
qed

lemma unbroadcast_split:
  assumes "event_invar users (fd_events f)" and "fd_last f \<le> l'"
  shows "unbroadcast users f = between (fd_last f) l' (committed users (fd_events f)) @ unbroadcast users (f\<lparr>fd_last := l'\<rparr>)"
proof (rule strict_sorted_key_unique [where f = vn_id])
  show "increasing (between (fd_last f) l' (committed users (fd_events f)) @ unbroadcast users (f\<lparr>fd_last := l'\<rparr>))"
    using committed_sorted [OF assms(1)] by (auto simp: sorted_wrt_append between_def unbroadcast_def sorted_wrt_filter)
  show "set (unbroadcast users f) = set (between (fd_last f) l' (committed users (fd_events f)) @ unbroadcast users (f\<lparr>fd_last := l'\<rparr>))"
    using assms(2) by (auto simp: between_def unbroadcast_def)
qed (use committed_sorted [OF assms(1)] in \<open>simp add: unbroadcast_def sorted_wrt_filter\<close>)

definition progress :: "user_table \<Rightarrow> stream_options \<Rightarrow> stream_cursor \<Rightarrow> feed \<Rightarrow> feed \<Rightarrow> bool" where
  "progress users opts c0 f f' \<longleftrightarrow> alive users opts c0 f' \<and> fd_events f' = fd_events f \<and>
     length (st_out (fd_stream f)) \<le> length (st_out (fd_stream f')) \<and> feed_work users opts c0 f' < feed_work users opts c0 f"

lemma progress_drain:
  assumes "alive users opts c0 f" and "feed_inv users opts c0 (feed_step users opts (Drain True) f)"
    and "enabled users (Drain True) f"
  shows "progress users opts c0 f (feed_step users opts (Drain True) f)"
  using assms by (auto simp: progress_def alive_def stream_drain_def feed_work_def unbroadcast_def)

lemma progress_fetch:
  assumes "alive users opts c0 f" and inv': "feed_inv users opts c0 (feed_step users opts Fetch f)"
    and "enabled users Fetch f" and req: "forward_request opts c0"
  shows "progress users opts c0 f (feed_step users opts Fetch f)"
proof -
  obtain p q where pq: "event_invar users (fd_events f)"
      "stream_inv users opts c0 (fd_events f) p q (rx_lagged (fd_rx f)) (fd_stream f)"
    using assms(1) by (auto simp: alive_def feed_inv_def)
  have "\<not> rx_lagged (fd_rx f)" using assms(1) by (simp add: alive_def)
  have fetching: "st_phase (fd_stream f) = Fetching" using assms(3) by simp
  from pq req fetching show ?thesis
  proof (cases rule: stream_fetch_cases)
    case caught_up
    have "st_out (fd_stream f) = wanted users opts c0 (fd_events f)"
      using wanted_split [OF pq(1), of opts c0 p] caught_up(1) pq(2) by (simp add: stream_inv_def)
    then have "settled users opts c0 (feed_step users opts Fetch f)"
      unfolding settled_iff [OF inv'] using caught_up(2) by simp
    then show ?thesis
      using inv' caught_up(2) fetching \<open>\<not> rx_lagged (fd_rx f)\<close>
      by (auto simp: progress_def alive_def feed_work_def unbroadcast_def after_replay_def)
  next
    case (batch es)
    then show ?thesis
      using inv' fetching \<open>\<not> rx_lagged (fd_rx f)\<close> by (auto simp: progress_def alive_def feed_work_def unbroadcast_def)
  qed
qed

lemma progress_send:
  assumes "alive users opts c0 f" and inv': "feed_inv users opts c0 (feed_step users opts (Send True) f)"
    and "enabled users (Send True) f"
  shows "progress users opts c0 f (feed_step users opts (Send True) f)"
proof -
  let ?f = "feed_step users opts (Send True) f"
  obtain e rest where ph: "st_phase (fd_stream f) = Sending (e # rest)" using assms(3) by auto
  let ?next = "if rest = [] then Draining else Sending rest"
  have y: "fd_stream ?f = stream_yield opts ?next e (fd_stream f)" using ph by (simp add: stream_send_def)
  have "st_total_sent (fd_stream f) = length (st_out (fd_stream f))" "\<not> rx_lagged (fd_rx f)"
    using assms(1) by (auto simp: alive_def feed_inv_def stream_inv_def)
  then have "alive users opts c0 ?f"
    using inv' yield_settles [OF inv' y] by (simp add: alive_def)
  moreover have "feed_work users opts c0 ?f < feed_work users opts c0 f"
    by (rule yield_work [OF inv' y]) simp_all
  ultimately show ?thesis using y by (simp add: progress_def stream_yield_def Let_def)
qed

lemma progress_broadcast:
  assumes "alive users opts c0 f" and inv': "feed_inv users opts c0 (feed_step users opts BroadcastEvents f)"
    and "enabled users BroadcastEvents f"
  shows "progress users opts c0 f (feed_step users opts BroadcastEvents f)"
proof -
  let ?f = "feed_step users opts BroadcastEvents f"
  have f: "event_invar users (fd_events f)" "fd_last f < vt_seq (fd_events f)"
    using assms(1) by (simp_all add: alive_def feed_inv_def)
  obtain es l' wake where b: "broadcast_new_events users (fd_events f) (fd_last f) = (es, l', wake)" by (metis prod_cases3)
  note r = broadcast_new_events_range [OF f(1) b f(2)]
  have "\<exists>e \<in> set (committed users (fd_events f)). fd_last f < vn_id e"
    using assms(3) by (auto simp: unbroadcast_def filter_empty_conv)
  then have "es \<noteq> []" using r by (auto simp add: MAX_BATCHES_PER_WAKE_def)
  moreover have "unbroadcast users f = es @ unbroadcast users ?f"
    using unbroadcast_split [OF f(1), of l'] r b by (simp add: unbroadcast_def)
  ultimately have "feed_work users opts c0 ?f < feed_work users opts c0 f"
    using b by (simp add: feed_work_def push_messages_def)
  then show ?thesis
    using assms(1) inv' b settled_iff [OF inv'] settled_iff [of users opts c0 f]
    by (simp add: progress_def alive_def push_messages_def)
qed

lemma progress_receive:
  assumes "alive users opts c0 f" and inv': "feed_inv users opts c0 (feed_step users opts Receive f)"
    and "enabled users Receive f"
  shows "progress users opts c0 f (feed_step users opts Receive f)"
proof -
  let ?f = "feed_step users opts Receive f"
  have f: "\<not> rx_lagged (fd_rx f)" "st_phase (fd_stream f) = Tailing" "st_total_sent (fd_stream f) = length (st_out (fd_stream f))"
    using assms(1,3) by (auto simp: alive_def feed_inv_def stream_inv_def)
  obtain e rest where buf: "rx_buffer (fd_rx f) = e # rest" using assms(3) by (cases "rx_buffer (fd_rx f)") auto
  show ?thesis
  proof (cases "accepts_live (st_cursor (fd_stream f)) (so_paths opts) e")
    case True
    then have step: "?f = f\<lparr>fd_stream := stream_yield opts Tailing e (fd_stream f), fd_rx := (fd_rx f)\<lparr>rx_buffer := rest\<rparr>\<rparr>"
      using f buf by (simp add: stream_receive_def)
    then have y: "fd_stream ?f = stream_yield opts Tailing e (fd_stream f)" by simp
    have "alive users opts c0 ?f"
      using inv' yield_settles [OF inv' y f(3)] f(1) step by (simp add: alive_def)
    moreover have "feed_work users opts c0 ?f < feed_work users opts c0 f"
      by (rule yield_work [OF inv' y]) (use step buf in simp_all)
    ultimately show ?thesis using step by (simp add: progress_def stream_yield_def Let_def)
  next
    case False
    then have "?f = f\<lparr>fd_rx := (fd_rx f)\<lparr>rx_buffer := rest\<rparr>\<rparr>" using f buf by (simp add: stream_receive_def)
    then show ?thesis
      using assms(1) inv' f buf by (simp add: progress_def alive_def feed_work_def unbroadcast_def)
  qed
qed

lemma progress_step:
  assumes "alive users opts c0 f" and "op \<in> set pump" and "enabled users op f" and "forward_request opts c0"
  shows "progress users opts c0 f (feed_step users opts op f)"
proof -
  have "feed_inv users opts c0 f" using assms(1) by (simp add: alive_def)
  then have inv': "feed_inv users opts c0 (feed_step users opts op f)"
    using feed_inv_step [OF _ _ assms(4)] pump_ok [of users] assms(2) by (auto simp: list_all_iff)
  consider "op = Drain True" | "op = Fetch" | "op = Send True" | "op = BroadcastEvents" | "op = Receive"
    using assms(2) by (auto simp: pump_def)
  then show ?thesis
    using assms(1,3,4) inv' progress_drain progress_fetch progress_send progress_broadcast progress_receive
    by cases blast+
qed

lemma settled_mono:
  assumes "feed_inv users opts c0 f" and "feed_inv users opts c0 f'" and "fd_events f' = fd_events f"
    and "length (st_out (fd_stream f)) \<le> length (st_out (fd_stream f'))" and "settled users opts c0 f"
  shows "settled users opts c0 f'"
  using assms(3-5) feed_inv_out [OF assms(2)] unfolding settled_iff [OF assms(1)] settled_iff [OF assms(2)]
  by (auto simp: limit_reached_def dest: prefix_length_le split: option.splits)

lemma quiet_run:
  assumes "alive users opts c0 f" and "set ops \<subseteq> set pump" and "forward_request opts c0"
  shows "(feed_run users opts ops f = f \<and> (\<forall>op \<in> set ops. \<not> enabled users op f)) \<or>
    progress users opts c0 f (feed_run users opts ops f)"
  using assms(1,2)
proof (induction ops arbitrary: f)
  case Nil
  then show ?case by (simp add: feed_run_def)
next
  case (Cons op ops)
  let ?f = "feed_step users opts op f"
  have run: "feed_run users opts (op # ops) f = feed_run users opts ops ?f" by (simp add: feed_run_def)
  show ?case
  proof (cases "enabled users op f")
    case True
    have p: "progress users opts c0 f ?f" using progress_step [OF Cons.prems(1) _ True assms(3)] Cons.prems(2) by simp
    then have "alive users opts c0 ?f" by (simp add: progress_def)
    from Cons.IH [OF this] Cons.prems(2) p show ?thesis unfolding run by (auto simp: progress_def)
  next
    case False
    then have "?f = f" using idle [OF Cons.prems(1)] Cons.prems(2) by simp
    then show ?thesis using Cons.IH [OF Cons.prems(1)] Cons.prems(2) False unfolding run by simp
  qed
qed

lemma pump_settles:
  assumes "alive users opts c0 f" and "feed_work users opts c0 f < n" and "forward_request opts c0"
  shows "settled users opts c0 (feed_run users opts (concat (replicate n pump)) f) \<and>
    fd_events (feed_run users opts (concat (replicate n pump)) f) = fd_events f"
  using assms(1,2)
proof (induction n arbitrary: f)
  case (Suc n)
  let ?f = "feed_run users opts pump f"
  have run: "feed_run users opts (concat (replicate (Suc n) pump)) f = feed_run users opts (concat (replicate n pump)) ?f"
    by (simp add: feed_run_def)
  consider "?f = f" "\<forall>op \<in> set pump. \<not> enabled users op f" | "progress users opts c0 f ?f"
    using quiet_run [OF Suc.prems(1) subset_refl assms(3)] by blast
  then show ?case
  proof cases
    case 1
    have stay: "feed_run users opts (concat (replicate m pump)) f = f" for m
      by (induction m) (use 1(1) in \<open>simp_all add: feed_run_def\<close>)
    have "settled users opts c0 f" using some_enabled [OF Suc.prems(1)] 1(2) by blast
    then show ?thesis unfolding run 1(1) stay by simp
  next
    case 2
    then show ?thesis using Suc.IH [of ?f] Suc.prems(2) unfolding run progress_def by simp
  qed
qed simp

section \<open>Delivery\<close>



section \<open>Examples\<close>

definition example_log :: event_table where
  "example_log = \<lparr>vt_rows = [\<lparr>ev_id = 1, ev_user = 1, ev_type = ''DEL'', ev_path = ''/pub/z'', ev_created_at = 0, ev_hash = None\<rparr>],
     vt_seq = 2\<rparr>"

definition example_stream :: stream_options where
  "example_stream = \<lparr>so_paths = [], so_mode = ForwardLive, so_limit = None\<rparr>"

abbreviation example_commit :: feed_op where
  "example_commit \<equiv> CommitEvent 5 1 (PutEvent (replicate 32 (CHR ''h''))) (entry_path_new (PublicKey ''a'') (StoragePath ''/pub/d/x''))"

lemma example_log_invar: "event_invar example_users example_log"
  using example_canonical(1)
  by (simp add: event_invar_def example_log_def event_row_wf_def owner_key_def example_users_def row_of_Cons)

lemma example_commit_ok: "op_ok example_users example_commit"
  using example_canonical(2) by (simp add: owner_key_def example_users_def row_of_Cons entry_path_new_def)

lemma example_request: "forward_request example_stream (Global None None)"
  by (simp add: forward_request_def cursor_wf_def example_stream_def)



text \<open>A query that fails during the replay of a live stream is not retried: the stream
  goes on to the live tail and the history it had not sent is skipped, although the
  connection stays open.  Here event 1 is never sent and event 2 is.\<close>

lemma fetch_error_skips_history:
  "map vn_id (st_out (fd_stream (feed_run example_users example_stream
     [Drain True, FetchError, example_commit, BroadcastEvents, Receive] (feed_open example_log 1 (Global None None))))) = [2] \<and>
   map vn_id (wanted example_users example_stream (Global None None) (fd_events (feed_run example_users example_stream
     [Drain True, FetchError, example_commit, BroadcastEvents, Receive] (feed_open example_log 1 (Global None None))))) = [1, 2]"
  by code_simp

end
