(* ===== verification/Blob_Store.thy ===== *)
theory Blob_Store
  imports Entry_Path
begin

text \<open>
  Blobs: the errors of the storage layers (\<^verbatim>\<open>persistence/files/layer_domain_error.rs\<close>,
  \<^verbatim>\<open>file/file_io_error.rs\<close>), the metadata gathered while a file is uploaded
  (\<^verbatim>\<open>file/file_metadata.rs\<close>), and the layer that publishes an upload by a conditional
  copy (\<^verbatim>\<open>staged_publish_layer.rs\<close>).  The object store underneath is a third-party
  service: its requests are the fields of a record, over a state of any type, and
  what a property needs of them is a named hypothesis.  The hash function and the
  guesses of a content type are parameters.
\<close>

section \<open>Model: errors\<close>

datatype error_kind =
    Unexpected
  | Unsupported
  | NotFound
  | PermissionDenied
  | AlreadyExists
  | RateLimited
  | ConditionNotMatch
  | OtherKind

datatype layer_domain_error =
    WritePathForbidden
  | DiskSpaceQuotaExceeded
  | PathCollision
  | LockLost
  | PublishConflict

record opendal_error =
  oe_kind :: error_kind
  oe_source :: "layer_domain_error option"

definition opendal_err :: "error_kind \<Rightarrow> opendal_error" where
  "opendal_err k = \<lparr>oe_kind = k, oe_source = None\<rparr>"

definition domain_err :: "error_kind \<Rightarrow> layer_domain_error \<Rightarrow> opendal_error" where
  "domain_err k d = \<lparr>oe_kind = k, oe_source = Some d\<rparr>"

definition parse_opendal :: "key_parser \<Rightarrow> string \<Rightarrow> (opendal_error, entry_path) result" where
  "parse_opendal try_from_z32 path = map_err (\<lambda>_. opendal_err Unexpected) (entry_path_from_str try_from_z32 path)"

section \<open>Model: file metadata\<close>

definition DEFAULT_CONTENT_TYPE :: string where "DEFAULT_CONTENT_TYPE = ''application/octet-stream''"

record file_metadata =
  fm_hash :: string
  fm_length :: nat
  fm_content_type :: string

text \<open>The hasher is the data it has absorbed.\<close>

record file_metadata_builder =
  mb_hasher :: string
  mb_length :: nat
  mb_path_content_type :: "string option"
  mb_magic_bytes_content_type :: "string option"

record content_env =
  cn_hash :: "string \<Rightarrow> string"
  cn_infer :: "string \<Rightarrow> string option"
  cn_mime_guess :: "string \<Rightarrow> string"

definition builder_default :: file_metadata_builder where
  "builder_default =
     \<lparr>mb_hasher = [], mb_length = 0, mb_path_content_type = None, mb_magic_bytes_content_type = None\<rparr>"

definition builder_update :: "content_env \<Rightarrow> string \<Rightarrow> file_metadata_builder \<Rightarrow> file_metadata_builder" where
  "builder_update env chunk b =
     (let is_first_chunk = (mb_length b = 0);
          b = (if is_first_chunk
               then (case cn_infer env chunk of Some t \<Rightarrow> b\<lparr>mb_magic_bytes_content_type := Some t\<rparr> | None \<Rightarrow> b)
               else b)
      in b\<lparr>mb_hasher := mb_hasher b @ chunk, mb_length := mb_length b + length chunk\<rparr>)"

definition guess_mime_type_from_path :: "content_env \<Rightarrow> string \<Rightarrow> file_metadata_builder \<Rightarrow> file_metadata_builder" where
  "guess_mime_type_from_path env path b = b\<lparr>mb_path_content_type := Some (cn_mime_guess env path)\<rparr>"

definition derived_content_type :: "file_metadata_builder \<Rightarrow> string" where
  "derived_content_type b =
     (case mb_magic_bytes_content_type b of
        Some t \<Rightarrow> t
      | None \<Rightarrow> (case mb_path_content_type b of Some t \<Rightarrow> t | None \<Rightarrow> DEFAULT_CONTENT_TYPE))"

definition builder_finalize :: "content_env \<Rightarrow> file_metadata_builder \<Rightarrow> file_metadata" where
  "builder_finalize env b =
     \<lparr>fm_hash = cn_hash env (mb_hasher b), fm_length = mb_length b, fm_content_type = derived_content_type b\<rparr>"

section \<open>Model: the object store\<close>

record object_meta =
  om_length :: nat
  om_version :: "string option"
  om_etag :: "string option"

text \<open>What a delete request carries.\<close>

record op_delete =
  od_version :: "string option"
  od_recursive :: bool
  od_if_match :: "string option"
  od_if_none_match :: "string option"
  od_if_version_match :: "string option"
  od_if_version_not_match :: "string option"

definition op_delete_default :: op_delete where
  "op_delete_default = \<lparr>od_version = None, od_recursive = False, od_if_match = None, od_if_none_match = None,
     od_if_version_match = None, od_if_version_not_match = None\<rparr>"

text \<open>The requests of a backend: stat; a read on the condition of an etag; the close
  that ends an upload of some bytes; aborting an upload; a copy on the condition of a
  version; and a delete.\<close>

record 'b object_store =
  os_stat :: "string \<Rightarrow> 'b \<Rightarrow> (opendal_error, object_meta) result"
  os_read :: "string \<Rightarrow> string option \<Rightarrow> 'b \<Rightarrow> (opendal_error, string) result"
  os_chunk :: "string \<Rightarrow> string \<Rightarrow> 'b \<Rightarrow> (opendal_error, unit) result \<times> 'b"
  os_close :: "string \<Rightarrow> string \<Rightarrow> 'b \<Rightarrow> (opendal_error, unit) result \<times> 'b"
  os_abort :: "string \<Rightarrow> 'b \<Rightarrow> (opendal_error, unit) result \<times> 'b"
  os_copy :: "string \<Rightarrow> string \<Rightarrow> string \<Rightarrow> 'b \<Rightarrow> (opendal_error, unit) result \<times> 'b"
  os_delete :: "string \<Rightarrow> op_delete \<Rightarrow> 'b \<Rightarrow> (opendal_error, unit) result \<times> 'b"

section \<open>Model: generations\<close>

datatype expected_generation = Absent | Known nat

definition NO_OBJECT_GENERATION :: nat where "NO_OBJECT_GENERATION = 0"

definition STAGING_PREFIX :: string where "STAGING_PREFIX = ''.staging/''"

fun version_condition :: "expected_generation \<Rightarrow> string" where
  "version_condition Absent = show_nat NO_OBJECT_GENERATION"
| "version_condition (Known g) = show_nat g"

definition parse_generation :: "string \<Rightarrow> (opendal_error, expected_generation) result" where
  "parse_generation version = map_ok Known (ok_or (opendal_err Unexpected) (parse_uint 64 version))"

definition live_generation ::
  "'b object_store \<Rightarrow> string \<Rightarrow> 'b \<Rightarrow> (opendal_error, expected_generation option) result" where
  "live_generation os path b =
     (case os_stat os path b of
        Inr meta \<Rightarrow>
          (case om_version meta of
             None \<Rightarrow> Ok None
           | Some version \<Rightarrow> map_ok Some (parse_generation version))
      | Inl e \<Rightarrow> if oe_kind e = NotFound then Ok (Some Absent) else Err e)"

section \<open>Model: publishing by a conditional copy\<close>

definition publish_conflict :: opendal_error where
  "publish_conflict = domain_err ConditionNotMatch PublishConflict"

definition no_generation :: opendal_error where
  "no_generation = opendal_err Unsupported"

definition condition_of_its_own :: opendal_error where
  "condition_of_its_own = opendal_err Unsupported"

definition refused_as_conflict :: "(opendal_error, 'a) result \<Rightarrow> (opendal_error, 'a) result" where
  "refused_as_conflict r =
     (case r of Inl e \<Rightarrow> if oe_kind e = ConditionNotMatch then Err publish_conflict else r | Inr _ \<Rightarrow> r)"

datatype upload_state = UploadOpen | UploadStaged | UploadDone

record staged_writer =
  sw_staging :: string
  sw_path :: string
  sw_written :: string
  sw_upload :: upload_state

definition staged_open :: "string \<Rightarrow> string \<Rightarrow> staged_writer" where
  "staged_open uuid path =
     \<lparr>sw_staging = STAGING_PREFIX @ uuid, sw_path = path, sw_written = [], sw_upload = UploadOpen\<rparr>"

definition staged_write ::
  "'b object_store \<Rightarrow> string \<Rightarrow> staged_writer \<Rightarrow> 'b \<Rightarrow> (opendal_error, unit) result \<times> staged_writer \<times> 'b" where
  "staged_write os chunk w b =
     (case os_chunk os (sw_staging w) chunk b of
        (r, b) \<Rightarrow> (r, w\<lparr>sw_written := (case r of Inr _ \<Rightarrow> sw_written w @ chunk | Inl _ \<Rightarrow> sw_written w)\<rparr>, b))"

definition remove_staging :: "'b object_store \<Rightarrow> staged_writer \<Rightarrow> 'b \<Rightarrow> staged_writer \<times> 'b" where
  "remove_staging os w b =
     (if sw_upload w \<noteq> UploadStaged then (w, b)
      else (w\<lparr>sw_upload := UploadDone\<rparr>, snd (os_delete os (sw_staging w) op_delete_default b)))"

definition staged_close ::
  "'b object_store \<Rightarrow> expected_generation option \<Rightarrow> staged_writer \<Rightarrow> 'b \<Rightarrow>
   (opendal_error, unit) result \<times> staged_writer \<times> 'b" where
  "staged_close os expected_generation w b =
     (case os_close os (sw_staging w) (sw_written w) b of
        (Inl e, b) \<Rightarrow> (Err e, w\<lparr>sw_upload := UploadDone\<rparr>, b)
      | (Inr _, b) \<Rightarrow>
          let w = w\<lparr>sw_upload := UploadStaged\<rparr>;
              (published, b) = (case expected_generation of
                  Some expected \<Rightarrow>
                    (case os_copy os (sw_staging w) (sw_path w) (version_condition expected) b of
                       (published, b) \<Rightarrow> (refused_as_conflict published, b))
                | None \<Rightarrow> (Err no_generation, b));
              (w, b) = remove_staging os w b
          in (published, w, b))"

definition staged_abort ::
  "'b object_store \<Rightarrow> staged_writer \<Rightarrow> 'b \<Rightarrow> (opendal_error, unit) result \<times> staged_writer \<times> 'b" where
  "staged_abort os w b =
     (case sw_upload w of
        UploadOpen \<Rightarrow> (case os_abort os (sw_staging w) b of (r, b) \<Rightarrow> (r, w\<lparr>sw_upload := UploadDone\<rparr>, b))
      | UploadStaged \<Rightarrow> (Ok (), remove_staging os w b)
      | UploadDone \<Rightarrow> (Ok (), w, b))"

definition carries_condition :: "op_delete \<Rightarrow> bool" where
  "carries_condition args \<longleftrightarrow> od_if_match args \<noteq> None \<or> od_if_none_match args \<noteq> None \<or>
     od_if_version_match args \<noteq> None \<or> od_if_version_not_match args \<noteq> None"

definition conditional_on :: "op_delete \<Rightarrow> expected_generation \<Rightarrow> op_delete" where
  "conditional_on args expected =
     op_delete_default\<lparr>od_version := od_version args, od_recursive := od_recursive args,
       od_if_version_match := Some (version_condition expected)\<rparr>"

definition conditional_delete ::
  "'b object_store \<Rightarrow> expected_generation option \<Rightarrow> string \<Rightarrow> op_delete \<Rightarrow> 'b \<Rightarrow> (opendal_error, unit) result \<times> 'b" where
  "conditional_delete os expected_generation path args b =
     (if carries_condition args then (Err condition_of_its_own, b)
      else case expected_generation of
             None \<Rightarrow> (Err no_generation, b)
           | Some expected \<Rightarrow>
               (case os_delete os path (conditional_on args expected) b of
                  (deleted, b) \<Rightarrow> (refused_as_conflict deleted, b)))"

section \<open>Lemmas\<close>

lemma opendal_err_sel [simp]: "oe_kind (opendal_err k) = k" "oe_source (opendal_err k) = None"
  by (simp_all add: opendal_err_def)

lemma domain_err_sel [simp]: "oe_kind (domain_err k d) = k" "oe_source (domain_err k d) = Some d"
  by (simp_all add: domain_err_def)

text \<open>The chunks of an upload: hash and length are of their concatenation, and a type
  inferred from the first non-empty chunk comes before the guess from the path.\<close>

lemma builder_fold:
  "mb_hasher (fold (builder_update env) chunks b) = mb_hasher b @ concat chunks \<and>
   mb_length (fold (builder_update env) chunks b) = mb_length b + length (concat chunks)"
  by (induction chunks arbitrary: b) (simp_all add: builder_update_def Let_def split: option.splits)

end
