(* ===== verification/File_Store.thy ===== *)
theory File_Store
  imports Event_Stream Entry_Lock Blob_Store
begin

text \<open>
  Writing and deleting files (\<^verbatim>\<open>persistence/files\<close>): the layer that finalizes a write
  or delete in one transaction with its entry, its event and the quota of the user
  (\<^verbatim>\<open>write_finalization_layer\<close>), the lock a write runs under
  (\<^verbatim>\<open>write_finalization_layer/write_lock.rs\<close>), the checks before a write
  (\<^verbatim>\<open>write_check.rs\<close>, \<^verbatim>\<open>write_path_layer.rs\<close>), and the services over them
  (\<^verbatim>\<open>file/file_service.rs\<close>, \<^verbatim>\<open>opendal/opendal_service.rs\<close>).  A finalization holds the
  row of the user, so finalizations of one user do not overlap: each is one step.
  Which statements of a transaction the database fails, and how a commit ends, are
  inputs of the step, and so is the object store.
\<close>

section \<open>Model: the quota check\<close>

definition would_exceed_limit :: "nat \<Rightarrow> int \<Rightarrow> nat option \<Rightarrow> bool" where
  "would_exceed_limit current_bytes bytes_delta max_bytes =
     (case max_bytes of
        None \<Rightarrow> False
      | Some m \<Rightarrow> let new_total = int current_bytes + bytes_delta in new_total > 0 \<and> new_total > int m)"

definition resolve_storage_max_bytes ::
  "(string \<Rightarrow> storage_path list option) \<Rightarrow> user_entity \<Rightarrow> nat option \<Rightarrow> nat option" where
  "resolve_storage_max_bytes from_json user default_storage_mb =
     map_option (\<lambda>mb. saturating_mul mb (1024 * 1024))
       (resolve_with_default (uq_storage_quota_mb (user_entity_quota from_json user)) default_storage_mb)"

section \<open>Model: the store\<close>

text \<open>The tables a finalization changes.\<close>

record tables =
  tb_users :: user_table
  tb_entries :: entry_table
  tb_events :: event_table

record 'b store =
  fs_users :: user_service
  fs_entries :: entry_table
  fs_events :: event_table
  fs_locks :: lock_table
  fs_blobs :: 'b

definition tables_of :: "'b store \<Rightarrow> tables" where
  "tables_of s = \<lparr>tb_users = us_db (fs_users s), tb_entries = fs_entries s, tb_events = fs_events s\<rparr>"

definition commit_tables :: "tables \<Rightarrow> 'b store \<Rightarrow> 'b store" where
  "commit_tables tb s =
     s\<lparr>fs_users := (fs_users s)\<lparr>us_db := tb_users tb\<rparr>, fs_entries := tb_entries tb, fs_events := tb_events tb\<rparr>"

text \<open>The statements of a finalization transaction, in order, and how its commit ends:
  it succeeds, it fails, or it succeeds and the answer is lost.\<close>

datatype db_call =
    DbBegin
  | DbLockUser
  | DbHoldLock
  | DbCheckCollision
  | DbLoadEntry
  | DbAlive
  | DbChangeEntry
  | DbCreateEvent
  | DbUpdateUser
  | DbRollback

datatype commit_outcome = Committed | CommitRefused | CommitUnanswered

record db_run =
  db_fails :: "db_call \<Rightarrow> bool"
  db_commit :: commit_outcome
  db_now :: int
  db_clock :: int

definition db_query :: "db_run \<Rightarrow> db_call \<Rightarrow> (sql_error, 'a) result \<Rightarrow> (sql_error option, 'a) result" where
  "db_query db call r = (if db_fails db call then Err None else map_err Some r)"

abbreviation unexpected :: opendal_error where
  "unexpected \<equiv> opendal_err Unexpected"

definition or_unexpected :: "(sql_error option, 'a) result \<Rightarrow> (opendal_error, 'a) result" where
  "or_unexpected r = map_err (\<lambda>_. unexpected) r"

text \<open>The environment: the parser of stored quota columns, the backend and whether
  it publishes through the staging layer, the content functions, and the configured
  default quota.\<close>

record 'b store_env =
  se_from_json :: "string \<Rightarrow> storage_path list option"
  se_key_parser :: key_parser
  se_object_store :: "'b object_store"
  se_staged :: bool
  se_content :: content_env
  se_default_storage_mb :: "nat option"

datatype collision_policy = Enforce | AllowLegacyAdminRepair

definition from_enforcement :: "bool \<Rightarrow> collision_policy" where
  "from_enforcement enforce = (if enforce then Enforce else AllowLegacyAdminRepair)"

fun enforces_collisions :: "collision_policy \<Rightarrow> bool" where
  "enforces_collisions Enforce = True"
| "enforces_collisions AllowLegacyAdminRepair = False"

section \<open>Model: the lock of a write\<close>

definition lock_lost_error :: opendal_error where
  "lock_lost_error = domain_err ConditionNotMatch LockLost"

definition write_lock_hold :: "db_run \<Rightarrow> string option \<Rightarrow> entry_path \<Rightarrow> lock_table \<Rightarrow> (opendal_error, unit) result" where
  "write_lock_hold db current_token path locks =
     (case current_token of
        None \<Rightarrow> Ok ()
      | Some token \<Rightarrow>
          and_then (or_unexpected (db_query db DbHoldLock (Ok (hold (db_clock db) (ep_key path) token locks)))) (\<lambda>held.
          ensure held lock_lost_error))"

section \<open>Model: checks under the lock\<close>

definition path_collision_error :: opendal_error where
  "path_collision_error = domain_err AlreadyExists PathCollision"

definition check_no_path_collision :: "db_run \<Rightarrow> entry_path \<Rightarrow> tables \<Rightarrow> (opendal_error, unit) result" where
  "check_no_path_collision db path tb =
     and_then (or_unexpected (db_query db DbCheckCollision
       (Ok (has_file_folder_collision path (tb_users tb) (tb_entries tb))))) (\<lambda>has_collision.
     ensure (\<not> has_collision) path_collision_error)"

definition collision_preflight ::
  "collision_policy \<Rightarrow> db_run \<Rightarrow> entry_path \<Rightarrow> tables \<Rightarrow> (opendal_error, unit) result" where
  "collision_preflight policy db path tb =
     (if \<not> enforces_collisions policy then Ok () else check_no_path_collision db path tb)"

definition generation_under_lock ::
  "'b store_env \<Rightarrow> db_run \<Rightarrow> entry_path \<Rightarrow> 'b \<Rightarrow> (opendal_error, expected_generation option) result" where
  "generation_under_lock env db path blobs =
     and_then (live_generation (se_object_store env) (ep_key path) blobs) (\<lambda>generation.
     and_then (or_unexpected (db_query db DbAlive (Ok ()))) (\<lambda>_. Ok generation))"

section \<open>Model: finalizing a write\<close>

record prepared_write =
  pw_user :: user_entity
  pw_existing_entry :: "entry_entity option"
  pw_bytes_delta :: int

definition prepared_write_new ::
  "'b store_env \<Rightarrow> user_entity \<Rightarrow> entry_entity option \<Rightarrow> file_metadata \<Rightarrow> (opendal_error, prepared_write) result" where
  "prepared_write_new env user existing_entry meta =
     (let existing_bytes = (case existing_entry of None \<Rightarrow> 0 | Some e \<Rightarrow> ee_length e);
          metadata_bytes = (if existing_entry = None then int FILE_METADATA_SIZE else 0);
          bytes_delta = wrap_i64 (wrap_i64 (wrap_i64 (int (fm_length meta)) - wrap_i64 (int existing_bytes)) + metadata_bytes);
          max_bytes = resolve_storage_max_bytes (se_from_json env) user (se_default_storage_mb env)
      in if would_exceed_limit (ue_used_bytes user) bytes_delta max_bytes
         then Err (domain_err RateLimited DiskSpaceQuotaExceeded)
         else Ok \<lparr>pw_user = user, pw_existing_entry = existing_entry, pw_bytes_delta = bytes_delta\<rparr>)"

definition load_existing :: "db_run \<Rightarrow> entry_path \<Rightarrow> tables \<Rightarrow> (opendal_error, entry_entity option) result" where
  "load_existing db path tb =
     (case db_query db DbLoadEntry (entry_get_by_path path (tb_users tb) (tb_entries tb)) of
        Inr existing \<Rightarrow> Ok (Some existing)
      | Inl (Some RowNotFound) \<Rightarrow> Ok None
      | Inl _ \<Rightarrow> Err unexpected)"

definition prepare_write ::
  "'b store_env \<Rightarrow> collision_policy \<Rightarrow> db_run \<Rightarrow> string option \<Rightarrow> entry_path \<Rightarrow> file_metadata \<Rightarrow> lock_table \<Rightarrow> tables \<Rightarrow>
   (opendal_error, prepared_write) result" where
  "prepare_write env policy db token path meta locks tb =
     and_then (or_unexpected (db_query db DbLockUser (user_get (ep_pubkey path) (tb_users tb)))) (\<lambda>user.
     and_then (write_lock_hold db token path locks) (\<lambda>_.
     and_then (if enforces_collisions policy then check_no_path_collision db path tb else Ok ()) (\<lambda>_.
     and_then (load_existing db path tb) (\<lambda>existing_entry.
     prepared_write_new env user existing_entry meta))))"

definition write_entry ::
  "int \<Rightarrow> user_entity \<Rightarrow> entry_entity option \<Rightarrow> entry_path \<Rightarrow> file_metadata \<Rightarrow> entry_table \<Rightarrow> (sql_error, entry_table) result" where
  "write_entry now user existing_entry path meta t =
     (case existing_entry of
        Some existing \<Rightarrow>
          Ok (entry_update now (existing\<lparr>ee_hash := fm_hash meta, ee_length := fm_length meta, ee_type := fm_content_type meta\<rparr>) t)
      | None \<Rightarrow>
          map_ok snd (entry_create now (ue_id user) (ep_path path) (fm_hash meta) (fm_length meta) (fm_content_type meta) t))"

definition apply_write_effects ::
  "db_run \<Rightarrow> prepared_write \<Rightarrow> entry_path \<Rightarrow> file_metadata \<Rightarrow> tables \<Rightarrow> (opendal_error, tables) result" where
  "apply_write_effects db prepared path meta tb =
     (let user = pw_user prepared in
      and_then (or_unexpected (db_query db DbChangeEntry
        (write_entry (db_now db) user (pw_existing_entry prepared) path meta (tb_entries tb)))) (\<lambda>entries.
      and_then (or_unexpected (db_query db DbCreateEvent
        (Ok (snd (event_create (db_now db) (ue_id user) (PutEvent (fm_hash meta)) path (tb_events tb)))))) (\<lambda>events.
      let user = user\<lparr>ue_used_bytes := saturating_add_signed (ue_used_bytes user) (pw_bytes_delta prepared)\<rparr> in
      and_then (or_unexpected (db_query db DbUpdateUser (user_update user (tb_users tb)))) (\<lambda>users.
      Ok \<lparr>tb_users = users, tb_entries = entries, tb_events = events\<rparr>))))"

text \<open>The writer of the backend: for a store that publishes through staging, the
  staged writer; for the others, the upload itself.\<close>

record backend_writer =
  bw_path :: string
  bw_staged :: staged_writer

definition backend_open :: "string \<Rightarrow> string \<Rightarrow> backend_writer" where
  "backend_open uuid path = \<lparr>bw_path = path, bw_staged = staged_open uuid path\<rparr>"

definition backend_write ::
  "'b store_env \<Rightarrow> string \<Rightarrow> backend_writer \<Rightarrow> 'b \<Rightarrow> (opendal_error, unit) result \<times> backend_writer \<times> 'b" where
  "backend_write env chunk w blobs =
     (if se_staged env
      then (case staged_write (se_object_store env) chunk (bw_staged w) blobs of
              (r, sw, blobs) \<Rightarrow> (r, w\<lparr>bw_staged := sw\<rparr>, blobs))
      else (case os_chunk (se_object_store env) (bw_path w) chunk blobs of
              (r, blobs) \<Rightarrow> (r, (case r of
                  Inr _ \<Rightarrow> w\<lparr>bw_staged := (bw_staged w)\<lparr>sw_written := sw_written (bw_staged w) @ chunk\<rparr>\<rparr>
                | Inl _ \<Rightarrow> w), blobs)))"

definition backend_close ::
  "'b store_env \<Rightarrow> expected_generation option \<Rightarrow> backend_writer \<Rightarrow> 'b \<Rightarrow>
   (opendal_error, unit) result \<times> backend_writer \<times> 'b" where
  "backend_close env generation w blobs =
     (if se_staged env
      then (case staged_close (se_object_store env) generation (bw_staged w) blobs of
              (r, sw, blobs) \<Rightarrow> (r, w\<lparr>bw_staged := sw\<rparr>, blobs))
      else (case os_close (se_object_store env) (bw_path w) (sw_written (bw_staged w)) blobs of
              (r, blobs) \<Rightarrow> (r, w, blobs)))"

definition backend_abort ::
  "'b store_env \<Rightarrow> backend_writer \<Rightarrow> 'b \<Rightarrow> (opendal_error, unit) result \<times> 'b" where
  "backend_abort env w blobs =
     (if se_staged env
      then (case staged_abort (se_object_store env) (bw_staged w) blobs of (r, _, blobs) \<Rightarrow> (r, blobs))
      else os_abort (se_object_store env) (bw_path w) blobs)"

datatype write_failure = BeforePublication opendal_error | AfterPublication opendal_error

definition write_in_transaction ::
  "'b store_env \<Rightarrow> collision_policy \<Rightarrow> db_run \<Rightarrow> string option \<Rightarrow> backend_writer \<Rightarrow> entry_path \<Rightarrow> file_metadata \<Rightarrow>
   'b store \<Rightarrow> (write_failure, tables) result \<times> backend_writer \<times> 'b" where
  "write_in_transaction env policy db token w path meta s =
     (case prepare_write env policy db token path meta (fs_locks s) (tables_of s) of
        Inl e \<Rightarrow> (Err (BeforePublication e), w, fs_blobs s)
      | Inr prepared \<Rightarrow>
          (case generation_under_lock env db path (fs_blobs s) of
             Inl e \<Rightarrow> (Err (BeforePublication e), w, fs_blobs s)
           | Inr generation \<Rightarrow>
               (case backend_close env generation w (fs_blobs s) of
                  (Inl e, w, blobs) \<Rightarrow> (Err (AfterPublication e), w, blobs)
                | (Inr _, w, blobs) \<Rightarrow>
                    (map_err AfterPublication (apply_write_effects db prepared path meta (tables_of s)), w, blobs))))"

definition finish_transaction :: "db_run \<Rightarrow> tables \<Rightarrow> 'b store \<Rightarrow> (opendal_error, unit) result \<times> 'b store" where
  "finish_transaction db tb s =
     (case db_commit db of
        Committed \<Rightarrow> (Ok (), commit_tables tb s)
      | CommitRefused \<Rightarrow> (Err unexpected, s)
      | CommitUnanswered \<Rightarrow> (Err unexpected, commit_tables tb s))"

definition finalize_write ::
  "'b store_env \<Rightarrow> collision_policy \<Rightarrow> db_run \<Rightarrow> string option \<Rightarrow> backend_writer \<Rightarrow> entry_path \<Rightarrow> file_metadata \<Rightarrow>
   'b store \<Rightarrow> (write_failure, unit) result \<times> backend_writer \<times> 'b store" where
  "finalize_write env policy db token w path meta s =
     (if db_fails db DbBegin then (Err (BeforePublication unexpected), w, s)
      else case write_in_transaction env policy db token w path meta s of
             (Inl failure, w, blobs) \<Rightarrow> (Err failure, w, s\<lparr>fs_blobs := blobs\<rparr>)
           | (Inr tb, w, blobs) \<Rightarrow>
               (case finish_transaction db tb (s\<lparr>fs_blobs := blobs\<rparr>) of
                  (r, s) \<Rightarrow> (map_err AfterPublication r, w, s)))"

text \<open>The writer: the backend writer until the file is closed or aborted, and the
  metadata gathered so far.\<close>

record fin_writer =
  fw_inner :: "backend_writer option"
  fw_path :: entry_path
  fw_builder :: file_metadata_builder

definition fin_writer_new :: "backend_writer \<Rightarrow> entry_path \<Rightarrow> fin_writer" where
  "fin_writer_new inner path = \<lparr>fw_inner = Some inner, fw_path = path, fw_builder = builder_default\<rparr>"

abbreviation already_closed :: opendal_error where
  "already_closed \<equiv> opendal_err Unexpected"

definition fin_writer_write ::
  "'b store_env \<Rightarrow> string \<Rightarrow> fin_writer \<Rightarrow> 'b store \<Rightarrow> (opendal_error, unit) result \<times> fin_writer \<times> 'b store" where
  "fin_writer_write env chunk w s =
     (case fw_inner w of
        None \<Rightarrow> (Err already_closed, w, s)
      | Some inner \<Rightarrow>
          (case backend_write env chunk inner (fs_blobs s) of
             (r, inner, blobs) \<Rightarrow>
               (r, w\<lparr>fw_inner := Some inner, fw_builder := builder_update (se_content env) chunk (fw_builder w)\<rparr>,
                s\<lparr>fs_blobs := blobs\<rparr>)))"

definition fin_writer_abort ::
  "'b store_env \<Rightarrow> fin_writer \<Rightarrow> 'b store \<Rightarrow> (opendal_error, unit) result \<times> fin_writer \<times> 'b store" where
  "fin_writer_abort env w s =
     (case fw_inner w of
        None \<Rightarrow> (Ok (), w, s)
      | Some inner \<Rightarrow>
          (case backend_abort env inner (fs_blobs s) of
             (r, blobs) \<Rightarrow> (r, w\<lparr>fw_inner := None\<rparr>, s\<lparr>fs_blobs := blobs\<rparr>)))"

definition writer_metadata :: "'b store_env \<Rightarrow> fin_writer \<Rightarrow> file_metadata" where
  "writer_metadata env w =
     builder_finalize (se_content env)
       (guess_mime_type_from_path (se_content env) (as_str (ep_path (fw_path w))) (fw_builder w))"

definition fin_writer_close ::
  "'b store_env \<Rightarrow> collision_policy \<Rightarrow> db_run \<Rightarrow> string option \<Rightarrow> fin_writer \<Rightarrow> 'b store \<Rightarrow>
   (opendal_error, unit) result \<times> fin_writer \<times> 'b store" where
  "fin_writer_close env policy db token w s =
     (case fw_inner w of
        None \<Rightarrow> (Err already_closed, w, s)
      | Some inner \<Rightarrow>
          (case finalize_write env policy db token inner (fw_path w) (writer_metadata env w) s of
             (Inr _, _, s) \<Rightarrow> (Ok (), w\<lparr>fw_inner := None\<rparr>, s)
           | (Inl (BeforePublication e), inner, s) \<Rightarrow>
               (Err e, w\<lparr>fw_inner := None\<rparr>, s\<lparr>fs_blobs := snd (backend_abort env inner (fs_blobs s))\<rparr>)
           | (Inl (AfterPublication e), _, s) \<Rightarrow> (Err e, w\<lparr>fw_inner := None\<rparr>, s)))"

section \<open>Model: finalizing a delete\<close>

record staged_delete =
  sd_user :: user_entity
  sd_deleted_entry :: entry_entity

record pending_delete =
  pd_path :: entry_path
  pd_args :: op_delete

datatype delete_outcome = Deleted | NothingToDelete

definition stage_delete ::
  "db_run \<Rightarrow> string option \<Rightarrow> entry_path \<Rightarrow> lock_table \<Rightarrow> tables \<Rightarrow>
   (opendal_error, (staged_delete \<times> entry_table) option) result" where
  "stage_delete db token path locks tb =
     (case db_query db DbLockUser (user_get (ep_pubkey path) (tb_users tb)) of
        Inl (Some RowNotFound) \<Rightarrow> Ok None
      | Inl _ \<Rightarrow> Err unexpected
      | Inr user \<Rightarrow>
          and_then (write_lock_hold db token path locks) (\<lambda>_.
          and_then (load_existing db path tb) (\<lambda>existing.
          (case existing of
             None \<Rightarrow> Ok None
           | Some deleted_entry \<Rightarrow>
               and_then (or_unexpected (db_query db DbChangeEntry (Ok (entry_delete (ee_id deleted_entry) (tb_entries tb))))) (\<lambda>entries.
               Ok (Some (\<lparr>sd_user = user, sd_deleted_entry = deleted_entry\<rparr>, entries)))))))"

definition apply_delete_effects ::
  "db_run \<Rightarrow> staged_delete \<Rightarrow> entry_path \<Rightarrow> tables \<Rightarrow> (opendal_error, tables) result" where
  "apply_delete_effects db staged path tb =
     (let user = sd_user staged in
      and_then (or_unexpected (db_query db DbCreateEvent
        (Ok (snd (event_create (db_now db) (ue_id user) DeleteEvent path (tb_events tb)))))) (\<lambda>events.
      let bytes_delta = saturating_add (ee_length (sd_deleted_entry staged)) FILE_METADATA_SIZE;
          user = user\<lparr>ue_used_bytes := ue_used_bytes user - bytes_delta\<rparr> in
      and_then (or_unexpected (db_query db DbUpdateUser (user_update user (tb_users tb)))) (\<lambda>users.
      Ok (tb\<lparr>tb_users := users, tb_events := events\<rparr>))))"

definition delete_in_transaction ::
  "db_run \<Rightarrow> string option \<Rightarrow> entry_path \<Rightarrow> lock_table \<Rightarrow> tables \<Rightarrow> (opendal_error, tables option) result" where
  "delete_in_transaction db token path locks tb =
     and_then (stage_delete db token path locks tb) (\<lambda>staged.
     (case staged of
        None \<Rightarrow> Ok None
      | Some (sd, entries) \<Rightarrow> map_ok Some (apply_delete_effects db sd path (tb\<lparr>tb_entries := entries\<rparr>))))"

definition finalize_delete ::
  "db_run \<Rightarrow> string option \<Rightarrow> entry_path \<Rightarrow> 'b store \<Rightarrow> (opendal_error, delete_outcome) result \<times> 'b store" where
  "finalize_delete db token path s =
     (if db_fails db DbBegin then (Err unexpected, s)
      else case delete_in_transaction db token path (fs_locks s) (tables_of s) of
             Inr (Some tb) \<Rightarrow> (case finish_transaction db tb s of (r, s) \<Rightarrow> (map_ok (\<lambda>_. Deleted) r, s))
           | Inr None \<Rightarrow> (if db_fails db DbRollback then Err unexpected else Ok NothingToDelete, s)
           | Inl e \<Rightarrow> (Err e, s))"

definition backend_delete ::
  "'b store_env \<Rightarrow> expected_generation option \<Rightarrow> string \<Rightarrow> op_delete \<Rightarrow> 'b \<Rightarrow> (opendal_error, unit) result \<times> 'b" where
  "backend_delete env generation path args blobs =
     (if se_staged env then conditional_delete (se_object_store env) generation path args blobs
      else os_delete (se_object_store env) path args blobs)"

definition remove_blob_under_its_generation ::
  "'b store_env \<Rightarrow> db_run \<Rightarrow> pending_delete \<Rightarrow> 'b \<Rightarrow> (opendal_error, unit) result \<times> 'b" where
  "remove_blob_under_its_generation env db pending blobs =
     (case generation_under_lock env db (pd_path pending) blobs of
        Inl e \<Rightarrow> (Err e, blobs)
      | Inr generation \<Rightarrow>
          if generation = Some Absent then (Ok (), blobs)
          else case backend_delete env generation (ep_key (pd_path pending)) (pd_args pending) blobs of
                 (Inl e, blobs) \<Rightarrow> (if oe_source e = Some PublishConflict then Ok () else Err e, blobs)
               | (Inr _, blobs) \<Rightarrow> (Ok (), blobs))"

definition remove_blob_in_transaction ::
  "'b store_env \<Rightarrow> db_run \<Rightarrow> pending_delete \<Rightarrow> 'b store \<Rightarrow> (opendal_error, unit) result \<times> 'b" where
  "remove_blob_in_transaction env db pending s =
     st_then (case db_query db DbLockUser (user_get (ep_pubkey (pd_path pending)) (us_db (fs_users s))) of
         Inr _ \<Rightarrow> Ok ()
       | Inl e \<Rightarrow> if e = Some RowNotFound then Ok () else Err unexpected, fs_blobs s) (\<lambda>_ blobs.
     st_then (load_existing db (pd_path pending) (tables_of s), blobs) (\<lambda>existing blobs.
     (case existing of
        Some _ \<Rightarrow> (Ok (), blobs)
      | None \<Rightarrow> remove_blob_under_its_generation env db pending blobs)))"

definition remove_blob_if_unreferenced ::
  "'b store_env \<Rightarrow> db_run \<Rightarrow> pending_delete \<Rightarrow> 'b store \<Rightarrow> (opendal_error, unit) result \<times> 'b store" where
  "remove_blob_if_unreferenced env db pending s =
     (if db_fails db DbBegin then (Err unexpected, s)
      else case remove_blob_in_transaction env db pending s of (r, blobs) \<Rightarrow> (r, s\<lparr>fs_blobs := blobs\<rparr>))"

text \<open>Every delete runs two transactions: one for its row and one around the removal
  of its blob.\<close>

definition finalize_and_remove_blob ::
  "'b store_env \<Rightarrow> db_run \<times> db_run \<Rightarrow> string option \<Rightarrow> pending_delete \<Rightarrow> 'b store \<Rightarrow>
   (opendal_error, delete_outcome) result \<times> 'b store" where
  "finalize_and_remove_blob env dbs token pending s =
     st_then (finalize_delete (fst dbs) token (pd_path pending) s) (\<lambda>outcome s.
     st_then (remove_blob_if_unreferenced env (snd dbs) pending s) (\<lambda>_ s. (Ok outcome, s)))"

record delete_queue_outcome =
  dq_failed :: "pending_delete list"
  dq_should_notify :: bool
  dq_first_error :: "opendal_error option"

fun process_delete_queue ::
  "'b store_env \<Rightarrow> string option \<Rightarrow> (pending_delete \<times> db_run \<times> db_run) list \<Rightarrow> 'b store \<Rightarrow> delete_queue_outcome \<times> 'b store" where
  "process_delete_queue env token [] s = (\<lparr>dq_failed = [], dq_should_notify = False, dq_first_error = None\<rparr>, s)"
| "process_delete_queue env token ((pending, dbs) # queue) s =
     (case finalize_and_remove_blob env dbs token pending s of
        (r, s) \<Rightarrow>
          (case process_delete_queue env token queue s of
             (out, s) \<Rightarrow>
               (case r of
                  Inr Deleted \<Rightarrow> (out\<lparr>dq_should_notify := True\<rparr>, s)
                | Inr NothingToDelete \<Rightarrow> (out, s)
                | Inl e \<Rightarrow> (out\<lparr>dq_failed := pending # dq_failed out, dq_first_error := Some e\<rparr>, s))))"

definition close_deletes ::
  "'b store_env \<Rightarrow> string option \<Rightarrow> (pending_delete \<times> db_run \<times> db_run) list \<Rightarrow> 'b store \<Rightarrow> (opendal_error, unit) result \<times> 'b store" where
  "close_deletes env token queue s =
     (case process_delete_queue env token queue s of
        (out, s) \<Rightarrow> (case dq_first_error out of None \<Rightarrow> Ok () | Some e \<Rightarrow> Err e, s))"

section \<open>Model: checks before a write\<close>

definition check_write_path_allowed ::
  "'b store_env \<Rightarrow> int \<Rightarrow> string \<Rightarrow> 'b store \<Rightarrow> (opendal_error, unit) result \<times> 'b store" where
  "check_write_path_allowed env now path s =
     (case parse_opendal (se_key_parser env) path of
        Inl e \<Rightarrow> (Err e, s)
      | Inr entry_path \<Rightarrow>
          (case resolve_quota (se_from_json env) now (ep_pubkey entry_path) (fs_users s) of
             (Inl _, us) \<Rightarrow> (Err unexpected, s\<lparr>fs_users := us\<rparr>)
           | (Inr None, us) \<Rightarrow> (Ok (), s\<lparr>fs_users := us\<rparr>)
           | (Inr (Some quota), us) \<Rightarrow>
               (ensure (is_write_path_allowed quota (as_str (ep_path entry_path)))
                  (domain_err PermissionDenied WritePathForbidden), s\<lparr>fs_users := us\<rparr>)))"

text \<open>The operator of the client routes finalizes under the collision policy and
  checks write paths; the operator of the administrator does neither.\<close>

datatype operator_kind = AppOperator | AdminOperator

definition operator_policy :: "operator_kind \<Rightarrow> collision_policy" where
  "operator_policy op = from_enforcement (op = AppOperator)"

record checked_upload =
  cu_operator :: operator_kind
  cu_path :: string
  cu_path_passed :: bool
  cu_collision_passed :: bool
  cu_writer :: fin_writer

definition ensure_passed ::
  "bool \<Rightarrow> ('b store \<Rightarrow> (opendal_error, unit) result \<times> 'b store) \<Rightarrow> 'b store \<Rightarrow> (opendal_error, unit) result \<times> 'b store" where
  "ensure_passed passed check s = (if passed then (Ok (), s) else check s)"

definition operator_writer ::
  "'b store_env \<Rightarrow> operator_kind \<Rightarrow> string \<Rightarrow> string \<Rightarrow> (opendal_error, checked_upload) result" where
  "operator_writer env op uuid path =
     and_then (parse_opendal (se_key_parser env) path) (\<lambda>entry_path.
     Ok \<lparr>cu_operator = op, cu_path = path, cu_path_passed = (op = AdminOperator), cu_collision_passed = False,
         cu_writer = fin_writer_new (backend_open uuid (ep_key entry_path)) entry_path\<rparr>)"

text \<open>Both checks, each run until it has passed.\<close>

definition upload_checks ::
  "'b store_env \<Rightarrow> db_run \<Rightarrow> checked_upload \<Rightarrow> 'b store \<Rightarrow> (opendal_error, unit) result \<times> checked_upload \<times> 'b store" where
  "upload_checks env db up s =
     (case ensure_passed (cu_path_passed up) (check_write_path_allowed env (db_now db) (cu_path up)) s of
        (Inl e, s) \<Rightarrow> (Err e, up, s)
      | (Inr _, s) \<Rightarrow>
          let up = up\<lparr>cu_path_passed := True\<rparr> in
          (case ensure_passed (cu_collision_passed up)
              (\<lambda>s. (collision_preflight (operator_policy (cu_operator up)) db (fw_path (cu_writer up)) (tables_of s), s)) s of
             (Inl e, s) \<Rightarrow> (Err e, up, s)
           | (Inr _, s) \<Rightarrow> (Ok (), up\<lparr>cu_collision_passed := True\<rparr>, s)))"

definition upload_write ::
  "'b store_env \<Rightarrow> db_run \<Rightarrow> string \<Rightarrow> checked_upload \<Rightarrow> 'b store \<Rightarrow> (opendal_error, unit) result \<times> checked_upload \<times> 'b store" where
  "upload_write env db chunk up s =
     (case upload_checks env db up s of
        (Inl e, up, s) \<Rightarrow> (Err e, up, s)
      | (Inr _, up, s) \<Rightarrow>
          (case fin_writer_write env chunk (cu_writer up) s of (r, w, s) \<Rightarrow> (r, up\<lparr>cu_writer := w\<rparr>, s)))"

definition upload_close ::
  "'b store_env \<Rightarrow> db_run \<Rightarrow> db_run \<Rightarrow> string option \<Rightarrow> checked_upload \<Rightarrow> 'b store \<Rightarrow>
   (opendal_error, unit) result \<times> checked_upload \<times> 'b store" where
  "upload_close env check_db db token up s =
     (case upload_checks env check_db up s of
        (Inl e, up, s) \<Rightarrow> (Err e, up, s)
      | (Inr _, up, s) \<Rightarrow>
          (case fin_writer_close env (operator_policy (cu_operator up)) db token (cu_writer up) s of
             (r, w, s) \<Rightarrow> (r, up\<lparr>cu_writer := w\<rparr>, s)))"

definition upload_abort ::
  "'b store_env \<Rightarrow> checked_upload \<Rightarrow> 'b store \<Rightarrow> (opendal_error, unit) result \<times> checked_upload \<times> 'b store" where
  "upload_abort env up s = (case fin_writer_abort env (cu_writer up) s of (r, w, s) \<Rightarrow> (r, up\<lparr>cu_writer := w\<rparr>, s))"

definition operator_delete ::
  "'b store_env \<Rightarrow> operator_kind \<Rightarrow> int \<Rightarrow> db_run \<times> db_run \<Rightarrow> string option \<Rightarrow> string \<Rightarrow> 'b store \<Rightarrow>
   (opendal_error, unit) result \<times> 'b store" where
  "operator_delete env op now dbs token path s =
     st_then (ensure_passed (op = AdminOperator) (check_write_path_allowed env now path) s) (\<lambda>_ s.
     st_then (parse_opendal (se_key_parser env) path, s) (\<lambda>entry_path s.
     close_deletes env token [(\<lparr>pd_path = entry_path, pd_args = op_delete_default\<rparr>, dbs)] s))"

section \<open>Model: the services\<close>

datatype file_io_error =
    FileNotFound
  | FileSqlDb "sql_error option"
  | FileOpenDAL opendal_error
  | FileBackendRateLimited opendal_error
  | FileTempFile
  | FileStreamBroken
  | FileDiskSpaceQuotaExceeded
  | FileWritePathForbidden
  | FilePathCollision
  | FileLockLost
  | FilePublishConflict

fun domain_io_error :: "layer_domain_error \<Rightarrow> file_io_error" where
  "domain_io_error WritePathForbidden = FileWritePathForbidden"
| "domain_io_error DiskSpaceQuotaExceeded = FileDiskSpaceQuotaExceeded"
| "domain_io_error PathCollision = FilePathCollision"
| "domain_io_error LockLost = FileLockLost"
| "domain_io_error PublishConflict = FilePublishConflict"

definition file_io_error_of :: "opendal_error \<Rightarrow> file_io_error" where
  "file_io_error_of e =
     (case oe_source e of
        Some d \<Rightarrow> domain_io_error d
      | None \<Rightarrow>
          (case oe_kind e of
             NotFound \<Rightarrow> FileNotFound
           | RateLimited \<Rightarrow> FileBackendRateLimited e
           | _ \<Rightarrow> FileOpenDAL e))"

text \<open>The items of an upload stream: a chunk, or the error that breaks it.\<close>

datatype stream_item = Chunk string | BrokenStream

fun write_chunks ::
  "'b store_env \<Rightarrow> db_run \<Rightarrow> stream_item list \<Rightarrow> checked_upload \<Rightarrow> 'b store \<Rightarrow>
   (file_io_error, unit) result \<times> checked_upload \<times> 'b store" where
  "write_chunks env db [] up s = (Ok (), up, s)"
| "write_chunks env db (BrokenStream # items) up s = (Err FileStreamBroken, up, s)"
| "write_chunks env db (Chunk chunk # items) up s =
     (case upload_write env db chunk up s of
        (Inl e, up, s) \<Rightarrow> (Err (file_io_error_of e), up, s)
      | (Inr _, up, s) \<Rightarrow> write_chunks env db items up s)"

definition opendal_write_stream ::
  "'b store_env \<Rightarrow> db_run \<Rightarrow> db_run \<Rightarrow> string option \<Rightarrow> string \<Rightarrow> entry_path \<Rightarrow> stream_item list \<Rightarrow> 'b store \<Rightarrow>
   (file_io_error, unit) result \<times> 'b store" where
  "opendal_write_stream env check_db db token uuid path items s =
     (case operator_writer env AppOperator uuid (ep_key path) of
        Inl e \<Rightarrow> (Err (file_io_error_of e), s)
      | Inr up \<Rightarrow>
          (case write_chunks env check_db items up s of
             (Inr _, up, s) \<Rightarrow>
               (case upload_close env check_db db token up s of (r, _, s) \<Rightarrow> (map_err file_io_error_of r, s))
           | (Inl e, up, s) \<Rightarrow> (Err e, snd (snd (upload_abort env up s)))))"

definition opendal_exists :: "'b store_env \<Rightarrow> entry_path \<Rightarrow> 'b store \<Rightarrow> (file_io_error, bool) result" where
  "opendal_exists env path s =
     (case os_stat (se_object_store env) (ep_key path) (fs_blobs s) of
        Inr _ \<Rightarrow> Ok True
      | Inl e \<Rightarrow> if oe_kind e = NotFound then Ok False else Err (file_io_error_of e))"

definition get_sized_stream :: "'b store_env \<Rightarrow> entry_path \<Rightarrow> 'b store \<Rightarrow> (file_io_error, nat \<times> string) result" where
  "get_sized_stream env path s =
     and_then (map_err file_io_error_of (os_stat (se_object_store env) (ep_key path) (fs_blobs s))) (\<lambda>meta.
     and_then (map_err file_io_error_of (os_read (se_object_store env) (ep_key path) (om_etag meta) (fs_blobs s))) (\<lambda>bytes.
     Ok (om_length meta, take (om_length meta) bytes)))"

definition blob_length :: "'b store_env \<Rightarrow> entry_path \<Rightarrow> 'b store \<Rightarrow> (file_io_error, nat) result" where
  "blob_length env path s =
     map_ok om_length (map_err file_io_error_of (os_stat (se_object_store env) (ep_key path) (fs_blobs s)))"

definition get_info :: "entry_path \<Rightarrow> 'b store \<Rightarrow> (file_io_error, entry_entity) result" where
  "get_info path s =
     map_err (\<lambda>e. if e = RowNotFound then FileNotFound else FileSqlDb (Some e))
       (entry_get_by_path path (us_db (fs_users s)) (fs_entries s))"

definition file_write_stream ::
  "'b store_env \<Rightarrow> db_run \<Rightarrow> db_run \<Rightarrow> string option \<Rightarrow> string \<Rightarrow> entry_path \<Rightarrow> stream_item list \<Rightarrow> 'b store \<Rightarrow>
   (file_io_error, entry_entity) result \<times> 'b store" where
  "file_write_stream env check_db db token uuid path items s =
     st_then (opendal_write_stream env check_db db token uuid path items s) (\<lambda>_ s. (get_info path s, s))"

definition delete_with ::
  "operator_kind \<Rightarrow> 'b store_env \<Rightarrow> int \<Rightarrow> db_run \<times> db_run \<Rightarrow> string option \<Rightarrow> entry_path \<Rightarrow> 'b store \<Rightarrow>
   (file_io_error, unit) result \<times> 'b store" where
  "delete_with op env now dbs token path s =
     st_then (opendal_exists env path s, s) (\<lambda>found s.
     if \<not> found then (Err FileNotFound, s)
     else case operator_delete env op now dbs token (ep_key path) s of (r, s) \<Rightarrow> (map_err file_io_error_of r, s))"

definition file_delete ::
  "'b store_env \<Rightarrow> int \<Rightarrow> db_run \<times> db_run \<Rightarrow> string option \<Rightarrow> entry_path \<Rightarrow> 'b store \<Rightarrow> (file_io_error, unit) result \<times> 'b store" where
  "file_delete = delete_with AppOperator"

definition admin_delete ::
  "'b store_env \<Rightarrow> int \<Rightarrow> db_run \<times> db_run \<Rightarrow> string option \<Rightarrow> entry_path \<Rightarrow> 'b store \<Rightarrow> (file_io_error, unit) result \<times> 'b store" where
  "admin_delete = delete_with AdminOperator"

end
