(* ===== verification/File_Invariant.thy ===== *)
theory File_Invariant
  imports File_Store
begin

text \<open>
  What every write and delete keeps of the tables, whatever the database and the
  object store do: the bytes charged to a user are those of the user's files, the
  event log replays to the files, and the files of a user do not collide.
\<close>

section \<open>Sizes\<close>

definition charge :: "entry_row \<Rightarrow> nat" where
  "charge r = en_length r + FILE_METADATA_SIZE"

definition entries_size :: "int \<Rightarrow> entry_table \<Rightarrow> nat" where
  "entries_size user_id t = sum_list (map charge (filter (\<lambda>r. en_user r = user_id) (et_rows t)))"

lemma entry_split:
  assumes "entry_invar users t" and "row_of en_key (et_rows t) k = Some r"
  obtains a b where "et_rows t = a @ r # b" and "\<And>x. x \<in> set a \<union> set b \<Longrightarrow> en_id x \<noteq> en_id r"
proof -
  have "r \<in> set (et_rows t)" using row_of_SomeD [OF assms(2)] by simp
  then obtain a b where ab: "et_rows t = a @ r # b" by (meson split_list)
  moreover have "distinct (map en_id (et_rows t))" using assms(1) by (simp add: entry_invar_def keyed_def)
  then have "en_id x \<noteq> en_id r" if "x \<in> set a \<union> set b" for x using ab that by (auto simp: rev_image_eqI)
  ultimately show thesis using that by blast
qed

lemma entries_size_update:
  assumes "entry_invar users t" and "row_of en_key (et_rows t) k = Some r" and "ee_id e = en_id r"
  shows "entries_size i (entry_update now e t) + (if en_user r = i then en_length r else 0) =
    entries_size i t + (if en_user r = i then ee_length e else 0)"
proof (rule entry_split [OF assms(1,2)])
  fix a b assume ab: "et_rows t = a @ r # b" and ids: "\<And>x. x \<in> set a \<union> set b \<Longrightarrow> en_id x \<noteq> en_id r"
  have "update_where (\<lambda>x. en_id x = ee_id e) f xs = xs" if "set xs \<subseteq> set a \<union> set b" for f xs
    unfolding update_where_def using ids that assms(3) by (intro map_idI) auto
  then show ?thesis
    using ab assms(3) by (simp add: entries_size_def entry_update_def update_where_def charge_def)
qed

lemma entries_size_delete:
  assumes "entry_invar users t" and "row_of en_key (et_rows t) k = Some r"
  shows "entries_size i t = entries_size i (entry_delete (en_id r) t) + (if en_user r = i then charge r else 0)"
proof (rule entry_split [OF assms(1,2)])
  fix a b assume ab: "et_rows t = a @ r # b" and ids: "\<And>x. x \<in> set a \<union> set b \<Longrightarrow> en_id x \<noteq> en_id r"
  have "delete_where (\<lambda>x. en_id x = en_id r) xs = xs" if "set xs \<subseteq> set a \<union> set b" for xs
    unfolding delete_where_def using ids that by (intro filter_True) auto
  then show ?thesis using ab by (simp add: entries_size_def entry_delete_def delete_where_def)
qed

lemma entries_size_create:
  assumes "entry_create now user_id path h n ty t = Ok (i, t')"
  shows "entries_size j t' = entries_size j t + (if user_id = j then n + FILE_METADATA_SIZE else 0)"
  using assms by (auto simp: entry_create_def entries_size_def charge_def split: if_splits)

section \<open>The invariant of the tables\<close>

text \<open>The files the event log describes, by user and path.\<close>

definition log_files :: "event_row list \<Rightarrow> int \<times> string \<Rightarrow> string option" where
  "log_files rows = fold (\<lambda>r files. files((ev_user r, ev_path r) := (if ev_type r = ''PUT'' then ev_hash r else None)))
     rows (\<lambda>_. None)"

lemma log_files_append:
  "log_files (rows @ [r]) = (log_files rows)((ev_user r, ev_path r) := (if ev_type r = ''PUT'' then ev_hash r else None))"
  by (simp add: log_files_def)

text \<open>The files the entries table describes.\<close>

definition files_of :: "tables \<Rightarrow> int \<times> string \<Rightarrow> (string \<times> nat \<times> string) option" where
  "files_of tb k = map_option (\<lambda>r. (en_hash r, en_length r, en_type r)) (row_of en_key (et_rows (tb_entries tb)) k)"

definition accounted :: "tables \<Rightarrow> bool" where
  "accounted tb \<longleftrightarrow> (\<forall>pk u. user_get pk (tb_users tb) = Ok u \<longrightarrow> ue_used_bytes u = entries_size (ue_id u) (tb_entries tb))"

definition logged :: "tables \<Rightarrow> bool" where
  "logged tb \<longleftrightarrow> (\<forall>k. log_files (vt_rows (tb_events tb)) k = map_option fst (files_of tb k))"

definition collision_free :: "tables \<Rightarrow> bool" where
  "collision_free tb \<longleftrightarrow> (\<forall>i p. files_of tb (i, p) \<noteq> None \<longrightarrow> is_file (StoragePath p) \<and>
     (\<forall>q. files_of tb (i, q) \<noteq> None \<longrightarrow> \<not> collides p q))"

definition tables_invar :: "tables \<Rightarrow> bool" where
  "tables_invar tb \<longleftrightarrow> user_invar (tb_users tb) \<and> entry_invar (tb_users tb) (tb_entries tb) \<and>
     event_invar (tb_users tb) (tb_events tb) \<and> accounted tb \<and> logged tb"

text \<open>A path as the parser of entry paths builds it.\<close>

definition path_wf :: "entry_path \<Rightarrow> bool" where
  "path_wf path \<longleftrightarrow> canonical (ep_path path) \<and> valid_utf8 (as_str (ep_path path)) \<and>
     path = entry_path_new (ep_pubkey path) (ep_path path)"

lemma owner_key_updated:
  assumes "user_invar users" and "user_get pk users = Ok u" and "user_invar users'"
    and "\<forall>p. user_get p users' = (if p = pk then Ok u' else user_get p users)" and "ue_id u' = ue_id u"
  shows "owner_key users' = owner_key users"
  using owner_key_cong [OF assms(1,3)] assms(2,4,5) by (auto simp: fun_eq_iff)

lemma entry_invar_owner: "owner_key users' = owner_key users \<Longrightarrow> entry_invar users' t = entry_invar users t"
  by (simp add: entry_invar_def entry_row_wf_def)

lemma event_invar_owner: "owner_key users' = owner_key users \<Longrightarrow> event_invar users' t = event_invar users t"
  by (simp add: event_invar_def event_row_wf_def)

lemma event_create_rows:
  "vt_rows (snd (event_create now user_id ty path t)) = vt_rows t @ [\<lparr>ev_id = vt_seq t, ev_user = user_id,
     ev_type = event_type_as_str ty, ev_path = as_str (ep_path path), ev_created_at = now, ev_hash = event_content_hash ty\<rparr>]"
  by (simp add: event_create_def)

text \<open>A change of one file together with its event and the charge of its owner.\<close>

definition changes_file ::
  "public_key \<Rightarrow> user_entity \<Rightarrow> string \<Rightarrow> (string \<times> nat \<times> string) option \<Rightarrow> tables \<Rightarrow> tables \<Rightarrow> bool" where
  "changes_file pk u p new tb tb' \<longleftrightarrow>
     (\<forall>k. files_of tb' k = (if k = (ue_id u, p) then new else files_of tb k)) \<and>
     (\<exists>used. \<forall>q. user_get q (tb_users tb') = (if q = pk then Ok (u\<lparr>ue_used_bytes := used\<rparr>) else user_get q (tb_users tb)))"

lemma tables_invar_change:
  assumes inv: "tables_invar tb" and u: "user_get (ep_pubkey path) (tb_users tb) = Ok u" and path: "path_wf path"
    and users: "user_update (u\<lparr>ue_used_bytes := used\<rparr>) (tb_users tb) = Ok users'"
    and entries: "entry_invar (tb_users tb) entries'"
    and files: "\<forall>k. row_of en_key (et_rows entries') k =
      (if k = (ue_id u, as_str (ep_path path)) then new else row_of en_key (et_rows (tb_entries tb)) k)"
    and used: "used = entries_size (ue_id u) entries'"
    and others: "\<And>i. i \<noteq> ue_id u \<Longrightarrow> entries_size i entries' = entries_size i (tb_entries tb)"
    and ty: "(case new of Some r \<Rightarrow> ty = PutEvent (en_hash r) \<and> length (en_hash r) = 32 | None \<Rightarrow> ty = DeleteEvent)"
    and tb': "tb' = \<lparr>tb_users = users', tb_entries = entries', tb_events = snd (event_create now (ue_id u) ty path (tb_events tb))\<rparr>"
  shows "tables_invar tb'"
    and "changes_file (ep_pubkey path) u (as_str (ep_path path)) (map_option (\<lambda>r. (en_hash r, en_length r, en_type r)) new) tb tb'"
proof -
  have ui: "user_invar (tb_users tb)" and ei: "event_invar (tb_users tb) (tb_events tb)" and acc: "accounted tb" and log: "logged tb"
    using inv by (simp_all add: tables_invar_def)
  have users': "user_invar users'" "\<forall>q. user_get q users' = (if q = ep_pubkey path then Ok (u\<lparr>ue_used_bytes := used\<rparr>) else user_get q (tb_users tb))"
    using user_update_ok [OF ui u, of "u\<lparr>ue_used_bytes := used\<rparr>"] users by auto
  have owner: "owner_key users' = owner_key (tb_users tb)"
    by (rule owner_key_updated [OF ui u users'(1,2)]) simp
  have "owner_key (tb_users tb) (ue_id u) = Some (ep_pubkey path)" using owner_key_get [OF ui u] by simp
  then have events: "event_invar (tb_users tb) (tb_events tb')"
    using event_create_committed(1) [OF ei, of "ue_id u" path ty now] path ty tb'
    by (auto simp: path_wf_def split: option.splits)
  have f: "\<forall>k. files_of tb' k = (if k = (ue_id u, as_str (ep_path path))
      then map_option (\<lambda>r. (en_hash r, en_length r, en_type r)) new else files_of tb k)"
    using files tb' by (simp add: files_of_def)
  have "logged tb'"
    using log f ty tb' by (auto simp: logged_def event_create_rows log_files_append split: option.splits)
  moreover have "accounted tb'"
    unfolding accounted_def
  proof (intro allI impI)
    fix q v assume v: "user_get q (tb_users tb') = Ok v"
    show "ue_used_bytes v = entries_size (ue_id v) (tb_entries tb')"
    proof (cases "q = ep_pubkey path")
      case True
      then show ?thesis using v users'(2) used tb' by auto
    next
      case False
      then have old: "user_get q (tb_users tb) = Ok v" using v users'(2) tb' by simp
      then have "ue_id v \<noteq> ue_id u" using False owner_key_get [OF ui old, of "ue_id u"] owner_key_get [OF ui u, of "ue_id u"] by auto
      then show ?thesis using old acc others tb' by (simp add: accounted_def)
    qed
  qed
  ultimately show "tables_invar tb'"
    using users'(1) entries events owner tb' by (simp add: tables_invar_def entry_invar_owner [OF owner] event_invar_owner [OF owner])
  show "changes_file (ep_pubkey path) u (as_str (ep_path path)) (map_option (\<lambda>r. (en_hash r, en_length r, en_type r)) new) tb tb'"
    using f users'(2) tb' by (auto simp: changes_file_def)
qed

section \<open>A write\<close>

lemma or_unexpected_query_ok [simp]:
  "or_unexpected (db_query db call r) = Ok x \<longleftrightarrow> \<not> db_fails db call \<and> r = Ok x"
  by (cases r) (auto simp: or_unexpected_def db_query_def)

lemma load_existing_row:
  assumes "tables_invar tb" and "user_get (ep_pubkey path) (tb_users tb) = Ok u" and "load_existing db path tb = Ok existing"
  shows "existing = map_option (entity_of (ep_pubkey path)) (row_of en_key (et_rows (tb_entries tb)) (ue_id u, as_str (ep_path path)))"
proof -
  have "user_invar (tb_users tb)" "entry_invar (tb_users tb) (tb_entries tb)" using assms(1) by (simp_all add: tables_invar_def)
  from entry_get_by_path_row [OF this assms(2)] assms(3) show ?thesis
    by (auto simp: load_existing_def db_query_def split: option.splits if_splits)
qed

lemma prepare_write_ok:
  assumes "prepare_write env policy db token path meta locks tb = Ok prepared"
  shows "\<exists>u existing. user_get (ep_pubkey path) (tb_users tb) = Ok u \<and> write_lock_hold db token path locks = Ok () \<and>
    (enforces_collisions policy \<longrightarrow> check_no_path_collision db path tb = Ok ()) \<and> load_existing db path tb = Ok existing \<and>
    prepared_write_new env u existing meta = Ok prepared"
  using assms by (auto simp: prepare_write_def and_then_ok_iff split: if_splits)

lemma prepared_write_new_ok:
  assumes "prepared_write_new env u existing meta = Ok prepared"
    and "fm_length meta + FILE_METADATA_SIZE < 2 ^ 63" and "\<And>e. existing = Some e \<Longrightarrow> ee_length e < 2 ^ 63"
  shows "pw_user prepared = u" and "pw_existing_entry prepared = existing"
    and "pw_bytes_delta prepared = int (fm_length meta) -
      int (case existing of None \<Rightarrow> 0 | Some e \<Rightarrow> ee_length e) + (if existing = None then int FILE_METADATA_SIZE else 0)"
    and "\<not> would_exceed_limit (ue_used_bytes u) (pw_bytes_delta prepared)
      (resolve_storage_max_bytes (se_from_json env) u (se_default_storage_mb env))"
proof -
  let ?n = "int (fm_length meta)" and ?e = "int (case existing of None \<Rightarrow> 0 | Some e \<Rightarrow> ee_length e)"
    and ?m = "if existing = None then int FILE_METADATA_SIZE else 0"
  have b: "0 \<le> ?n" "?n + ?m < 2 ^ 63" "0 \<le> ?e" "?e < 2 ^ 63" "0 \<le> ?m"
    using assms(2,3) by (cases existing; simp add: FILE_METADATA_SIZE_def)+
  then have "wrap_i64 (wrap_i64 (wrap_i64 ?n - wrap_i64 ?e) + ?m) = ?n - ?e + ?m"
    by (simp add: wrap_i64_id)
  then show "pw_user prepared = u" "pw_existing_entry prepared = existing" "pw_bytes_delta prepared = ?n - ?e + ?m"
    "\<not> would_exceed_limit (ue_used_bytes u) (pw_bytes_delta prepared)
      (resolve_storage_max_bytes (se_from_json env) u (se_default_storage_mb env))"
    using assms(1) by (auto simp: prepared_write_new_def Let_def split: if_splits)
qed

lemma saturating_add_signed_exact:
  "0 \<le> int a + d \<Longrightarrow> int a + d < 2 ^ 63 \<Longrightarrow> int (saturating_add_signed a d) = int a + d"
  by (simp add: saturating_add_signed_def u64_max_def)

lemma entity_of_sel [simp]:
  "ee_id (entity_of pk r) = en_id r" "ee_length (entity_of pk r) = en_length r"
  by (simp_all add: entity_of_def)

lemma charge_le_size:
  "row_of en_key (et_rows t) k = Some r \<Longrightarrow> charge r \<le> entries_size (en_user r) t"
  by (drule row_of_SomeD) (auto simp: entries_size_def intro!: member_le_sum_list)

text \<open>The effects of a write whose checks have passed.\<close>

lemma write_effects:
  assumes inv: "tables_invar tb" and path: "path_wf path" and h: "length (fm_hash meta) = 32"
    and u: "user_get (ep_pubkey path) (tb_users tb) = Ok u" and load: "load_existing db path tb = Ok existing"
    and new: "prepared_write_new env u existing meta = Ok prepared"
    and fits: "ue_used_bytes u + fm_length meta + FILE_METADATA_SIZE < 2 ^ 63"
    and eff: "apply_write_effects db prepared path meta tb = Ok tb'"
  shows "tables_invar tb'"
    and "changes_file (ep_pubkey path) u (as_str (ep_path path)) (Some (fm_hash meta, fm_length meta, fm_content_type meta)) tb tb'"
    and "entries_size i (tb_entries tb') \<le> entries_size i (tb_entries tb) + fm_length meta + FILE_METADATA_SIZE"
    and "resolve_storage_max_bytes (se_from_json env) u (se_default_storage_mb env) = Some m \<Longrightarrow>
      entries_size (ue_id u) (tb_entries tb') \<le> m"
proof -
  let ?k = "(ue_id u, as_str (ep_path path))"
  let ?row = "row_of en_key (et_rows (tb_entries tb)) ?k"
  have existing: "existing = map_option (entity_of (ep_pubkey path)) ?row"
    by (rule load_existing_row [OF inv u load])
  have ui: "user_invar (tb_users tb)" and en: "entry_invar (tb_users tb) (tb_entries tb)"
    and acc: "ue_used_bytes u = entries_size (ue_id u) (tb_entries tb)"
    using inv u by (auto simp: tables_invar_def accounted_def)
  have row_user: "en_user r = ue_id u" if "?row = Some r" for r using row_of_SomeD [OF that] by simp
  have old: "charge r \<le> ue_used_bytes u" if "?row = Some r" for r
    using charge_le_size [OF that] row_user [OF that] acc by simp
  have small: "fm_length meta + FILE_METADATA_SIZE < 2 ^ 63" "\<And>e. existing = Some e \<Longrightarrow> ee_length e < 2 ^ 63"
    using fits old by (auto simp: existing charge_def)
  note p = prepared_write_new_ok [OF new small]
  define used where "used = saturating_add_signed (ue_used_bytes u) (pw_bytes_delta prepared)"
  obtain entries' users' where wr: "write_entry (db_now db) u existing path meta (tb_entries tb) = Ok entries'"
    and upd: "user_update (u\<lparr>ue_used_bytes := used\<rparr>) (tb_users tb) = Ok users'"
    and tb': "tb' = \<lparr>tb_users = users', tb_entries = entries',
      tb_events = snd (event_create (db_now db) (ue_id u) (PutEvent (fm_hash meta)) path (tb_events tb))\<rparr>"
    using eff p(1,2) by (auto simp: apply_write_effects_def Let_def and_then_ok_iff used_def)
  have "\<exists>new. entry_invar (tb_users tb) entries' \<and>
      (\<forall>k. row_of en_key (et_rows entries') k = (if k = ?k then Some new else row_of en_key (et_rows (tb_entries tb)) k)) \<and>
      (en_hash new, en_length new, en_type new) = (fm_hash meta, fm_length meta, fm_content_type meta) \<and>
      used = entries_size (ue_id u) entries' \<and> int used = int (ue_used_bytes u) + pw_bytes_delta prepared \<and> 0 < used \<and>
      (\<forall>i. i \<noteq> ue_id u \<longrightarrow> entries_size i entries' = entries_size i (tb_entries tb))"
  proof (cases ?row)
    case None
    have owner: "owner_key (tb_users tb) (ue_id u) \<noteq> None" using owner_key_get [OF ui u, of "ue_id u"] by simp
    have iu: "int used = int (ue_used_bytes u) + int (fm_length meta) + int FILE_METADATA_SIZE"
      using saturating_add_signed_exact [of "ue_used_bytes u" "pw_bytes_delta prepared"] p(3) fits None existing
      by (simp add: used_def)
    obtain i where create: "entry_create (db_now db) (ue_id u) (ep_path path) (fm_hash meta) (fm_length meta)
        (fm_content_type meta) (tb_entries tb) = Ok (i, entries')"
      using wr None existing by (auto simp: write_entry_def map_ok_def split: sum.splits)
    have "used = entries_size (ue_id u) entries'"
      using iu entries_size_create [OF create, of "ue_id u"] acc by simp
    moreover have "int used = int (ue_used_bytes u) + pw_bytes_delta prepared" "0 < used"
      using iu p(3) None existing by (simp_all add: FILE_METADATA_SIZE_def)
    ultimately show ?thesis
      using entry_create_ok [OF en owner _ _ h None, of "db_now db" "fm_length meta" "fm_content_type meta"] create path
        entries_size_create [OF create]
      by (auto simp: path_wf_def)
  next
    case (Some r)
    let ?e = "(entity_of (ep_pubkey path) r)\<lparr>ee_hash := fm_hash meta, ee_length := fm_length meta, ee_type := fm_content_type meta\<rparr>"
    have e: "entries' = entry_update (db_now db) ?e (tb_entries tb)" using wr existing Some by (simp add: write_entry_def)
    have size: "entries_size i entries' + (if en_user r = i then en_length r else 0) =
        entries_size i (tb_entries tb) + (if en_user r = i then fm_length meta else 0)" for i
      unfolding e using entries_size_update [OF en Some, of ?e i "db_now db"] by simp
    have iu: "int used = int (ue_used_bytes u) + int (fm_length meta) - int (en_length r)"
      using saturating_add_signed_exact [of "ue_used_bytes u" "pw_bytes_delta prepared"] p(3) fits Some existing old [OF Some]
      by (simp add: used_def charge_def)
    then have "used = entries_size (ue_id u) entries'" using size [of "ue_id u"] row_user [OF Some] acc by simp
    moreover have "int used = int (ue_used_bytes u) + pw_bytes_delta prepared" "0 < used"
      using iu p(3) Some existing old [OF Some] by (simp_all add: charge_def FILE_METADATA_SIZE_def)
    moreover have "entries_size i entries' = entries_size i (tb_entries tb)" if "i \<noteq> ue_id u" for i
      using size [of i] row_user [OF Some] that by simp
    ultimately show ?thesis
      using entry_update_ok [OF en Some, of ?e "db_now db"] h
      by (intro exI [of _ "r\<lparr>en_hash := fm_hash meta, en_length := fm_length meta, en_type := fm_content_type meta, en_modified_at := db_now db\<rparr>"])
        (simp add: e)
  qed
  then obtain new where new: "entry_invar (tb_users tb) entries'"
      "\<forall>k. row_of en_key (et_rows entries') k = (if k = ?k then Some new else row_of en_key (et_rows (tb_entries tb)) k)"
      "(en_hash new, en_length new, en_type new) = (fm_hash meta, fm_length meta, fm_content_type meta)"
      "used = entries_size (ue_id u) entries'"
      "\<And>i. i \<noteq> ue_id u \<Longrightarrow> entries_size i entries' = entries_size i (tb_entries tb)"
      "int used = int (ue_used_bytes u) + pw_bytes_delta prepared" "0 < used"
    by auto
  have ty: "case Some new of Some r \<Rightarrow> PutEvent (fm_hash meta) = PutEvent (en_hash r) \<and> length (en_hash r) = 32
      | None \<Rightarrow> PutEvent (fm_hash meta) = DeleteEvent"
    using new(3) h by simp
  note change = tables_invar_change [OF inv u path upd new(1,2,4,5) ty tb']
  show "tables_invar tb'" by (rule change(1))
  show "changes_file (ep_pubkey path) u (as_str (ep_path path)) (Some (fm_hash meta, fm_length meta, fm_content_type meta)) tb tb'"
    using change(2) new(3) by simp
  have "pw_bytes_delta prepared \<le> int (fm_length meta) + int FILE_METADATA_SIZE" using p(3) by (cases existing) auto
  then have "used \<le> ue_used_bytes u + fm_length meta + FILE_METADATA_SIZE" using new(6) by linarith
  then show "entries_size i (tb_entries tb') \<le> entries_size i (tb_entries tb) + fm_length meta + FILE_METADATA_SIZE"
    using new(4,5) acc tb' by (cases "i = ue_id u") auto
  show "entries_size (ue_id u) (tb_entries tb') \<le> m"
    if "resolve_storage_max_bytes (se_from_json env) u (se_default_storage_mb env) = Some m"
    using p(4) that new(4,6,7) tb' by (simp add: would_exceed_limit_def Let_def)
qed

section \<open>A delete\<close>

lemma delete_effects:
  assumes inv: "tables_invar tb" and path: "path_wf path"
    and del: "delete_in_transaction db token path locks tb = Ok (Some tb')"
    and fits: "\<And>i. entries_size i (tb_entries tb) < 2 ^ 63"
  shows "\<exists>u. user_get (ep_pubkey path) (tb_users tb) = Ok u \<and> write_lock_hold db token path locks = Ok () \<and>
    files_of tb (ue_id u, as_str (ep_path path)) \<noteq> None \<and> tables_invar tb' \<and>
    changes_file (ep_pubkey path) u (as_str (ep_path path)) None tb tb' \<and>
    (\<forall>i. entries_size i (tb_entries tb') \<le> entries_size i (tb_entries tb))"
proof -
  obtain sd entries' where st: "stage_delete db token path locks tb = Ok (Some (sd, entries'))"
    and app: "apply_delete_effects db sd path (tb\<lparr>tb_entries := entries'\<rparr>) = Ok tb'"
    using del by (auto simp: delete_in_transaction_def and_then_ok_iff split: option.splits)
  from st obtain u e where u: "user_get (ep_pubkey path) (tb_users tb) = Ok u" and hold: "write_lock_hold db token path locks = Ok ()"
    and load: "load_existing db path tb = Ok (Some e)" and sd: "sd = \<lparr>sd_user = u, sd_deleted_entry = e\<rparr>"
    and entries': "entries' = entry_delete (ee_id e) (tb_entries tb)"
    by (auto simp: stage_delete_def db_query_def or_unexpected_def and_then_ok_iff split: sum.splits option.splits sql_error.splits if_splits)
  let ?k = "(ue_id u, as_str (ep_path path))"
  obtain r where r: "row_of en_key (et_rows (tb_entries tb)) ?k = Some r" "e = entity_of (ep_pubkey path) r"
    using load_existing_row [OF inv u load, symmetric] by auto
  have en: "entry_invar (tb_users tb) (tb_entries tb)" and acc: "ue_used_bytes u = entries_size (ue_id u) (tb_entries tb)"
    using inv u by (auto simp: tables_invar_def accounted_def)
  have ur: "en_user r = ue_id u" using row_of_SomeD [OF r(1)] by simp
  define used where "used = ue_used_bytes u - saturating_add (ee_length e) FILE_METADATA_SIZE"
  obtain users' where upd: "user_update (u\<lparr>ue_used_bytes := used\<rparr>) (tb_users tb) = Ok users'"
    and tb': "tb' = \<lparr>tb_users = users', tb_entries = entries',
      tb_events = snd (event_create (db_now db) (ue_id u) DeleteEvent path (tb_events tb))\<rparr>"
    using app sd by (auto simp: apply_delete_effects_def Let_def and_then_ok_iff used_def)
  have e: "entries' = entry_delete (en_id r) (tb_entries tb)" using entries' r(2) by simp
  note size = entries_size_delete [OF en r(1), folded e]
  have "charge r < 2 ^ 63" using size [of "ue_id u"] ur fits [of "ue_id u"] by simp
  then have "saturating_add (ee_length e) FILE_METADATA_SIZE = charge r"
    using r(2) by (simp add: saturating_add_def u64_max_def charge_def)
  then have used: "used = entries_size (ue_id u) entries'"
    using size [of "ue_id u"] ur acc by (simp add: used_def)
  have others: "entries_size i entries' = entries_size i (tb_entries tb)" if "i \<noteq> ue_id u" for i
    using size [of i] ur that by simp
  have files: "\<forall>k. row_of en_key (et_rows entries') k = (if k = ?k then None else row_of en_key (et_rows (tb_entries tb)) k)"
    unfolding e using entry_delete_ok(2) [OF en r(1)] by simp
  have "entry_invar (tb_users tb) entries'" unfolding e by (rule entry_delete_ok(1) [OF en r(1)])
  note change = tables_invar_change [OF inv u path upd this files used others _ tb']
  have "entries_size i (tb_entries tb') \<le> entries_size i (tb_entries tb)" for i using size [of i] tb' by simp
  then show ?thesis using u hold r(1) change by (auto simp: files_of_def)
qed

section \<open>Runs of the store\<close>

text \<open>What happens to the store, in any order: files are closed and deleted by any
  operator, blobs removed, locks taken and given up, users created, disabled and given
  quotas, the object store changes by itself, and the cache of quotas turns over.\<close>

datatype 'b store_op =
    CloseFile operator_kind db_run "string option" fin_writer
  | FinalizeDelete db_run "string option" entry_path
  | RemoveBlob db_run pending_delete
  | ChangeLocks int lock_op
  | CreateUser int public_key
  | SetDisabled public_key bool
  | PatchQuota public_key user_quota_patch
  | ChangeBlobs 'b
  | ChangeCache quota_cache

fun store_step ::
  "'b store_env \<Rightarrow> (storage_path list \<Rightarrow> string) \<Rightarrow> 'b store_op \<Rightarrow> 'b store \<Rightarrow> 'b store" where
  "store_step env to_json (CloseFile op db token w) s =
     snd (snd (fin_writer_close env (operator_policy op) db token w s))"
| "store_step env to_json (FinalizeDelete db token path) s = snd (finalize_delete db token path s)"
| "store_step env to_json (RemoveBlob db pending) s = snd (remove_blob_if_unreferenced env db pending s)"
| "store_step env to_json (ChangeLocks now op) s = s\<lparr>fs_locks := lock_step (fs_locks s) now op\<rparr>"
| "store_step env to_json (CreateUser now pk) s =
     (case user_create now pk (us_db (fs_users s)) of
        Inr (_, t) \<Rightarrow> s\<lparr>fs_users := (fs_users s)\<lparr>us_db := t\<rparr>\<rparr> | Inl _ \<Rightarrow> s)"
| "store_step env to_json (SetDisabled pk disabled) s =
     (case set_disabled pk disabled (us_db (fs_users s)) of
        Inr t \<Rightarrow> s\<lparr>fs_users := (fs_users s)\<lparr>us_db := t\<rparr>\<rparr> | Inl _ \<Rightarrow> s)"
| "store_step env to_json (PatchQuota pk patch) s =
     (case patch_quota to_json (se_from_json env) pk patch (fs_users s) of
        Inr (_, us) \<Rightarrow> s\<lparr>fs_users := us\<rparr> | Inl _ \<Rightarrow> s)"
| "store_step env to_json (ChangeBlobs b) s = s\<lparr>fs_blobs := b\<rparr>"
| "store_step env to_json (ChangeCache c) s = s\<lparr>fs_users := (fs_users s)\<lparr>us_cache := c\<rparr>\<rparr>"

definition store_run ::
  "'b store_env \<Rightarrow> (storage_path list \<Rightarrow> string) \<Rightarrow> 'b store_op list \<Rightarrow> 'b store \<Rightarrow> 'b store" where
  "store_run env to_json ops s = fold (store_step env to_json) ops s"

definition store_empty :: "'b \<Rightarrow> 'b store" where
  "store_empty b = \<lparr>fs_users = \<lparr>us_db = \<lparr>ut_rows = [], ut_seq = 1\<rparr>, us_cache = []\<rparr>,
     fs_entries = \<lparr>et_rows = [], et_seq = 1\<rparr>, fs_events = \<lparr>vt_rows = [], vt_seq = 1\<rparr>, fs_locks = [], fs_blobs = b\<rparr>"

text \<open>The paths of files come from the parser of entry paths, and hashes have 32
  bytes; the bytes uploaded over a run, with the charge of each file, bound every
  user's usage.\<close>

fun op_wf :: "'b store_env \<Rightarrow> 'b store_op \<Rightarrow> bool" where
  "op_wf env (CloseFile op db token w) \<longleftrightarrow> path_wf (fw_path w) \<and> length (fm_hash (writer_metadata env w)) = 32"
| "op_wf env (FinalizeDelete db token path) \<longleftrightarrow> path_wf path"
| "op_wf env _ \<longleftrightarrow> True"

fun op_volume :: "'b store_env \<Rightarrow> 'b store_op \<Rightarrow> nat" where
  "op_volume env (CloseFile op db token w) = fm_length (writer_metadata env w) + FILE_METADATA_SIZE"
| "op_volume env _ = 0"

definition run_volume :: "'b store_env \<Rightarrow> 'b store_op list \<Rightarrow> nat" where
  "run_volume env ops = sum_list (map (op_volume env) ops)"

section \<open>Every step keeps the invariant\<close>

lemma tables_of_blobs [simp]: "tables_of (s\<lparr>fs_blobs := b\<rparr>) = tables_of s"
  by (simp add: tables_of_def)

lemma tables_of_commit [simp]: "tables_of (commit_tables tb s) = tb"
  by (simp add: tables_of_def commit_tables_def)

lemma tables_of_sel [simp]:
  "tb_users (tables_of s) = us_db (fs_users s)" "tb_entries (tables_of s) = fs_entries s" "tb_events (tables_of s) = fs_events s"
  by (simp_all add: tables_of_def)

text \<open>A finalization leaves the tables alone, or its checks have passed and it applies
  all its effects at once; it succeeds only in the latter case.\<close>

lemma finalize_write_atomic:
  assumes "finalize_write env policy db token w path meta s = (r, w', s')"
  obtains (unchanged) "tables_of s' = tables_of s" "r \<noteq> Ok ()"
  | (applied) u existing prepared tb' where "user_get (ep_pubkey path) (us_db (fs_users s)) = Ok u"
      "write_lock_hold db token path (fs_locks s) = Ok ()"
      "enforces_collisions policy \<longrightarrow> check_no_path_collision db path (tables_of s) = Ok ()"
      "load_existing db path (tables_of s) = Ok existing" "prepared_write_new env u existing meta = Ok prepared"
      "apply_write_effects db prepared path meta (tables_of s) = Ok tb'" "tables_of s' = tb'"
proof (cases "db_fails db DbBegin")
  case True
  then show thesis using assms unchanged by (auto simp: finalize_write_def)
next
  case False
  obtain res w1 blobs where t: "write_in_transaction env policy db token w path meta s = (res, w1, blobs)" by (metis prod_cases3)
  show thesis
  proof (cases res)
    case (Inl failure)
    then show thesis using assms unchanged False t by (auto simp: finalize_write_def)
  next
    case (Inr tb')
    then obtain prepared where p: "prepare_write env policy db token path meta (fs_locks s) (tables_of s) = Ok prepared"
      "apply_write_effects db prepared path meta (tables_of s) = Ok tb'"
      using t by (auto simp: write_in_transaction_def map_err_def split: sum.splits prod.splits)
    have s': "tables_of s' = tables_of s \<and> r \<noteq> Ok () \<or> tables_of s' = tb'"
      using assms False t Inr by (auto simp: finalize_write_def finish_transaction_def split: commit_outcome.splits)
    obtain u existing where "user_get (ep_pubkey path) (us_db (fs_users s)) = Ok u" "write_lock_hold db token path (fs_locks s) = Ok ()"
      "enforces_collisions policy \<longrightarrow> check_no_path_collision db path (tables_of s) = Ok ()"
      "load_existing db path (tables_of s) = Ok existing" "prepared_write_new env u existing meta = Ok prepared"
      using prepare_write_ok [OF p(1)] by auto
    then show thesis using s' unchanged applied p(2) by blast
  qed
qed

lemma finalize_write_error:
  assumes "finalize_write env policy db token w path meta s = (r, w', s')" and "r \<noteq> Ok ()" and "db_commit db \<noteq> CommitUnanswered"
  shows "tables_of s' = tables_of s"
  using assms
  by (auto simp: finalize_write_def finish_transaction_def split: if_splits prod.splits sum.splits commit_outcome.splits)

lemma fin_writer_close_tables:
  assumes "fin_writer_close env policy db token w s = (r, w', s')"
  obtains (closed) "fw_inner w = None" "s' = s" "r \<noteq> Ok ()"
  | (finalized) inner r' inner' s1 where
      "finalize_write env policy db token inner (fw_path w) (writer_metadata env w) s = (r', inner', s1)"
      "tables_of s' = tables_of s1" "r = Ok () \<longleftrightarrow> r' = Ok ()"
proof (cases "fw_inner w")
  case None
  then show thesis using assms closed by (auto simp: fin_writer_close_def)
next
  case (Some inner)
  obtain r' inner' s1 where f: "finalize_write env policy db token inner (fw_path w) (writer_metadata env w) s = (r', inner', s1)"
    by (metis prod_cases3)
  then have "tables_of s' = tables_of s1 \<and> (r = Ok () \<longleftrightarrow> r' = Ok ())"
    using assms Some by (auto simp: fin_writer_close_def split: sum.splits write_failure.splits)
  then show thesis using finalized f by blast
qed

lemma finalize_delete_tables:
  assumes "finalize_delete db token path s = (r, s')"
  shows "tables_of s' = tables_of s \<or>
    (\<exists>tb'. delete_in_transaction db token path (fs_locks s) (tables_of s) = Ok (Some tb') \<and> tables_of s' = tb')"
  using assms
  by (auto simp: finalize_delete_def finish_transaction_def split: if_splits sum.splits option.splits commit_outcome.splits)

lemma remove_blob_tables: "tables_of (snd (remove_blob_if_unreferenced env db pending s)) = tables_of s"
  by (simp add: remove_blob_if_unreferenced_def split: prod.splits)

text \<open>A change of the users table that keeps every id and charge, or adds a user
  with a fresh id.\<close>

lemma tables_invar_users:
  assumes inv: "tables_invar tb" and ui: "user_invar users'"
    and same: "\<And>pk. map_ok (\<lambda>u. (ue_id u, ue_used_bytes u)) (user_get pk users') =
      map_ok (\<lambda>u. (ue_id u, ue_used_bytes u)) (user_get pk (tb_users tb))"
  shows "tables_invar (tb\<lparr>tb_users := users'\<rparr>)"
proof -
  have get: "\<exists>v. user_get pk (tb_users tb) = Ok v \<and> ue_id v = ue_id u \<and> ue_used_bytes v = ue_used_bytes u"
    if "user_get pk users' = Ok u" for pk u
    using same [of pk] that by (cases "user_get pk (tb_users tb)") auto
  have "map_ok ue_id (user_get pk users') = map_ok ue_id (user_get pk (tb_users tb))" for pk
    using same [of pk] by (cases "user_get pk users'"; cases "user_get pk (tb_users tb)") auto
  then have owner: "owner_key users' = owner_key (tb_users tb)"
    using owner_key_cong [OF _ ui] inv by (auto simp: tables_invar_def fun_eq_iff)
  show ?thesis
    using inv ui get
    by (fastforce simp: tables_invar_def entry_invar_owner [OF owner] event_invar_owner [OF owner] accounted_def logged_def files_of_def)
qed

lemma tables_invar_create:
  assumes inv: "tables_invar tb" and create: "user_create now pk (tb_users tb) = Ok (u, users')"
  shows "tables_invar (tb\<lparr>tb_users := users'\<rparr>)"
proof -
  have ui: "user_invar (tb_users tb)" and en: "entry_invar (tb_users tb) (tb_entries tb)"
    and ev: "event_invar (tb_users tb) (tb_events tb)" and acc: "accounted tb" and log: "logged tb"
    using inv by (simp_all add: tables_invar_def)
  have ui': "user_invar users'" by (rule user_invar_create [OF ui create])
  have u: "ue_id u = ut_seq (tb_users tb)" "ue_used_bytes u = 0" "ut_rows users' = ut_rows (tb_users tb) @ [u]"
    using create by (auto simp: user_create_def Let_def split: if_splits)
  have fresh: "owner_key (tb_users tb) (ue_id u) = None"
    using ui u(1) by (auto simp: owner_key_def row_of_None_iff user_invar_def)
  have owner: "owner_key users' i = (if i = ue_id u then Some (ue_public_key u) else owner_key (tb_users tb) i)" for i
    using fresh u(3) by (auto simp: owner_key_def row_of_append row_of_Cons split: option.splits)
  have "\<forall>r \<in> set (et_rows (tb_entries tb)). en_user r \<noteq> ue_id u" using en fresh by (auto simp: entry_invar_def entry_row_wf_def)
  then have "entries_size (ue_id u) (tb_entries tb) = 0" by (simp add: entries_size_def)
  then have "accounted (tb\<lparr>tb_users := users'\<rparr>)"
    using acc user_create_get [OF create] u(2) by (auto simp: accounted_def split: if_splits)
  moreover have "entry_invar users' (tb_entries tb)" using en owner by (auto simp: entry_invar_def entry_row_wf_def)
  moreover have "event_invar users' (tb_events tb)" using ev owner by (auto simp: event_invar_def event_row_wf_def)
  ultimately show ?thesis using ui' log by (simp add: tables_invar_def logged_def files_of_def)
qed

lemma tables_of_users: "tables_of (s\<lparr>fs_users := (fs_users s)\<lparr>us_db := t\<rparr>\<rparr>) = (tables_of s)\<lparr>tb_users := t\<rparr>"
  by (simp add: tables_of_def)

lemma set_disabled_keeps:
  assumes "tables_invar tb" and "set_disabled pk disabled (tb_users tb) = Ok t"
  shows "tables_invar (tb\<lparr>tb_users := t\<rparr>)"
proof -
  obtain u where u: "user_get pk (tb_users tb) = Ok u" and t: "user_update (u\<lparr>ue_disabled := disabled\<rparr>) (tb_users tb) = Ok t"
    using assms(2) by (auto simp: set_disabled_def split: sum.splits sql_error.splits)
  have "user_invar (tb_users tb)" using assms(1) by (simp add: tables_invar_def)
  from user_update_ok [OF this u, of "u\<lparr>ue_disabled := disabled\<rparr>"] t u
  show ?thesis by (intro tables_invar_users [OF assms(1)]) auto
qed

lemma patch_quota_keeps:
  assumes "tables_invar (tables_of s)" and "patch_quota to_json from_json pk patch (fs_users s) = Ok (v, us)"
  shows "tables_invar (tables_of (s\<lparr>fs_users := us\<rparr>))"
proof -
  have ui: "user_invar (us_db (fs_users s))" using assms(1) by (simp add: tables_invar_def)
  obtain u config where u: "user_get pk (us_db (fs_users s)) = Ok u" and valid: "user_quota_validate config = Ok ()"
    and t: "user_set_quota to_json (ue_id u) config (us_db (fs_users s)) = Ok (v, us_db us)"
    using assms(2) by (auto simp: patch_quota_def Let_def and_then_ok_iff split: sum.splits sql_error.splits)
  from user_set_quota_ok [OF ui u valid, of to_json] t u
  have "tables_invar ((tables_of s)\<lparr>tb_users := us_db us\<rparr>)" by (intro tables_invar_users [OF assms(1)]) auto
  then show ?thesis by (simp add: tables_of_def)
qed

definition store_invar :: "nat \<Rightarrow> 'b store \<Rightarrow> bool" where
  "store_invar volume s \<longleftrightarrow> tables_invar (tables_of s) \<and> (\<forall>i. entries_size i (fs_entries s) \<le> volume)"

lemma store_invar_write:
  assumes inv: "store_invar volume s" and wf: "op_wf env (CloseFile op db token w)"
    and small: "volume + op_volume env (CloseFile op db token w) < 2 ^ 63"
  shows "store_invar (volume + op_volume env (CloseFile op db token w)) (store_step env to_json (CloseFile op db token w) s)"
proof -
  let ?meta = "writer_metadata env w"
  obtain r w' s' where c: "fin_writer_close env (operator_policy op) db token w s = (r, w', s')" by (metis prod_cases3)
  have same: "store_invar (volume + op_volume env (CloseFile op db token w)) s'" if "tables_of s' = tables_of s"
    using inv that by (auto simp: store_invar_def tables_of_def intro: trans_le_add1)
  from c have "store_invar (volume + op_volume env (CloseFile op db token w)) s'"
  proof (cases rule: fin_writer_close_tables)
    case closed
    then show ?thesis using same by simp
  next
    case (finalized inner r' inner' s1)
    from finalized(1) show ?thesis
    proof (cases rule: finalize_write_atomic)
      case unchanged
      then show ?thesis using same finalized(2) by simp
    next
      case (applied u existing prepared tb')
      have "tables_invar (tables_of s)" using inv by (simp add: store_invar_def)
      moreover have "ue_used_bytes u \<le> volume"
        using inv applied(1) by (auto simp: store_invar_def tables_invar_def accounted_def)
      then have "ue_used_bytes u + fm_length ?meta + FILE_METADATA_SIZE < 2 ^ 63" using small by simp
      ultimately have tb': "tables_invar tb'"
          "\<And>i. entries_size i (tb_entries tb') \<le> entries_size i (fs_entries s) + fm_length ?meta + FILE_METADATA_SIZE"
        using write_effects(1,3) [OF _ _ _ _ applied(4,5) _ applied(6)] wf applied(1) by auto
      have s': "tables_of s' = tb'" using applied(7) finalized(2) by simp
      have "entries_size i (fs_entries s') \<le> volume + op_volume env (CloseFile op db token w)" for i
      proof -
        have "entries_size i (fs_entries s) \<le> volume" using inv by (simp add: store_invar_def)
        moreover have "fs_entries s' = tb_entries tb'" using s' by (metis tables_of_sel(2))
        ultimately show ?thesis using tb'(2) [of i] by simp
      qed
      then show ?thesis using tb'(1) s' by (simp add: store_invar_def)
    qed
  qed
  then show ?thesis using c by simp
qed

lemma store_invar_step:
  assumes inv: "store_invar volume s" and wf: "op_wf env op" and small: "volume + op_volume env op < 2 ^ 63"
  shows "store_invar (volume + op_volume env op) (store_step env to_json op s)"
proof (cases op)
  case (CloseFile k db token w)
  then show ?thesis using store_invar_write [OF inv] wf small by blast
next
  case (FinalizeDelete db token path)
  let ?s = "snd (finalize_delete db token path s)"
  have tb: "tables_invar (tables_of s)" and size: "\<And>i. entries_size i (fs_entries s) \<le> volume"
    using inv by (simp_all add: store_invar_def)
  have "entries_size i (fs_entries s) < 2 ^ 63" for i using size [of i] small by simp
  then have "tables_of ?s = tables_of s \<or> tables_invar (tables_of ?s) \<and>
      (\<forall>i. entries_size i (fs_entries ?s) \<le> entries_size i (fs_entries s))"
    using finalize_delete_tables [of db token path s "fst (finalize_delete db token path s)" ?s]
      delete_effects [OF tb, of path db token "fs_locks s"] wf FinalizeDelete by (fastforce simp del: tables_of_sel simp: tables_of_sel [symmetric])
  then show ?thesis
  proof
    assume "tables_of ?s = tables_of s"
    then have "fs_entries ?s = fs_entries s" "tables_invar (tables_of ?s)" using tb by (metis tables_of_sel(2), simp)
    then show ?thesis using FinalizeDelete size by (simp add: store_invar_def)
  next
    assume "tables_invar (tables_of ?s) \<and> (\<forall>i. entries_size i (fs_entries ?s) \<le> entries_size i (fs_entries s))"
    then show ?thesis using FinalizeDelete size by (auto simp: store_invar_def intro: order_trans)
  qed
next
  case (RemoveBlob db pending)
  have "tables_of (store_step env to_json op s) = tables_of s" using RemoveBlob remove_blob_tables by simp
  then have "fs_entries (store_step env to_json op s) = fs_entries s" "tables_invar (tables_of (store_step env to_json op s))"
    using inv by (metis tables_of_sel(2), simp add: store_invar_def)
  then show ?thesis using inv RemoveBlob by (simp add: store_invar_def)
next
  case (CreateUser now pk)
  then show ?thesis
    using inv tables_invar_create [of "tables_of s" now pk]
    by (auto simp: store_invar_def tables_of_users split: sum.splits)
next
  case (SetDisabled pk disabled)
  then show ?thesis
    using inv set_disabled_keeps [of "tables_of s" pk disabled]
    by (auto simp: store_invar_def tables_of_users split: sum.splits)
next
  case (PatchQuota pk patch)
  then show ?thesis
    using inv patch_quota_keeps [of s to_json "se_from_json env" pk patch]
    by (auto simp: store_invar_def split: sum.splits)
qed (use inv in \<open>simp_all add: store_invar_def tables_of_def\<close>)

lemma store_invar_run:
  "store_invar volume s \<Longrightarrow> list_all (op_wf env) ops \<Longrightarrow> volume + run_volume env ops < 2 ^ 63 \<Longrightarrow>
   store_invar (volume + run_volume env ops) (store_run env to_json ops s)"
proof (induction ops arbitrary: volume s)
  case (Cons op ops)
  then have "store_invar (volume + op_volume env op) (store_step env to_json op s)"
    by (intro store_invar_step) (simp_all add: run_volume_def)
  from Cons.IH [OF this] Cons.prems show ?case by (simp add: run_volume_def store_run_def add.assoc)
qed (simp add: run_volume_def store_run_def)

lemma store_invar_empty: "store_invar 0 (store_empty b)"
  by (simp add: store_invar_def store_empty_def tables_of_def tables_invar_def user_invar_def entry_invar_def event_invar_def
      accounted_def logged_def log_files_def files_of_def user_get_def entries_size_def)

section \<open>No collisions\<close>

lemma collides_sym:
  assumes "is_file (StoragePath p)" "is_file (StoragePath q)" "p \<noteq> []" "q \<noteq> []" "collides p q"
  shows "collides q p"
  using assms by (auto simp: collides_def is_file_def is_directory_def suffix_def strict_prefix_def prefix_def)

lemma not_collides_self: "\<not> collides p p"
  by (auto simp: collides_def strict_prefix_def dest: prefix_length_le)

lemma collision_freeD:
  assumes "collision_free tb" and "files_of tb (i, p) \<noteq> None"
  shows "is_file (StoragePath p)" and "files_of tb (i, q) \<noteq> None \<Longrightarrow> \<not> collides p q"
  using assms unfolding collision_free_def by blast+

lemma collision_free_write:
  assumes cf: "collision_free tb" and inv: "tables_invar tb" and path: "path_wf path" and isf: "is_file (ep_path path)"
    and u: "user_get (ep_pubkey path) (tb_users tb) = Ok u" and check: "check_no_path_collision db path tb = Ok ()"
    and change: "changes_file (ep_pubkey path) u (as_str (ep_path path)) (Some f) tb tb'"
  shows "collision_free tb'"
proof -
  let ?p = "as_str (ep_path path)"
  have en: "entry_invar (tb_users tb) (tb_entries tb)" using inv by (simp add: tables_invar_def)
  have nonempty: "?p \<noteq> []" using canonical_starts_slash [of "ep_path path"] path by (auto simp: path_wf_def)
  have "\<not> has_file_folder_collision path (tb_users tb) (tb_entries tb)"
    using check by (auto simp: check_no_path_collision_def and_then_ok_iff)
  then have none: "\<not> collides ?p (en_path r)" if "r \<in> set (et_rows (tb_entries tb))" "en_user r = ue_id u" for r
    using has_collision_iff [OF u _ isf] path that by (auto simp: path_wf_def)
  have old: "\<not> collides ?p q \<and> \<not> collides q ?p" if q: "files_of tb (ue_id u, q) \<noteq> None" for q
  proof -
    obtain r where r: "row_of en_key (et_rows (tb_entries tb)) (ue_id u, q) = Some r" using q by (auto simp: files_of_def)
    note row = row_of_SomeD [OF r]
    have "canonical (StoragePath q)" using en row by (auto simp: entry_invar_def entry_row_wf_def)
    then have "q \<noteq> []" using canonical_starts_slash [of "StoragePath q"] by auto
    moreover have "is_file (StoragePath q)" using collision_freeD(1) [OF cf q] .
    moreover have "\<not> collides ?p q" using none [of r] row by simp
    ultimately show ?thesis using collides_sym [of q ?p] isf nonempty by (cases "ep_path path") auto
  qed
  have files: "files_of tb' k = (if k = (ue_id u, ?p) then Some f else files_of tb k)" for k
    using change unfolding changes_file_def by blast
  have keep: "files_of tb k \<noteq> None" if "files_of tb' k \<noteq> None" "k \<noteq> (ue_id u, ?p)" for k
    using that files [of k] by simp
  show ?thesis
    unfolding collision_free_def
  proof (intro allI impI conjI)
    fix i p assume p: "files_of tb' (i, p) \<noteq> None"
    show "is_file (StoragePath p)"
    proof (cases "(i, p) = (ue_id u, ?p)")
      case True
      then show ?thesis using isf by (cases "ep_path path") simp
    next
      case False
      show ?thesis by (rule collision_freeD(1) [OF cf keep [OF p False]])
    qed
    fix q assume q: "files_of tb' (i, q) \<noteq> None"
    consider "(i, p) \<noteq> (ue_id u, ?p)" "(i, q) \<noteq> (ue_id u, ?p)" | "i = ue_id u" "p = ?p" "q \<noteq> ?p"
      | "i = ue_id u" "q = ?p" "p \<noteq> ?p" | "p = ?p" "q = ?p" by auto
    then show "\<not> collides p q"
    proof cases
      case 1
      then show ?thesis using collision_freeD(2) [OF cf keep [OF p] keep [OF q]] by simp
    next
      case 2
      then show ?thesis using old [OF keep [OF q, unfolded 2(1)]] by simp
    next
      case 3
      then show ?thesis using old [OF keep [OF p, unfolded 3(1)]] by simp
    qed (simp add: not_collides_self)
  qed
qed

lemma collision_free_subset:
  "collision_free tb \<Longrightarrow> (\<And>k. files_of tb' k \<noteq> None \<Longrightarrow> files_of tb k \<noteq> None) \<Longrightarrow> collision_free tb'"
  unfolding collision_free_def by blast

text \<open>Every close goes through the operator of the client routes, to the path of a file.\<close>

fun op_app :: "'b store_op \<Rightarrow> bool" where
  "op_app (CloseFile op db token w) \<longleftrightarrow> op = AppOperator \<and> is_file (ep_path (fw_path w))"
| "op_app _ \<longleftrightarrow> True"

lemma files_of_users [simp]: "files_of (tb\<lparr>tb_users := t\<rparr>) = files_of tb"
  by (simp add: files_of_def fun_eq_iff)

lemma collision_free_entries: "collision_free tb \<Longrightarrow> tb_entries tb' = tb_entries tb \<Longrightarrow> collision_free tb'"
  by (simp add: collision_free_def files_of_def)

lemma finalize_delete_files:
  assumes "store_invar volume s" and "volume < 2 ^ 63" and "path_wf path"
    and "files_of (tables_of (snd (finalize_delete db token path s))) k \<noteq> None"
  shows "files_of (tables_of s) k \<noteq> None"
proof -
  let ?s = "snd (finalize_delete db token path s)"
  have tb: "tables_invar (tables_of s)" and "\<And>i. entries_size i (tb_entries (tables_of s)) < 2 ^ 63"
    using assms(1,2) by (auto simp: store_invar_def intro: le_less_trans)
  note effects = delete_effects [OF tb assms(3) _ this(2)]
  consider "tables_of ?s = tables_of s" | tb' where
      "delete_in_transaction db token path (fs_locks s) (tables_of s) = Ok (Some tb')" "tables_of ?s = tb'"
    using finalize_delete_tables [of db token path s "fst (finalize_delete db token path s)" ?s] by auto
  then show ?thesis
  proof cases
    case (2 tb')
    then obtain u where "changes_file (ep_pubkey path) u (as_str (ep_path path)) None (tables_of s) tb'"
      using effects [OF 2(1)] by blast
    then have "files_of tb' k = (if k = (ue_id u, as_str (ep_path path)) then None else files_of (tables_of s) k)"
      unfolding changes_file_def by blast
    then show ?thesis using assms(4) 2(2) by (metis)
  qed (use assms(4) in simp)
qed

lemma store_step_collisions:
  assumes inv: "store_invar volume s" and cf: "collision_free (tables_of s)" and wf: "op_wf env op" "op_app op"
    and small: "volume + op_volume env op < 2 ^ 63"
  shows "collision_free (tables_of (store_step env to_json op s))"
proof (cases op)
  case (CloseFile k db token w)
  let ?meta = "writer_metadata env w"
  obtain r w' s' where c: "fin_writer_close env (operator_policy k) db token w s = (r, w', s')" by (metis prod_cases3)
  from c have "collision_free (tables_of s')"
  proof (cases rule: fin_writer_close_tables)
    case (finalized inner r' inner' s1)
    from finalized(1) show ?thesis
    proof (cases rule: finalize_write_atomic)
      case (applied u existing prepared tb')
      have tb: "tables_invar (tables_of s)" using inv by (simp add: store_invar_def)
      have "ue_used_bytes u \<le> volume" using inv applied(1) by (auto simp: store_invar_def tables_invar_def accounted_def)
      then have "ue_used_bytes u + fm_length ?meta + FILE_METADATA_SIZE < 2 ^ 63" using small CloseFile by simp
      then have "changes_file (ep_pubkey (fw_path w)) u (as_str (ep_path (fw_path w)))
          (Some (fm_hash ?meta, fm_length ?meta, fm_content_type ?meta)) (tables_of s) tb'"
        using write_effects(2) [OF tb _ _ _ applied(4,5) _ applied(6)] wf(1) CloseFile applied(1) by simp
      moreover have "check_no_path_collision db (fw_path w) (tables_of s) = Ok ()"
        using applied(3) wf(2) CloseFile by (simp add: operator_policy_def from_enforcement_def)
      ultimately have "collision_free tb'"
        using collision_free_write [OF cf tb, of "fw_path w" u db _ tb'] wf CloseFile applied(1) by simp
      then show ?thesis using applied(7) finalized(2) by simp
    qed (use cf finalized(2) in simp)
  qed (use cf in simp)
  then show ?thesis using CloseFile c by simp
next
  case (FinalizeDelete db token path)
  then show ?thesis
    using collision_free_subset [OF cf finalize_delete_files [OF inv]] wf(1) small by simp
next
  case (RemoveBlob db pending)
  then show ?thesis using cf by (simp add: remove_blob_tables)
next
  case (CreateUser now pk)
  then show ?thesis by (intro collision_free_entries [OF cf]) (simp split: sum.splits)
next
  case (SetDisabled pk disabled)
  then show ?thesis by (intro collision_free_entries [OF cf]) (simp split: sum.splits)
next
  case (PatchQuota pk patch)
  then show ?thesis by (intro collision_free_entries [OF cf]) (simp split: sum.splits)
qed (use collision_free_entries [OF cf] in simp_all)

lemma store_run_collisions:
  "store_invar volume s \<Longrightarrow> collision_free (tables_of s) \<Longrightarrow> list_all (op_wf env) ops \<Longrightarrow> list_all op_app ops \<Longrightarrow>
   volume + run_volume env ops < 2 ^ 63 \<Longrightarrow> collision_free (tables_of (store_run env to_json ops s))"
proof (induction ops arbitrary: volume s)
  case (Cons op ops)
  have small: "volume + op_volume env op < 2 ^ 63" using Cons.prems(5) by (simp add: run_volume_def)
  have "store_invar (volume + op_volume env op) (store_step env to_json op s)"
    using Cons.prems by (intro store_invar_step [OF _ _ small]) simp_all
  moreover have "collision_free (tables_of (store_step env to_json op s))"
    using Cons.prems by (intro store_step_collisions [OF _ _ _ _ small]) simp_all
  ultimately show ?case
    using Cons.IH Cons.prems by (simp add: run_volume_def store_run_def add.assoc)
qed (simp add: store_run_def)

section \<open>Properties\<close>

text \<open>C7: The bytes charged to a user are always those of the user's files.  Over every
  sequence of writes and deletes by any operator, with statements and commits failing
  anywhere, commits whose answer is lost, locks, quota changes and a store that
  changes by itself, a user's \<^verbatim>\<open>used_bytes\<close> is the sum over the user's entries of
  the content length and the fixed charge of a file, as long as the uploads of the run
  stay below the range of a signed 64-bit integer.\<close>

theorem usage_matches_files:
  assumes "list_all (op_wf env) ops" and "run_volume env ops < 2 ^ 63"
    and "user_get pk (us_db (fs_users (store_run env to_json ops (store_empty b)))) = Ok u"
  shows "ue_used_bytes u = entries_size (ue_id u) (fs_entries (store_run env to_json ops (store_empty b)))"
  using store_invar_run [OF store_invar_empty [of b] assms(1), of to_json] assms(2,3)
  by (auto simp: store_invar_def tables_invar_def accounted_def)

text \<open>C8: The event log describes the files.  Over every such sequence, replaying the
  events of a user, a \<^verbatim>\<open>PUT\<close> as setting the hash of its path and a \<^verbatim>\<open>DEL\<close> as removing
  it, gives for every path the content hash of the entry the repository finds there,
  and nothing where it finds none.\<close>

theorem event_log_describes_files:
  assumes "list_all (op_wf env) ops" and "run_volume env ops < 2 ^ 63"
    and "user_get (ep_pubkey path) (us_db (fs_users (store_run env to_json ops (store_empty b)))) = Ok u"
  shows "log_files (vt_rows (fs_events (store_run env to_json ops (store_empty b)))) (ue_id u, as_str (ep_path path)) =
    (case entry_get_by_path path (us_db (fs_users (store_run env to_json ops (store_empty b))))
        (fs_entries (store_run env to_json ops (store_empty b))) of
       Inr e \<Rightarrow> Some (ee_hash e) | Inl _ \<Rightarrow> None)"
proof -
  let ?s = "store_run env to_json ops (store_empty b)"
  have inv: "tables_invar (tables_of ?s)"
    using store_invar_run [OF store_invar_empty [of b] assms(1), of to_json] assms(2) by (simp add: store_invar_def)
  then have "user_invar (us_db (fs_users ?s))" "entry_invar (us_db (fs_users ?s)) (fs_entries ?s)" "logged (tables_of ?s)"
    by (simp_all add: tables_invar_def)
  then show ?thesis
    using entry_get_by_path_row [of "us_db (fs_users ?s)" "fs_entries ?s" path u] assms(3)
    by (auto simp: logged_def files_of_def entity_of_def split: option.splits)
qed

text \<open>C37: Closing a file is all or nothing, and succeeds only within the rules.  A
  close that answers with success found its user, held the lock it ran under at that
  moment, met no file or folder in its way where the operator enforces that, left the
  user within the storage quota, and made the path describe the uploaded bytes while
  every other file stays as it was.  A close that answers with an error leaves the
  users, entries and events untouched, unless its commit took effect and only the
  answer was lost.\<close>

theorem close_file_exact:
  assumes "store_invar volume s" and "op_wf env (CloseFile op db token w)"
    and "volume + op_volume env (CloseFile op db token w) < 2 ^ 63"
    and "fin_writer_close env (operator_policy op) db token w s = (r, w', s')"
  shows "(r = Ok () \<longrightarrow> (\<exists>u. user_get (ep_pubkey (fw_path w)) (us_db (fs_users s)) = Ok u \<and>
        (\<forall>t. token = Some t \<longrightarrow> hold (db_clock db) (ep_key (fw_path w)) t (fs_locks s)) \<and>
        (op = AppOperator \<longrightarrow> \<not> has_file_folder_collision (fw_path w) (us_db (fs_users s)) (fs_entries s)) \<and>
        (\<forall>m. resolve_storage_max_bytes (se_from_json env) u (se_default_storage_mb env) = Some m \<longrightarrow>
           entries_size (ue_id u) (fs_entries s') \<le> m) \<and>
        (\<forall>k. files_of (tables_of s') k = (if k = (ue_id u, as_str (ep_path (fw_path w)))
           then Some (fm_hash (writer_metadata env w), fm_length (writer_metadata env w), fm_content_type (writer_metadata env w))
           else files_of (tables_of s) k)))) \<and>
    (r \<noteq> Ok () \<longrightarrow> db_commit db \<noteq> CommitUnanswered \<longrightarrow> tables_of s' = tables_of s)"
proof -
  let ?meta = "writer_metadata env w"
  have inv: "tables_invar (tables_of s)" using assms(1) by (simp add: store_invar_def)
  from assms(4) show ?thesis
  proof (cases rule: fin_writer_close_tables)
    case (finalized inner r' inner' s1)
    from finalized(1) show ?thesis
    proof (cases rule: finalize_write_atomic)
      case unchanged
      then show ?thesis using finalized(2,3) by simp
    next
      case (applied u existing prepared tb')
      have "ue_used_bytes u \<le> volume" using assms(1) applied(1) by (auto simp: store_invar_def tables_invar_def accounted_def)
      then have fits: "ue_used_bytes u + fm_length ?meta + FILE_METADATA_SIZE < 2 ^ 63" using assms(3) by simp
      have wf: "path_wf (fw_path w)" "length (fm_hash ?meta) = 32" using assms(2) by simp_all
      have u: "user_get (ep_pubkey (fw_path w)) (tb_users (tables_of s)) = Ok u" using applied(1) by simp
      note effects = write_effects [OF inv wf u applied(4,5) fits applied(6)]
      have lock: "hold (db_clock db) (ep_key (fw_path w)) t (fs_locks s)" if "token = Some t" for t
        using applied(2) that by (auto simp: write_lock_hold_def and_then_ok_iff)
      have coll: "\<not> has_file_folder_collision (fw_path w) (us_db (fs_users s)) (fs_entries s)" if "op = AppOperator"
        using applied(3) that by (auto simp: check_no_path_collision_def and_then_ok_iff operator_policy_def from_enforcement_def)
      have s': "tables_of s' = tb'" "fs_entries s' = tb_entries tb'"
        using applied(7) finalized(2) by (simp, metis tables_of_sel(2))
      have files: "\<forall>k. files_of tb' k = (if k = (ue_id u, as_str (ep_path (fw_path w)))
          then Some (fm_hash ?meta, fm_length ?meta, fm_content_type ?meta) else files_of (tables_of s) k)"
        using effects(2) unfolding changes_file_def by blast
      have err: "tables_of s' = tables_of s" if "r \<noteq> Ok ()" "db_commit db \<noteq> CommitUnanswered"
        using finalized that finalize_write_error by metis
      show ?thesis using applied(1) lock coll effects(4) files s' err by auto
    qed
  qed auto
qed

text \<open>C38: Files and folders never collide.  Over every sequence in which files are
  written through the operator of the client routes, no file of a user lies where
  another file of that user has a folder.\<close>

theorem files_never_collide:
  assumes "list_all (op_wf env) ops" and "list_all op_app ops" and "run_volume env ops < 2 ^ 63"
    and "files_of (tables_of (store_run env to_json ops (store_empty b))) (i, p) \<noteq> None"
    and "files_of (tables_of (store_run env to_json ops (store_empty b))) (i, q) \<noteq> None"
  shows "\<not> prefix (p @ ''/'') q"
proof -
  have "collision_free (tables_of (store_run env to_json ops (store_empty b)))"
    using store_run_collisions [OF store_invar_empty [of b] _ assms(1,2), of to_json] assms(3)
    by (simp add: collision_free_def files_of_def store_empty_def)
  note cf = collision_freeD [OF this]
  have "\<not> collides p q" and "is_file (StoragePath q)" using cf(2) [OF assms(4,5)] cf(1) [OF assms(5)] by auto
  then show ?thesis by (auto simp: collides_def strict_prefix_def is_file_def is_directory_def)
qed

section \<open>Examples\<close>

text \<open>An object store in memory that gives every write a new generation.\<close>

record memory_store =
  ms_objects :: "(string \<times> string \<times> nat) list"
  ms_next :: nat

definition memory_put :: "string \<Rightarrow> string \<Rightarrow> memory_store \<Rightarrow> memory_store" where
  "memory_put p c b = \<lparr>ms_objects = AList.update p (c, ms_next b) (ms_objects b), ms_next = ms_next b + 1\<rparr>"

definition memory_version :: "string \<Rightarrow> memory_store \<Rightarrow> string" where
  "memory_version p b = show_nat (case map_of (ms_objects b) p of Some (_, g) \<Rightarrow> g | None \<Rightarrow> 0)"

definition memory_object_store :: "memory_store object_store" where
  "memory_object_store =
     \<lparr>os_stat = (\<lambda>p b. case map_of (ms_objects b) p of
         None \<Rightarrow> Err (opendal_err NotFound)
       | Some (c, g) \<Rightarrow> Ok \<lparr>om_length = length c, om_version = Some (show_nat g), om_etag = Some (show_nat g)\<rparr>),
      os_read = (\<lambda>p etag b. case map_of (ms_objects b) p of
         None \<Rightarrow> Err (opendal_err NotFound)
       | Some (c, g) \<Rightarrow> if etag = None \<or> etag = Some (show_nat g) then Ok c else Err (opendal_err ConditionNotMatch)),
      os_chunk = (\<lambda>_ _ b. (Ok (), b)),
      os_close = (\<lambda>p c b. (Ok (), memory_put p c b)),
      os_abort = (\<lambda>_ b. (Ok (), b)),
      os_copy = (\<lambda>src dst v b. case map_of (ms_objects b) src of
         None \<Rightarrow> (Err (opendal_err NotFound), b)
       | Some (c, _) \<Rightarrow> if memory_version dst b = v then (Ok (), memory_put dst c b)
                       else (Err (opendal_err ConditionNotMatch), b)),
      os_delete = (\<lambda>p args b. if (case od_if_version_match args of None \<Rightarrow> True | Some v \<Rightarrow> memory_version p b = v)
         then (Ok (), b\<lparr>ms_objects := AList.delete p (ms_objects b)\<rparr>)
         else (Err (opendal_err ConditionNotMatch), b))\<rparr>"

definition example_store_env :: "bool \<Rightarrow> memory_store store_env" where
  "example_store_env staged =
     \<lparr>se_from_json = (\<lambda>_. None), se_key_parser = Some \<circ> PublicKey, se_object_store = memory_object_store,
      se_staged = staged,
      se_content = \<lparr>cn_hash = (\<lambda>c. take 32 (c @ replicate 32 (CHR ''0''))), cn_infer = (\<lambda>_. None),
        cn_mime_guess = (\<lambda>_. ''text/plain'')\<rparr>,
      se_default_storage_mb = Some 1\<rparr>"

definition example_db :: db_run where
  "example_db = \<lparr>db_fails = (\<lambda>_. False), db_commit = Committed, db_now = 5, db_clock = 5\<rparr>"

abbreviation example_file :: "string \<Rightarrow> entry_path" where
  "example_file p \<equiv> entry_path_new (PublicKey ''a'') (StoragePath p)"

definition example_writer :: "string \<Rightarrow> string \<Rightarrow> fin_writer" where
  "example_writer p content =
     fst (snd (fin_writer_write (example_store_env True) content
       (fin_writer_new (backend_open ''u'' (ep_key (example_file p))) (example_file p))
       (store_empty \<lparr>ms_objects = [], ms_next = 1\<rparr>)))"

abbreviation example_start :: "memory_store store" where
  "example_start \<equiv> store_empty \<lparr>ms_objects = [], ms_next = 1\<rparr>"

definition example_ops :: "memory_store store_op list" where
  "example_ops = [CreateUser 0 (PublicKey ''a''),
     CloseFile AppOperator example_db None (example_writer ''/pub/z'' ''hello''),
     CloseFile AppOperator example_db None (example_writer ''/pub/d/x'' ''abc''),
     CloseFile AppOperator (example_db\<lparr>db_commit := CommitUnanswered\<rparr>) None (example_writer ''/pub/d/y'' ''abcd''),
     FinalizeDelete example_db None (example_file ''/pub/z'')]"

lemma example_writer_path: "fw_path (example_writer p c) = example_file p"
  by (simp add: example_writer_def fin_writer_write_def fin_writer_new_def split: prod.splits)

lemma example_path_wf:
  "path_wf (example_file ''/pub/z'')" "path_wf (example_file ''/pub/d/x'')" "path_wf (example_file ''/pub/d/y'')"
  using example_canonical example_utf8 by (simp_all add: path_wf_def entry_path_new_def)

lemma example_hash: "length (fm_hash (writer_metadata (example_store_env True) w)) = 32"
  by (simp add: writer_metadata_def builder_finalize_def example_store_env_def)

lemma example_ops_wf: "list_all (op_wf (example_store_env True)) example_ops"
  using example_path_wf by (simp add: example_ops_def example_writer_path example_hash)

lemma example_ops_app: "list_all op_app example_ops"
  by (simp add: example_ops_def example_writer_path entry_path_new_def) code_simp

lemma example_volume: "run_volume (example_store_env True) example_ops < 2 ^ 63"
  by code_simp

abbreviation example_result :: "memory_store store" where
  "example_result \<equiv> store_run (example_store_env True) (\<lambda>_. []) example_ops example_start"

definition example_user :: user_entity where
  "example_user = \<lparr>ue_id = 1, ue_public_key = PublicKey ''a'', ue_created_at = 0, ue_disabled = False,
     ue_used_bytes = 519, ue_quota_columns = NULL_COLUMNS\<rparr>"

lemma example_result_user: "user_get (PublicKey ''a'') (us_db (fs_users example_result)) = Ok example_user"
  by code_simp

theorem usage_matches_files_witness: "entries_size 1 (fs_entries example_result) = 519"
  using usage_matches_files [OF example_ops_wf example_volume example_result_user] by (simp add: example_user_def)

theorem event_log_describes_files_witness:
  "log_files (vt_rows (fs_events example_result)) (1, ''/pub/d/x'') = Some (''abc'' @ replicate 29 (CHR ''0'')) \<and>
   log_files (vt_rows (fs_events example_result)) (1, ''/pub/z'') = None"
proof -
  have e: "map_ok ee_hash (entry_get_by_path (example_file ''/pub/d/x'') (us_db (fs_users example_result)) (fs_entries example_result)) =
      Ok (''abc'' @ replicate 29 (CHR ''0''))"
    "entry_get_by_path (example_file ''/pub/z'') (us_db (fs_users example_result)) (fs_entries example_result) = Err RowNotFound"
    by code_simp+
  have u: "user_get (ep_pubkey (example_file p)) (us_db (fs_users example_result)) = Ok example_user" for p
    using example_result_user by (simp add: entry_path_new_def)
  show ?thesis
    using event_log_describes_files [OF example_ops_wf example_volume u [of "''/pub/d/x''"]]
      event_log_describes_files [OF example_ops_wf example_volume u [of "''/pub/z''"]] e
    by (auto simp: example_user_def entry_path_new_def split: sum.splits)
qed

theorem files_never_collide_witness:
  "files_of (tables_of example_result) (1, ''/pub/d/x'') \<noteq> None \<and> \<not> prefix (''/pub/d/x'' @ ''/'') ''/pub/d/y''"
proof -
  have "files_of (tables_of example_result) (1, ''/pub/d/x'') \<noteq> None" "files_of (tables_of example_result) (1, ''/pub/d/y'') \<noteq> None"
    by code_simp+
  with files_never_collide [OF example_ops_wf example_ops_app example_volume] show ?thesis by blast
qed

abbreviation example_signed_up :: "memory_store store" where
  "example_signed_up \<equiv> store_step (example_store_env True) (\<lambda>_. []) (CreateUser 0 (PublicKey ''a'')) example_start"

lemma example_signed_up_invar: "store_invar 0 example_signed_up"
  using store_invar_step [OF store_invar_empty, of "example_store_env True" "CreateUser 0 (PublicKey ''a'')"] by simp

theorem close_file_exact_witness:
  "map_option fst (files_of (tables_of (snd (snd (fin_writer_close (example_store_env True) (operator_policy AppOperator) example_db None
     (example_writer ''/pub/z'' ''hello'') example_signed_up)))) (1, ''/pub/z'')) = Some (''hello'' @ replicate 27 (CHR ''0''))"
proof -
  let ?w = "example_writer ''/pub/z'' ''hello''"
  let ?c = "fin_writer_close (example_store_env True) (operator_policy AppOperator) example_db None ?w example_signed_up"
  have wf: "op_wf (example_store_env True) (CloseFile AppOperator example_db None ?w)"
    using example_path_wf(1) by (simp add: example_writer_path example_hash)
  have small: "0 + op_volume (example_store_env True) (CloseFile AppOperator example_db None ?w) < 2 ^ 63" by code_simp
  have ok: "fst ?c = Ok ()" by code_simp
  have user: "map_ok ue_id (user_get (PublicKey ''a'') (us_db (fs_users example_signed_up))) = Ok 1" by code_simp
  have meta: "fm_hash (writer_metadata (example_store_env True) ?w) = ''hello'' @ replicate 27 (CHR ''0'')" by code_simp
  have path: "fw_path ?w = example_file ''/pub/z''" by (rule example_writer_path)
  have c: "?c = (Ok (), fst (snd ?c), snd (snd ?c))" using ok by (simp add: prod_eq_iff)
  from mp [OF conjunct1 [OF close_file_exact [OF example_signed_up_invar wf small c]] refl]
  obtain u where u: "user_get (ep_pubkey (fw_path ?w)) (us_db (fs_users example_signed_up)) = Ok u"
    "\<forall>k. files_of (tables_of (snd (snd ?c))) k = (if k = (ue_id u, as_str (ep_path (fw_path ?w)))
       then Some (fm_hash (writer_metadata (example_store_env True) ?w), fm_length (writer_metadata (example_store_env True) ?w),
         fm_content_type (writer_metadata (example_store_env True) ?w))
       else files_of (tables_of example_signed_up) k)"
    by (elim exE conjE)
  moreover have "ue_id u = 1" using u(1) user path by (simp add: entry_path_new_def)
  ultimately show ?thesis using path meta by (simp add: entry_path_new_def)
qed

end
