(* ===== verification/Tenant_Routes.thy ===== *)
theory Tenant_Routes
  imports File_Invariant
begin

text \<open>
  The storage routes (\<^verbatim>\<open>client_server/routes/tenants\<close>): the authorization every write
  makes (\<^verbatim>\<open>authorize.rs\<close>), \<^verbatim>\<open>PUT\<close> and \<^verbatim>\<open>DELETE\<close> (\<^verbatim>\<open>write.rs\<close>), \<^verbatim>\<open>HEAD\<close>, \<^verbatim>\<open>GET\<close> and listings
  (\<^verbatim>\<open>read.rs\<close>), \<^verbatim>\<open>LOCK\<close> and \<^verbatim>\<open>UNLOCK\<close> (\<^verbatim>\<open>lock.rs\<close>), the query parameters of a listing
  (\<^verbatim>\<open>client_server/query_params.rs\<close>), the answers to storage errors
  (\<^verbatim>\<open>shared/http_error.rs\<close>), and the router over them (\<^verbatim>\<open>mod.rs\<close>).

  A handler is a function on the store.  What other requests do between the lock check
  of a write and the write itself is an argument of the handler, and so are the clocks,
  the failures of the database and the random identifiers of one request.  The formats
  of HTTP dates and of base64 and the check of a header value belong to third-party
  packages and are parameters.
\<close>

section \<open>Model: answers to errors\<close>

definition BACKEND_RATE_LIMIT_RETRY_AFTER_SECS :: nat where "BACKEND_RATE_LIMIT_RETRY_AFTER_SECS = 1"

fun file_http_error :: "file_io_error \<Rightarrow> http_error" where
  "file_http_error FileNotFound = not_found"
| "file_http_error FileDiskSpaceQuotaExceeded = insufficient_storage"
| "file_http_error FileWritePathForbidden = forbidden_with_message ''Write to this path is not allowed''"
| "file_http_error FilePathCollision = new_with_message 409 ''File/folder path collision''"
| "file_http_error FileStreamBroken = bad_request ''Stream broken''"
| "file_http_error (FileBackendRateLimited e) =
     too_many_requests ''Storage backend is rate limited, retry later'' BACKEND_RATE_LIMIT_RETRY_AFTER_SECS"
| "file_http_error FileLockLost = lock_token_mismatch"
| "file_http_error FilePublishConflict =
     new_with_message 409 ''The file changed before the change was published; read it again and retry''"
| "file_http_error (FileSqlDb e) = internal_server"
| "file_http_error (FileOpenDAL e) = internal_server"
| "file_http_error FileTempFile = internal_server"

record response = http_response +
  resp_body :: string

definition plain_response :: "nat \<Rightarrow> response" where
  "plain_response code = \<lparr>resp_status = code, resp_headers = Map.empty, resp_body = []\<rparr>"

definition error_into_response :: "http_error \<Rightarrow> response" where
  "error_into_response e =
     \<lparr>resp_status = status e,
      resp_headers = (case retry_after_secs e of Some secs \<Rightarrow> [''retry-after'' \<mapsto> show_nat secs] | None \<Rightarrow> Map.empty),
      resp_body = detail e\<rparr>"

fun respond :: "(http_error, response) result \<Rightarrow> response" where
  "respond (Inr r) = r"
| "respond (Inl e) = error_into_response e"

section \<open>Model: what a request carries\<close>

text \<open>The values of the headers that are visible ASCII.\<close>

record storage_headers =
  sh_lock :: lock_headers
  sh_content_length :: "string option"
  sh_if_none_match :: "string option"
  sh_if_modified_since :: "string option"

text \<open>The inputs of one request that come from its surroundings: the clock of the
  statements on locks, the runs of the transactions, and a random identifier.\<close>

record request_run =
  rr_sweep_now :: int
  rr_lock_now :: int
  rr_check_db :: db_run
  rr_db :: db_run
  rr_blob_db :: db_run
  rr_uuid :: string

text \<open>Formats of third-party packages.\<close>

record web_env =
  we_http_date :: "int \<Rightarrow> int"
  we_show_date :: "int \<Rightarrow> string"
  we_parse_date :: "string \<Rightarrow> int option"
  we_base64 :: "string \<Rightarrow> string"
  we_header_value :: "string \<Rightarrow> bool"
  we_regexp_replace :: regexp_function

definition require_session :: "auth_session option \<Rightarrow> (http_error, auth_session) result" where
  "require_session session = ok_or (unauthorized_with_message ''No authenticated session found'') session"

record list_query_params =
  lp_limit :: "nat option"
  lp_cursor :: "string option"
  lp_shallow :: bool
  lp_reverse :: bool

definition extract_cursor :: "(string \<rightharpoonup> string) \<Rightarrow> string option" where
  "extract_cursor params =
     (case params ''cursor'' of
        None \<Rightarrow> None
      | Some value \<Rightarrow>
          if value = [] then None
          else (case strip_prefix ''pubky://'' value of
                  Some stripped_value \<Rightarrow> Some stripped_value
                | None \<Rightarrow> Some value))"

definition bool_param :: "string \<Rightarrow> (string \<rightharpoonup> string) \<Rightarrow> (http_error, bool) result" where
  "bool_param name params =
     (case params name of
        Some value \<Rightarrow> ok_or (bad_request ''Invalid boolean parameter'') (parse_bool value)
      | None \<Rightarrow> Ok False)"

definition list_query_from_request :: "(string \<rightharpoonup> string) \<Rightarrow> (http_error, list_query_params) result" where
  "list_query_from_request params =
     and_then (bool_param ''reverse'' params) (\<lambda>reverse.
     and_then (bool_param ''shallow'' params) (\<lambda>shallow.
     Ok \<lparr>lp_limit = (case params ''limit'' of
           Some l \<Rightarrow> if l \<noteq> [] then parse_uint 16 l else None | None \<Rightarrow> None),
         lp_cursor = extract_cursor params, lp_shallow = shallow, lp_reverse = reverse\<rparr>))"

section \<open>Model: authorizing a write\<close>

definition authorize_write ::
  "user_table \<Rightarrow> auth_session \<Rightarrow> entry_path \<Rightarrow> bool \<Rightarrow> (http_error, user_entity) result" where
  "authorize_write users session path must_be_enabled =
     (if \<not> is_file (ep_path path) then Err (bad_request ''Target path must be a file'')
      else and_then (has_write_permission session (ep_pubkey path) (ep_path path)) (\<lambda>_.
           get_or_http_error (ep_pubkey path) must_be_enabled users))"

section \<open>Model: writing under a lock\<close>

definition checked_locks :: "request_run \<Rightarrow> entry_path \<Rightarrow> lock_headers \<Rightarrow> 'b store \<Rightarrow> 'b store" where
  "checked_locks run path headers s =
     s\<lparr>fs_locks := snd (check_lock (rr_lock_now run) (ep_key path) headers (fs_locks s))\<rparr>"

definition with_write_lock ::
  "request_run \<Rightarrow> ('b store \<Rightarrow> 'b store) \<Rightarrow> entry_path \<Rightarrow> lock_headers \<Rightarrow>
   (string option \<Rightarrow> 'b store \<Rightarrow> (http_error, 'a) result \<times> 'b store) \<Rightarrow> 'b store \<Rightarrow> (http_error, 'a) result \<times> 'b store" where
  "with_write_lock run others path headers write_file s =
     st_then (fst (check_lock (rr_lock_now run) (ep_key path) headers (fs_locks s)), checked_locks run path headers s)
       (\<lambda>current_token s. write_file current_token (others s))"

definition delete_route ::
  "'b store_env \<Rightarrow> request_run \<Rightarrow> ('b store \<Rightarrow> 'b store) \<Rightarrow> auth_session \<Rightarrow> entry_path \<Rightarrow> storage_headers \<Rightarrow> 'b store \<Rightarrow>
   (http_error, response) result \<times> 'b store" where
  "delete_route env run others session path headers s =
     st_then (authorize_write (us_db (fs_users s)) session path False, s) (\<lambda>_ s.
     st_then (with_write_lock run others path (sh_lock headers) (\<lambda>current_token s.
         case file_delete env (db_now (rr_check_db run)) (rr_db run, rr_blob_db run) current_token path s of
           (r, s) \<Rightarrow> (map_err file_http_error r, s)) s) (\<lambda>_ s.
     (Ok (plain_response 204), s)))"

definition content_length_from_headers :: "storage_headers \<Rightarrow> nat option" where
  "content_length_from_headers headers = Option.bind (sh_content_length headers) (parse_uint 64)"

definition fail_if_size_hint_exceeds_quota ::
  "'b store_env \<Rightarrow> nat option \<Rightarrow> user_entity \<Rightarrow> entry_path \<Rightarrow> 'b store \<Rightarrow> (http_error, unit) result" where
  "fail_if_size_hint_exceeds_quota env content_size_hint user path s =
     (case content_size_hint of
        None \<Rightarrow> Ok ()
      | Some hint_size \<Rightarrow>
          let existing_entry = (case entry_get_by_path path (us_db (fs_users s)) (fs_entries s) of
                Inr e \<Rightarrow> Some e | Inl _ \<Rightarrow> None);
              existing_entry_bytes = (case existing_entry of None \<Rightarrow> 0 | Some e \<Rightarrow> ee_length e);
              bytes_delta = wrap_i64 (wrap_i64 (int hint_size) - wrap_i64 (int existing_entry_bytes));
              bytes_delta = (if existing_entry = None then wrap_i64 (bytes_delta + int FILE_METADATA_SIZE) else bytes_delta);
              max_bytes = resolve_storage_max_bytes (se_from_json env) user (se_default_storage_mb env)
          in ensure (\<not> would_exceed_limit (ue_used_bytes user) bytes_delta max_bytes) insufficient_storage)"

definition put_route ::
  "'b store_env \<Rightarrow> request_run \<Rightarrow> ('b store \<Rightarrow> 'b store) \<Rightarrow> auth_session \<Rightarrow> entry_path \<Rightarrow> storage_headers \<Rightarrow> stream_item list \<Rightarrow>
   'b store \<Rightarrow> (http_error, response) result \<times> 'b store" where
  "put_route env run others session path headers body s =
     st_then (authorize_write (us_db (fs_users s)) session path True, s) (\<lambda>user s.
     st_then (fail_if_size_hint_exceeds_quota env (content_length_from_headers headers) user path s, s) (\<lambda>_ s.
     st_then (with_write_lock run others path (sh_lock headers) (\<lambda>current_token s.
         case file_write_stream env (rr_check_db run) (rr_db run) current_token (rr_uuid run) path body s of
           (r, s) \<Rightarrow> (map_err file_http_error r, s)) s) (\<lambda>_ s.
     (Ok (plain_response 201), s))))"

section \<open>Model: reading\<close>

definition to_http_date :: "web_env \<Rightarrow> int \<Rightarrow> int" where
  "to_http_date web date = we_http_date web date"

definition etag_of :: "web_env \<Rightarrow> entry_entity \<Rightarrow> string" where
  "etag_of web e = [CHR 0x22] @ we_base64 web (ee_hash e) @ [CHR 0x22]"

definition is_not_modified :: "web_env \<Rightarrow> storage_headers \<Rightarrow> entry_entity \<Rightarrow> bool" where
  "is_not_modified web headers e =
     (case sh_if_none_match headers of
        Some request_etag \<Rightarrow>
          list_ex (\<lambda>tag. tag = etag_of web e) (map trim_ascii (split_on (CHR '','') (trim_ascii request_etag)))
      | None \<Rightarrow>
          (case Option.bind (sh_if_modified_since headers) (we_parse_date web) of
             Some condition_http_date \<Rightarrow> condition_http_date \<ge> to_http_date web (ee_modified_at e)
           | None \<Rightarrow> False))"

definition not_modified_response :: "web_env \<Rightarrow> entry_entity \<Rightarrow> response" where
  "not_modified_response web e =
     \<lparr>resp_status = 304,
      resp_headers = [''etag'' \<mapsto> etag_of web e,
        ''last-modified'' \<mapsto> we_show_date web (to_http_date web (ee_modified_at e)),
        ''cache-control'' \<mapsto> ''private, must-revalidate''],
      resp_body = []\<rparr>"

definition to_response_headers :: "web_env \<Rightarrow> entry_entity \<Rightarrow> nat \<Rightarrow> string \<rightharpoonup> string" where
  "to_response_headers web e content_length =
     [''content-length'' \<mapsto> show_nat content_length,
      ''last-modified'' \<mapsto> we_show_date web (to_http_date web (ee_modified_at e)),
      ''content-type'' \<mapsto> (if we_header_value web (ee_type e) then ee_type e else []),
      ''etag'' \<mapsto> etag_of web e,
      ''cache-control'' \<mapsto> ''private, must-revalidate'']"

definition head_route ::
  "'b store_env \<Rightarrow> web_env \<Rightarrow> auth_session option \<Rightarrow> entry_path \<Rightarrow> 'b store \<Rightarrow> (http_error, response) result" where
  "head_route env web session path s =
     and_then (has_read_permission session (Some (ep_pubkey path)) (ep_path path)) (\<lambda>_.
     and_then (get_or_http_error (ep_pubkey path) False (us_db (fs_users s))) (\<lambda>_.
     and_then (map_err file_http_error (get_info path s)) (\<lambda>e.
     and_then (map_err file_http_error (blob_length env path s)) (\<lambda>len.
     Ok \<lparr>resp_status = 200, resp_headers = to_response_headers web e len, resp_body = []\<rparr>))))"

function trim_start_matches :: "string \<Rightarrow> string \<Rightarrow> string" where
  "trim_start_matches pattern s =
     (if pattern \<noteq> [] \<and> prefix pattern s then trim_start_matches pattern (drop (length pattern) s) else s)"
  by pat_completeness auto
termination
  by (relation "measure (\<lambda>(pattern, s). length s)") (auto simp: prefix_def)

declare trim_start_matches.simps [simp del]

definition parse_cursor :: "key_parser \<Rightarrow> string option \<Rightarrow> (entry_path_error, entry_path option) result" where
  "parse_cursor try_from_z32 cursor =
     (case cursor of
        None \<Rightarrow> Ok None
      | Some c \<Rightarrow> map_ok Some (entry_path_from_str try_from_z32 (trim_start_matches ''pubky://'' c)))"

definition list_route ::
  "'b store_env \<Rightarrow> web_env \<Rightarrow> entry_path \<Rightarrow> list_query_params \<Rightarrow> 'b store \<Rightarrow> (http_error, response) result" where
  "list_route env web path params s =
     (let users = us_db (fs_users s); t = fs_entries s in
      and_then (ensure (contains_directory path users t) (new_with_message 404 ''Directory Not Found'')) (\<lambda>_.
      and_then (map_err (\<lambda>_. new_with_message 400 ''Invalid cursor'') (parse_cursor (se_key_parser env) (lp_cursor params))) (\<lambda>cursor.
      and_then (map_err (\<lambda>_. internal_server)
        (if lp_shallow params
         then list_shallow (we_regexp_replace web) path (lp_limit params) cursor (lp_reverse params) users t
         else list_deep path (lp_limit params) cursor (lp_reverse params) users t)) (\<lambda>entries.
      Ok \<lparr>resp_status = 200, resp_headers = [''content-type'' \<mapsto> ''text/plain''],
          resp_body = join [CHR 0x0A] (map (\<lambda>e. ''pubky://'' @ ep_key e) entries)\<rparr>))))"

definition get_route ::
  "'b store_env \<Rightarrow> web_env \<Rightarrow> storage_headers \<Rightarrow> auth_session option \<Rightarrow> entry_path \<Rightarrow> list_query_params \<Rightarrow> 'b store \<Rightarrow>
   (http_error, response) result" where
  "get_route env web headers session path params s =
     and_then (has_read_permission session (Some (ep_pubkey path)) (ep_path path)) (\<lambda>_.
     if is_directory (ep_path path) then list_route env web path params s
     else
       and_then (map_err file_http_error (get_info path s)) (\<lambda>e.
       if is_not_modified web headers e then Ok (not_modified_response web e)
       else
         and_then (map_err file_http_error (get_sized_stream env path s)) (\<lambda>(len, stream).
         Ok \<lparr>resp_status = 200, resp_headers = to_response_headers web e len, resp_body = stream\<rparr>)))"

section \<open>Model: locking\<close>

definition ALLOWED_METHODS :: string where "ALLOWED_METHODS = ''GET, HEAD, PUT, DELETE, LOCK, UNLOCK''"

definition show_int :: "int \<Rightarrow> string" where
  "show_int i = (if i < 0 then ''-'' @ show_nat (nat (- i)) else show_nat (nat i))"

abbreviation dquoted :: "string \<Rightarrow> string" where
  "dquoted s \<equiv> [CHR 0x22] @ s @ [CHR 0x22]"

definition lockdiscovery :: "string \<Rightarrow> string \<Rightarrow> string \<Rightarrow> string" where
  "lockdiscovery timeout token_url lock_root =
     ''<?xml version='' @ dquoted ''1.0'' @ '' encoding='' @ dquoted ''utf-8'' @ ''?>'' @
     ''<D:prop xmlns:D='' @ dquoted ''DAV:'' @ ''><D:lockdiscovery><D:activelock>'' @
     ''<D:locktype><D:write/></D:locktype>'' @
     ''<D:lockscope><D:exclusive/></D:lockscope>'' @
     ''<D:depth>0</D:depth>'' @
     ''<D:timeout>'' @ timeout @ ''</D:timeout>'' @
     ''<D:locktoken><D:href>'' @ token_url @ ''</D:href></D:locktoken>'' @
     ''<D:lockroot><D:href>'' @ lock_root @ ''</D:href></D:lockroot>'' @
     ''</D:activelock></D:lockdiscovery></D:prop>''"

definition lock_response :: "entry_lock \<Rightarrow> string \<Rightarrow> int \<Rightarrow> bool \<Rightarrow> response" where
  "lock_response lock lock_root remaining created =
     (let token_url = LOCK_TOKEN_SCHEME @ lock_token lock;
          timeout = ''Second-'' @ show_int remaining;
          headers = [''content-type'' \<mapsto> ''application/xml; charset=utf-8'', ''timeout'' \<mapsto> timeout]
      in \<lparr>resp_status = 200,
          resp_headers = (if created then headers(''lock-token'' \<mapsto> ''<'' @ token_url @ ''>'') else headers),
          resp_body = lockdiscovery timeout token_url (xml_escape lock_root)\<rparr>)"

text \<open>A body that cannot be read is answered like one that is too large.\<close>

fun body_bytes :: "stream_item list \<Rightarrow> string" where
  "body_bytes (Chunk c # items) = c @ body_bytes items"
| "body_bytes _ = []"

definition check_lockinfo_body :: "stream_item list \<Rightarrow> (http_error, unit) result" where
  "check_lockinfo_body body =
     (if BrokenStream \<in> set body then Err (new_with_message 413 ''lockinfo body too large'')
      else check_lockinfo (body_bytes body))"

definition lock_route ::
  "request_run \<Rightarrow> auth_session option \<Rightarrow> entry_path \<Rightarrow> string \<Rightarrow> lock_headers \<Rightarrow> stream_item list \<Rightarrow> 'b store \<Rightarrow>
   (http_error, response) result \<times> 'b store" where
  "lock_route run session path lock_root headers body s =
     st_then (ok_or unauthorized session, s) (\<lambda>session s.
     st_then (authorize_write (us_db (fs_users s)) session path True, s) (\<lambda>_ s.
     let presented = if_header_tokens headers; is_new = (presented = []) in
     st_then (if is_new then check_lockinfo_body body else Ok (), s) (\<lambda>_ s.
     let lifetime = requested_timeout headers in
     (case (if is_new
            then create_lock (rr_sweep_now run) (rr_lock_now run) (rr_uuid run) (ep_key path) lifetime (fs_locks s)
            else (case refresh (rr_lock_now run) (ep_key path) presented lifetime (fs_locks s) of
                    (lock, locks) \<Rightarrow> (ok_or lock_token_mismatch lock, locks))) of
        (r, locks) \<Rightarrow> (map_ok (\<lambda>lock. lock_response lock lock_root lifetime is_new) r, s\<lparr>fs_locks := locks\<rparr>)))))"

definition unlock_route ::
  "auth_session option \<Rightarrow> entry_path \<Rightarrow> lock_headers \<Rightarrow> 'b store \<Rightarrow> (http_error, response) result \<times> 'b store" where
  "unlock_route session path headers s =
     st_then (ok_or unauthorized session, s) (\<lambda>session s.
     st_then (authorize_write (us_db (fs_users s)) session path False, s) (\<lambda>_ s.
     st_then (ok_or (bad_request ''Missing or malformed Lock-Token header'') (lock_token_header headers), s) (\<lambda>token s.
     (case release (ep_key path) token (fs_locks s) of
        (released, locks) \<Rightarrow>
          (if released then Ok (plain_response 204) else Err (conflict ''No lock with this token on this path''),
           s\<lparr>fs_locks := locks\<rparr>)))))"

section \<open>Model: the router\<close>

record storage_request =
  sr_method :: string
  sr_uri_path :: string
  sr_session :: "auth_session option"
  sr_path :: entry_path
  sr_headers :: storage_headers
  sr_params :: "string \<rightharpoonup> string"
  sr_body :: "stream_item list"

definition lock_dispatch ::
  "request_run \<Rightarrow> storage_request \<Rightarrow> 'b store \<Rightarrow> (http_error, response) result \<times> 'b store" where
  "lock_dispatch run req s =
     (if sr_method req = ''LOCK''
      then lock_route run (sr_session req) (sr_path req) (sr_uri_path req) (sh_lock (sr_headers req)) (sr_body req) s
      else if sr_method req = ''UNLOCK''
      then unlock_route (sr_session req) (sr_path req) (sh_lock (sr_headers req)) s
      else (Ok ((plain_response 405)\<lparr>resp_headers := [''allow'' \<mapsto> ALLOWED_METHODS]\<rparr>), s))"

definition storage_route ::
  "'b store_env \<Rightarrow> web_env \<Rightarrow> request_run \<Rightarrow> ('b store \<Rightarrow> 'b store) \<Rightarrow> storage_request \<Rightarrow> 'b store \<Rightarrow> response \<times> 'b store" where
  "storage_route env web run others req s =
     (let headers = sr_headers req; path = sr_path req;
          (r, s') =
            (if sr_method req = ''GET''
             then (and_then (list_query_from_request (sr_params req)) (\<lambda>params.
                     get_route env web headers (sr_session req) path params s), s)
             else if sr_method req = ''HEAD'' then (head_route env web (sr_session req) path s, s)
             else if sr_method req = ''PUT''
             then st_then (require_session (sr_session req), s) (\<lambda>session s.
                    put_route env run others session path headers (sr_body req) s)
             else if sr_method req = ''DELETE''
             then st_then (require_session (sr_session req), s) (\<lambda>session s.
                    delete_route env run others session path headers s)
             else lock_dispatch run req s)
      in (respond r, s'))"

text \<open>The deprecated routes take the owner from the request and the path from the URL.\<close>

definition vary_on_host :: "response \<Rightarrow> response" where
  "vary_on_host r = r\<lparr>resp_headers := (resp_headers r)(''vary'' \<mapsto> ''pubky-host'')\<rparr>"

definition legacy_head ::
  "'b store_env \<Rightarrow> web_env \<Rightarrow> auth_session option \<Rightarrow> request_tenant \<Rightarrow> storage_path \<Rightarrow> 'b store \<Rightarrow> (http_error, response) result" where
  "legacy_head env web session tenant path s =
     map_ok vary_on_host (head_route env web session (entry_path_new (rt_public_key tenant) path) s)"

definition legacy_get ::
  "'b store_env \<Rightarrow> web_env \<Rightarrow> storage_headers \<Rightarrow> auth_session option \<Rightarrow> request_tenant \<Rightarrow> storage_path \<Rightarrow> list_query_params \<Rightarrow>
   'b store \<Rightarrow> (http_error, response) result" where
  "legacy_get env web headers session tenant path params s =
     map_ok vary_on_host (get_route env web headers session (entry_path_new (rt_public_key tenant) path) params s)"

definition legacy_delete ::
  "'b store_env \<Rightarrow> request_run \<Rightarrow> ('b store \<Rightarrow> 'b store) \<Rightarrow> auth_session \<Rightarrow> request_tenant \<Rightarrow> storage_path \<Rightarrow> storage_headers \<Rightarrow>
   'b store \<Rightarrow> (http_error, response) result \<times> 'b store" where
  "legacy_delete env run others session tenant path headers s =
     delete_route env run others session (entry_path_new (rt_public_key tenant) path) headers s"

definition legacy_put ::
  "'b store_env \<Rightarrow> request_run \<Rightarrow> ('b store \<Rightarrow> 'b store) \<Rightarrow> auth_session \<Rightarrow> request_tenant \<Rightarrow> storage_path \<Rightarrow> storage_headers \<Rightarrow>
   stream_item list \<Rightarrow> 'b store \<Rightarrow> (http_error, response) result \<times> 'b store" where
  "legacy_put env run others session tenant path headers body s =
     put_route env run others session (entry_path_new (rt_public_key tenant) path) headers body s"

section \<open>The checks of an upload leave the tables alone\<close>

lemma resolve_quota_db: "us_db (snd (resolve_quota from_json now pk us)) = us_db us"
  by (auto simp: resolve_quota_def split: prod.splits option.splits sum.splits)

text \<open>Everything of a store but its quota cache, which stays coherent, and its blobs.\<close>

definition same_tables :: "'b store_env \<Rightarrow> 'b store \<Rightarrow> 'b store \<Rightarrow> bool" where
  "same_tables env s s' \<longleftrightarrow> tables_of s' = tables_of s \<and> fs_locks s' = fs_locks s \<and>
     (cache_coherent (se_from_json env) (fs_users s) \<longrightarrow> cache_coherent (se_from_json env) (fs_users s'))"

lemma same_tables_refl [simp]: "same_tables env s s"
  by (simp add: same_tables_def)

lemma same_tables_trans: "same_tables env s s' \<Longrightarrow> same_tables env s' s'' \<Longrightarrow> same_tables env s s''"
  by (simp add: same_tables_def)

lemma same_tables_sel:
  "same_tables env s s' \<Longrightarrow> us_db (fs_users s') = us_db (fs_users s) \<and> fs_entries s' = fs_entries s \<and> fs_locks s' = fs_locks s"
  by (simp add: same_tables_def tables_of_def)

lemma same_tables_blobs [simp]: "same_tables env s (s'\<lparr>fs_blobs := b\<rparr>) \<longleftrightarrow> same_tables env s s'"
  by (simp add: same_tables_def)

lemma same_tables_resolve:
  "same_tables env s (s\<lparr>fs_users := snd (resolve_quota (se_from_json env) now pk (fs_users s))\<rparr>)"
  using resolve_quota_coherent(3) by (auto simp: same_tables_def tables_of_def resolve_quota_db)

lemma store_invar_same: "same_tables env s s' \<Longrightarrow> store_invar volume s' = store_invar volume s"
  by (auto simp: store_invar_def same_tables_def tables_of_def)

lemma check_write_path_same:
  assumes "check_write_path_allowed env now path s = (r, s')"
  shows "same_tables env s s'" and "fs_blobs s' = fs_blobs s"
proof -
  have "same_tables env s s' \<and> fs_blobs s' = fs_blobs s"
  proof (cases "parse_opendal (se_key_parser env) path")
    case (Inr p)
    then show ?thesis using assms same_tables_resolve [of env s now "ep_pubkey p"]
      by (auto simp: check_write_path_allowed_def split: prod.splits sum.splits option.splits)
  qed (use assms in \<open>auto simp: check_write_path_allowed_def\<close>)
  then show "same_tables env s s'" "fs_blobs s' = fs_blobs s" by auto
qed

lemma upload_checks_same:
  assumes "upload_checks env db up s = (r, up', s')"
  shows "same_tables env s s'" and "fs_blobs s' = fs_blobs s" and "cu_writer up' = cu_writer up"
    and "cu_operator up' = cu_operator up"
  using assms
  by (auto simp: upload_checks_def ensure_passed_def Let_def split: prod.splits sum.splits if_splits
      dest: check_write_path_same)

text \<open>The writer of an upload after the given bytes.\<close>

definition has_written :: "'b store_env \<Rightarrow> string \<Rightarrow> entry_path \<Rightarrow> string \<Rightarrow> fin_writer \<Rightarrow> bool" where
  "has_written env uuid path bytes w \<longleftrightarrow> fw_path w = path \<and>
     mb_hasher (fw_builder w) = bytes \<and> mb_length (fw_builder w) = length bytes \<and>
     (\<exists>inner. fw_inner w = Some inner \<and> bw_path inner = ep_key path \<and>
        sw_staging (bw_staged inner) = STAGING_PREFIX @ uuid \<and> sw_path (bw_staged inner) = ep_key path \<and>
        sw_written (bw_staged inner) = bytes)"

lemma has_written_new: "has_written env uuid path [] (fin_writer_new (backend_open uuid (ep_key path)) path)"
  by (simp add: has_written_def fin_writer_new_def backend_open_def staged_open_def builder_default_def)

lemma fin_writer_write_written:
  assumes "fin_writer_write env chunk w s = (Ok (), w', s')" and "has_written env uuid path bytes w"
  shows "has_written env uuid path (bytes @ chunk) w'"
  using assms
  by (auto simp: fin_writer_write_def has_written_def backend_write_def staged_write_def builder_update_def Let_def
      split: option.splits prod.splits if_splits)

lemma fin_writer_write_same: "fin_writer_write env chunk w s = (r, w', s') \<Longrightarrow> same_tables env s s'"
  by (auto simp: fin_writer_write_def split: option.splits prod.splits)

lemma upload_write_same: "upload_write env db chunk up s = (r, up', s') \<Longrightarrow> same_tables env s s'"
  by (auto simp: upload_write_def split: prod.splits sum.splits
      dest!: upload_checks_same(1) fin_writer_write_same intro: same_tables_trans)

lemma upload_write_written:
  assumes "upload_write env db chunk up s = (Ok (), up', s')" and "has_written env uuid path bytes (cu_writer up)"
  shows "has_written env uuid path (bytes @ chunk) (cu_writer up')" and "cu_operator up' = cu_operator up"
proof -
  obtain r1 up1 s1 where c: "upload_checks env db up s = (r1, up1, s1)" by (metis prod_cases3)
  obtain r2 w2 s2 where w: "fin_writer_write env chunk (cu_writer up1) s1 = (r2, w2, s2)" by (metis prod_cases3)
  have "r1 = Ok ()" "r2 = Ok ()" "up' = up1\<lparr>cu_writer := w2\<rparr>"
    using assms(1) c w by (auto simp: upload_write_def split: sum.splits)
  then show "has_written env uuid path (bytes @ chunk) (cu_writer up')" "cu_operator up' = cu_operator up"
    using fin_writer_write_written [of env chunk "cu_writer up1" s1 w2 s2] w assms(2) upload_checks_same(3,4) [OF c] by auto
qed

lemma write_chunks_same: "write_chunks env db items up s = (r, up', s') \<Longrightarrow> same_tables env s s'"
proof (induction items arbitrary: up s)
  case (Cons item items)
  show ?case
  proof (cases item)
    case (Chunk c)
    obtain r1 up1 s1 where w: "upload_write env db c up s = (r1, up1, s1)" by (metis prod_cases3)
    have "same_tables env s s1" by (rule upload_write_same [OF w])
    moreover have "same_tables env s1 s'" using Cons Chunk w by (cases r1) auto
    ultimately show ?thesis by (rule same_tables_trans)
  qed (use Cons.prems in auto)
qed auto

lemma write_chunks_written:
  assumes "write_chunks env db items up s = (Ok (), up', s')" and "has_written env uuid path bytes (cu_writer up)"
  shows "has_written env uuid path (bytes @ body_bytes items) (cu_writer up') \<and> cu_operator up' = cu_operator up \<and>
    BrokenStream \<notin> set items"
  using assms
proof (induction items arbitrary: up s bytes)
  case (Cons item items)
  show ?case
  proof (cases item)
    case (Chunk c)
    obtain r1 up1 s1 where w: "upload_write env db c up s = (r1, up1, s1)" by (metis prod_cases3)
    have ok: "r1 = Ok ()" and rest: "write_chunks env db items up1 s1 = (Ok (), up', s')"
      using Cons.prems(1) Chunk w by (auto split: sum.splits)
    have "has_written env uuid path (bytes @ c) (cu_writer up1)" "cu_operator up1 = cu_operator up"
      using upload_write_written [of env db c up s up1 s1] w ok Cons.prems(2) by auto
    from Cons.IH [OF rest this(1)] this(2) show ?thesis using Chunk by simp
  qed (use Cons.prems in auto)
qed auto

lemma upload_abort_same: "same_tables env s (snd (snd (upload_abort env up s)))"
  by (auto simp: upload_abort_def fin_writer_abort_def split: option.splits prod.splits)

section \<open>What an upload and a delete change\<close>

text \<open>The metadata of a finished upload.\<close>

lemma writer_metadata_written:
  assumes "has_written env uuid path bytes w"
  shows "fm_hash (writer_metadata env w) = cn_hash (se_content env) bytes" and "fm_length (writer_metadata env w) = length bytes"
  using assms
  by (simp_all add: has_written_def writer_metadata_def builder_finalize_def guess_mime_type_from_path_def)

lemma changes_file_only:
  assumes "changes_file pk u p new tb tb'" and "files_of tb' k \<noteq> files_of tb k"
  shows "k = (ue_id u, p)"
proof (rule ccontr)
  assume "k \<noteq> (ue_id u, p)"
  then show False using assms by (cases k) (auto simp: changes_file_def)
qed

text \<open>A close leaves the tables alone, or it changes the file of its path under its lock.\<close>

lemma close_effects:
  assumes inv: "store_invar volume s" and wf: "op_wf env (CloseFile op db token w)"
    and small: "volume + op_volume env (CloseFile op db token w) < 2 ^ 63"
    and close: "fin_writer_close env (operator_policy op) db token w s = (r, w', s')"
  obtains (same) "tables_of s' = tables_of s" "r \<noteq> Ok ()"
  | (changed) u where "user_get (ep_pubkey (fw_path w)) (us_db (fs_users s)) = Ok u"
      "write_lock_hold db token (fw_path w) (fs_locks s) = Ok ()" "tables_invar (tables_of s')"
      "changes_file (ep_pubkey (fw_path w)) u (as_str (ep_path (fw_path w)))
         (Some (fm_hash (writer_metadata env w), fm_length (writer_metadata env w), fm_content_type (writer_metadata env w)))
         (tables_of s) (tables_of s')"
  using close
proof (cases rule: fin_writer_close_tables)
  case (finalized inner r' inner' s1)
  from finalized(1) show thesis
  proof (cases rule: finalize_write_atomic)
    case (applied u existing prepared tb')
    have tb: "tables_invar (tables_of s)" and "ue_used_bytes u \<le> volume"
      using inv applied(1) by (auto simp: store_invar_def tables_invar_def accounted_def)
    then have fits: "ue_used_bytes u + fm_length (writer_metadata env w) + FILE_METADATA_SIZE < 2 ^ 63" using small by simp
    have u: "user_get (ep_pubkey (fw_path w)) (tb_users (tables_of s)) = Ok u" using applied(1) by simp
    have "path_wf (fw_path w)" "length (fm_hash (writer_metadata env w)) = 32" using wf by simp_all
    from write_effects(1,2) [OF tb this u applied(4,5) fits applied(6)] applied(1,2,7) finalized(2)
    show thesis by (intro changed) simp_all
  qed (use same finalized(2,3) in auto)
qed (use same in simp)

lemma write_stream_cases:
  assumes parses: "parse_opendal (se_key_parser env) (ep_key path) = Ok path"
    and stream: "opendal_write_stream env check_db db token uuid path items s = (r, s')"
  obtains (refused) "same_tables env s s'" "r \<noteq> Ok ()"
  | (closed) w r' w' s2 where "has_written env uuid path (body_bytes items) w" "BrokenStream \<notin> set items" "same_tables env s s2"
      "fin_writer_close env (operator_policy AppOperator) db token w s2 = (r', w', s')" "r = map_err file_io_error_of r'"
proof -
  let ?up = "\<lparr>cu_operator = AppOperator, cu_path = ep_key path, cu_path_passed = False, cu_collision_passed = False,
    cu_writer = fin_writer_new (backend_open uuid (ep_key path)) path\<rparr>"
  have up: "operator_writer env AppOperator uuid (ep_key path) = Ok ?up" using parses by (simp add: operator_writer_def)
  obtain r1 up1 s1 where w: "write_chunks env check_db items ?up s = (r1, up1, s1)" by (metis prod_cases3)
  have s1: "same_tables env s s1" by (rule write_chunks_same [OF w])
  show thesis
  proof (cases r1)
    case (Inl e)
    then have "s' = snd (snd (upload_abort env up1 s1))" "r \<noteq> Ok ()" using stream up w by (auto simp: opendal_write_stream_def)
    then show thesis using refused same_tables_trans [OF s1 upload_abort_same] by simp
  next
    case (Inr x)
    have written: "has_written env uuid path (body_bytes items) (cu_writer up1)" "cu_operator up1 = AppOperator" "BrokenStream \<notin> set items"
      using write_chunks_written [of env check_db items ?up s up1 s1 uuid path "[]"] w Inr has_written_new by auto
    obtain r2 up2 s2 where c: "upload_checks env check_db up1 s1 = (r2, up2, s2)" by (metis prod_cases3)
    have s2: "same_tables env s s2" "cu_writer up2 = cu_writer up1" "cu_operator up2 = AppOperator"
      using upload_checks_same [OF c] s1 written(2) by (auto intro: same_tables_trans)
    obtain r3 w3 s3 where f: "fin_writer_close env (operator_policy AppOperator) db token (cu_writer up1) s2 = (r3, w3, s3)"
      by (metis prod_cases3)
    show thesis
    proof (cases r2)
      case (Inl e)
      then show thesis using refused stream up w Inr c s2 by (auto simp: opendal_write_stream_def upload_close_def)
    next
      case (Inr y)
      then have "s' = s3" "r = map_err file_io_error_of r3"
        using stream up w \<open>r1 = Inr x\<close> c f s2(2,3) by (auto simp: opendal_write_stream_def upload_close_def)
      then show thesis using closed [OF written(1,3) s2(1)] f by simp
    qed
  qed
qed

text \<open>What a finished upload hands to its close.\<close>

lemma close_wf:
  assumes "has_written env uuid path bytes w" and "path_wf path" and "\<And>c. length (cn_hash (se_content env) c) = 32"
    and "volume + length bytes + FILE_METADATA_SIZE < 2 ^ 63"
  shows "op_wf env (CloseFile op db token w)" and "volume + op_volume env (CloseFile op db token w) < 2 ^ 63"
    and "fw_path w = path"
  using assms writer_metadata_written [OF assms(1)] by (auto simp: has_written_def)

lemma write_stream_changes:
  assumes inv: "store_invar volume s" and path: "path_wf path"
    and parses: "parse_opendal (se_key_parser env) (ep_key path) = Ok path"
    and hash: "\<And>c. length (cn_hash (se_content env) c) = 32"
    and small: "volume + length (body_bytes items) + FILE_METADATA_SIZE < 2 ^ 63"
    and stream: "opendal_write_stream env check_db db token uuid path items s = (r, s')"
    and diff: "files_of (tables_of s') k \<noteq> files_of (tables_of s) k"
  shows "\<exists>u. user_get (ep_pubkey path) (us_db (fs_users s)) = Ok u \<and> k = (ue_id u, as_str (ep_path path)) \<and>
    write_lock_hold db token path (fs_locks s) = Ok ()"
  using parses stream
proof (cases rule: write_stream_cases)
  case refused
  then show ?thesis using diff by (simp add: same_tables_def)
next
  case (closed w r' w' s2)
  note wf = close_wf [OF closed(1) path hash small]
  have "store_invar volume s2" using inv store_invar_same [OF closed(3)] by simp
  from this wf(1,2) closed(4) show ?thesis
  proof (cases rule: close_effects)
    case (changed u)
    then have "k = (ue_id u, as_str (ep_path path))"
      using changes_file_only diff closed(3) wf(3) by (auto simp: same_tables_def)
    then show ?thesis using changed(1,2) wf(3) same_tables_sel [OF closed(3)] by simp
  qed (use diff closed(3) in \<open>simp add: same_tables_def\<close>)
qed

lemma finalize_delete_locks: "fs_locks (snd (finalize_delete db token path s)) = fs_locks s"
  by (auto simp: finalize_delete_def finish_transaction_def commit_tables_def
      split: sum.splits option.splits commit_outcome.splits)

lemma finalize_delete_changes:
  assumes inv: "store_invar volume s" and path: "path_wf path" and small: "volume < 2 ^ 63"
    and del: "finalize_delete db token path s = (r, s')"
    and diff: "files_of (tables_of s') k \<noteq> files_of (tables_of s) k"
  shows "\<exists>u. user_get (ep_pubkey path) (us_db (fs_users s)) = Ok u \<and> k = (ue_id u, as_str (ep_path path)) \<and>
    write_lock_hold db token path (fs_locks s) = Ok () \<and> files_of (tables_of s') k = None"
proof -
  obtain tb' where tb: "delete_in_transaction db token path (fs_locks s) (tables_of s) = Ok (Some tb')" "tables_of s' = tb'"
    using finalize_delete_tables [OF del] diff by auto
  have "tables_invar (tables_of s)" and "\<And>i. entries_size i (tb_entries (tables_of s)) < 2 ^ 63"
    using inv small le_less_trans by (fastforce simp: store_invar_def)+
  from delete_effects [OF this(1) path tb(1) this(2)]
  obtain u where u: "user_get (ep_pubkey path) (us_db (fs_users s)) = Ok u" "write_lock_hold db token path (fs_locks s) = Ok ()"
    and change: "changes_file (ep_pubkey path) u (as_str (ep_path path)) None (tables_of s) tb'"
    by auto
  have "k = (ue_id u, as_str (ep_path path))" using changes_file_only [OF change] tb(2) diff by simp
  then show ?thesis using u change tb(2) by (simp add: changes_file_def)
qed

lemma ensure_passed_same: "same_tables env s (snd (ensure_passed passed (check_write_path_allowed env now key) s))"
  using check_write_path_same(1) [of env now key s] by (cases "check_write_path_allowed env now key s") (auto simp: ensure_passed_def)

lemma delete_with_cases:
  assumes "delete_with op env now dbs token path s = (r, s')" and "parse_opendal (se_key_parser env) (ep_key path) = Ok path"
  shows "s' = s \<or> s' = snd (ensure_passed (op = AdminOperator) (check_write_path_allowed env now (ep_key path)) s) \<or>
    s' = snd (finalize_and_remove_blob env dbs token \<lparr>pd_path = path, pd_args = op_delete_default\<rparr>
      (snd (ensure_passed (op = AdminOperator) (check_write_path_allowed env now (ep_key path)) s)))"
  using assms
  by (cases "ensure_passed (op = AdminOperator) (check_write_path_allowed env now (ep_key path)) s")
    (auto simp: delete_with_def operator_delete_def close_deletes_def st_then_def
      split: prod.splits sum.splits if_splits delete_outcome.splits option.splits)

lemma delete_with_changes:
  assumes inv: "store_invar volume s" and path: "path_wf path" and small: "volume < 2 ^ 63"
    and parses: "parse_opendal (se_key_parser env) (ep_key path) = Ok path"
    and del: "delete_with op env now dbs token path s = (r, s')"
    and diff: "files_of (tables_of s') k \<noteq> files_of (tables_of s) k"
  shows "\<exists>u. user_get (ep_pubkey path) (us_db (fs_users s)) = Ok u \<and> k = (ue_id u, as_str (ep_path path)) \<and>
    write_lock_hold (fst dbs) token path (fs_locks s) = Ok () \<and> files_of (tables_of s') k = None"
proof -
  define s1 where "s1 = snd (ensure_passed (op = AdminOperator) (check_write_path_allowed env now (ep_key path)) s)"
  have s1: "same_tables env s s1" unfolding s1_def by (rule ensure_passed_same)
  obtain r2 s2 where f: "finalize_delete (fst dbs) token path s1 = (r2, s2)" by (metis prod.exhaust)
  let ?pending = "\<lparr>pd_path = path, pd_args = op_delete_default\<rparr>"
  have "tables_of (snd (finalize_and_remove_blob env dbs token ?pending s1)) = tables_of s2"
    using f remove_blob_tables [of env "snd dbs" ?pending s2]
    by (cases r2) (auto simp: finalize_and_remove_blob_def st_then_def split: prod.splits sum.splits)
  moreover have "s' = s \<or> s' = s1 \<or> s' = snd (finalize_and_remove_blob env dbs token ?pending s1)"
    unfolding s1_def by (rule delete_with_cases [OF del parses])
  ultimately have "tables_of s' = tables_of s \<or> tables_of s' = tables_of s2" using s1 by (auto simp: same_tables_def)
  then have "tables_of s' = tables_of s2" "files_of (tables_of s2) k \<noteq> files_of (tables_of s1) k"
    using diff s1 by (auto simp: same_tables_def)
  moreover have "store_invar volume s1" using inv store_invar_same [OF s1] by simp
  ultimately show ?thesis using finalize_delete_changes [OF _ path small f] same_tables_sel [OF s1] by simp
qed

section \<open>The lock and the authorization of a request\<close>

lemma check_lock_passed:
  assumes "fst (check_lock now key headers t) = Ok token"
  shows "case token of
     None \<Rightarrow> if_header_tokens headers = [] \<and> get_active now key t = None
   | Some tok \<Rightarrow> tok \<in> set (if_header_tokens headers) \<and> hold now key tok t"
proof (cases "if_header_tokens headers = []")
  case True
  then show ?thesis using assms by (auto simp: check_lock_def Let_def split: option.splits)
next
  case False
  let ?live = "\<lambda>r. lock_path r = key \<and> lock_token r \<in> set (if_header_tokens headers) \<and> lock_expires_at r > now"
  obtain r where r: "find ?live t = Some r" "token = Some (lock_token r)"
    using assms False
    by (auto simp: check_lock_def Let_def keep_alive_def set_expiry_of_live_lock_def split: prod.splits option.splits)
  then have "r \<in> set t" "?live r" by (auto simp: find_Some_iff)
  then show ?thesis using r(2) by (auto simp: hold_def find_None_iff)
qed

lemma authorize_write_ok:
  "authorize_write users session path must_be_enabled = Ok user \<longleftrightarrow>
     is_file (ep_path path) \<and> has_write_permission session (ep_pubkey path) (ep_path path) = Ok () \<and>
     user_get (ep_pubkey path) users = Ok user \<and> (must_be_enabled \<longrightarrow> \<not> ue_disabled user)"
  by (auto simp: authorize_write_def and_then_ok_iff get_or_http_error_def split: sum.splits sql_error.splits if_splits)

lemma write_lock_hold_ok:
  "write_lock_hold db (Some tok) path locks = Ok () \<Longrightarrow> hold (db_clock db) (ep_key path) tok locks"
  by (simp add: write_lock_hold_def and_then_ok_iff)

text \<open>What a lock check that lets a write run has found, and what its finalization found.\<close>

definition write_lock_kept :: "request_run \<Rightarrow> entry_path \<Rightarrow> lock_headers \<Rightarrow> lock_table \<Rightarrow> lock_table \<Rightarrow> bool" where
  "write_lock_kept run path headers locks locks' \<longleftrightarrow>
     (if if_header_tokens headers = [] then get_active (rr_lock_now run) (ep_key path) locks = None
      else \<exists>tok \<in> set (if_header_tokens headers). hold (rr_lock_now run) (ep_key path) tok locks \<and>
        hold (db_clock (rr_db run)) (ep_key path) tok locks')"

lemma write_lock_keptI:
  assumes "fst (check_lock (rr_lock_now run) (ep_key path) headers locks) = Ok token"
    and "write_lock_hold (rr_db run) token path locks' = Ok ()"
  shows "write_lock_kept run path headers locks locks'"
  using check_lock_passed [OF assms(1)] assms(2)
  by (cases token) (auto simp: write_lock_kept_def dest: write_lock_hold_ok)

lemma put_route_changes:
  assumes s1: "s1 = others (checked_locks run path (sh_lock headers) s)"
    and inv: "store_invar volume s1" and path: "path_wf path"
    and parses: "parse_opendal (se_key_parser env) (ep_key path) = Ok path"
    and hash: "\<And>c. length (cn_hash (se_content env) c) = 32"
    and small: "volume + length (body_bytes body) + FILE_METADATA_SIZE < 2 ^ 63"
    and same: "files_of (tables_of s1) k = files_of (tables_of s) k"
    and put: "put_route env run others session path headers body s = (r, s')"
    and diff: "files_of (tables_of s') k \<noteq> files_of (tables_of s) k"
  shows "\<exists>owner u. authorize_write (us_db (fs_users s)) session path True = Ok owner \<and>
    user_get (ep_pubkey path) (us_db (fs_users s1)) = Ok u \<and> k = (ue_id u, as_str (ep_path path)) \<and>
    write_lock_kept run path (sh_lock headers) (fs_locks s) (fs_locks s1)"
proof -
  let ?s0 = "checked_locks run path (sh_lock headers) s"
  have s0: "tables_of ?s0 = tables_of s" by (simp add: checked_locks_def tables_of_def)
  obtain owner where owner: "authorize_write (us_db (fs_users s)) session path True = Ok owner"
    using put diff by (cases "authorize_write (us_db (fs_users s)) session path True") (auto simp: put_route_def)
  have hint: "fail_if_size_hint_exceeds_quota env (content_length_from_headers headers) owner path s = Ok ()"
    using put diff owner by (cases "fail_if_size_hint_exceeds_quota env (content_length_from_headers headers) owner path s") (auto simp: put_route_def)
  obtain token where token: "fst (check_lock (rr_lock_now run) (ep_key path) (sh_lock headers) (fs_locks s)) = Ok token"
    using put diff owner hint s0
    by (cases "fst (check_lock (rr_lock_now run) (ep_key path) (sh_lock headers) (fs_locks s))") (auto simp: put_route_def with_write_lock_def)
  obtain r2 s2 where w: "opendal_write_stream env (rr_check_db run) (rr_db run) token (rr_uuid run) path body s1 = (r2, s2)"
    by (metis prod.exhaust)
  have "s' = s2"
    using put owner hint token w
    by (auto simp: put_route_def with_write_lock_def s1 file_write_stream_def st_then_def split: prod.splits sum.splits)
  then have "files_of (tables_of s2) k \<noteq> files_of (tables_of s1) k" using diff same by simp
  from write_stream_changes [OF inv path parses hash small w this] owner token
  show ?thesis by (auto intro: write_lock_keptI)
qed

lemma delete_route_changes:
  assumes s1: "s1 = others (checked_locks run path (sh_lock headers) s)"
    and inv: "store_invar volume s1" and path: "path_wf path"
    and parses: "parse_opendal (se_key_parser env) (ep_key path) = Ok path" and small: "volume < 2 ^ 63"
    and same: "files_of (tables_of s1) k = files_of (tables_of s) k"
    and del: "delete_route env run others session path headers s = (r, s')"
    and diff: "files_of (tables_of s') k \<noteq> files_of (tables_of s) k"
  shows "\<exists>owner u. authorize_write (us_db (fs_users s)) session path False = Ok owner \<and>
    user_get (ep_pubkey path) (us_db (fs_users s1)) = Ok u \<and> k = (ue_id u, as_str (ep_path path)) \<and>
    write_lock_kept run path (sh_lock headers) (fs_locks s) (fs_locks s1) \<and> files_of (tables_of s') k = None"
proof -
  let ?s0 = "checked_locks run path (sh_lock headers) s"
  have s0: "tables_of ?s0 = tables_of s" by (simp add: checked_locks_def tables_of_def)
  obtain owner where owner: "authorize_write (us_db (fs_users s)) session path False = Ok owner"
    using del diff by (cases "authorize_write (us_db (fs_users s)) session path False") (auto simp: delete_route_def)
  obtain token where token: "fst (check_lock (rr_lock_now run) (ep_key path) (sh_lock headers) (fs_locks s)) = Ok token"
    using del diff owner s0
    by (cases "fst (check_lock (rr_lock_now run) (ep_key path) (sh_lock headers) (fs_locks s))") (auto simp: delete_route_def with_write_lock_def)
  obtain r2 s2 where w: "file_delete env (db_now (rr_check_db run)) (rr_db run, rr_blob_db run) token path s1 = (r2, s2)"
    by (metis prod.exhaust)
  have s': "s' = s2"
    using del owner token w
    by (auto simp: delete_route_def with_write_lock_def s1 st_then_def split: prod.splits sum.splits)
  then have "files_of (tables_of s2) k \<noteq> files_of (tables_of s1) k" using diff same by simp
  from delete_with_changes [OF inv path small parses w [unfolded file_delete_def] this] owner token
  show ?thesis by (auto simp: s' intro: write_lock_keptI)
qed

lemma lock_dispatch_tables: "tables_of (snd (lock_dispatch run req s)) = tables_of s"
  by (auto simp: lock_dispatch_def lock_route_def unlock_route_def st_then_def Let_def tables_of_def split: prod.splits sum.splits)

lemma storage_route_writes:
  assumes "storage_route env web run others req s = (answer, s')" and "tables_of s' \<noteq> tables_of s"
  obtains (put) session r where "sr_method req = ''PUT''" "sr_session req = Some session"
      "put_route env run others session (sr_path req) (sr_headers req) (sr_body req) s = (r, s')"
    | (delete) session r where "sr_method req = ''DELETE''" "sr_session req = Some session"
      "delete_route env run others session (sr_path req) (sr_headers req) s = (r, s')"
  using assms lock_dispatch_tables [of run req s]
  by (cases "sr_session req") (auto simp: storage_route_def Let_def require_session_def split: prod.splits if_splits)

section \<open>Reading what was written\<close>

text \<open>What is used of an object store: an object can be read with the metadata it has,
  a close and a copy that succeed publish the bytes, and a delete leaves other objects
  alone.\<close>

definition object_reads :: "'b object_store \<Rightarrow> string \<Rightarrow> string \<Rightarrow> 'b \<Rightarrow> bool" where
  "object_reads os key bytes b \<longleftrightarrow>
     (\<exists>meta. os_stat os key b = Ok meta \<and> om_length meta = length bytes \<and> os_read os key (om_etag meta) b = Ok bytes)"

definition object_store_laws :: "'b object_store \<Rightarrow> bool" where
  "object_store_laws os \<longleftrightarrow>
     (\<forall>key bytes b b'. os_close os key bytes b = (Ok (), b') \<longrightarrow> object_reads os key bytes b') \<and>
     (\<forall>src dst version bytes b b'. object_reads os src bytes b \<longrightarrow> os_copy os src dst version b = (Ok (), b') \<longrightarrow>
        object_reads os dst bytes b') \<and>
     (\<forall>key other args bytes b. key \<noteq> other \<longrightarrow> object_reads os other bytes b \<longrightarrow>
        object_reads os other bytes (snd (os_delete os key args b)))"

lemma refused_as_conflict_ok [simp]: "refused_as_conflict r = Ok x \<longleftrightarrow> r = Ok x"
  by (cases r) (auto simp: refused_as_conflict_def)

lemma staged_close_reads:
  assumes laws: "object_store_laws os" and key: "sw_staging w \<noteq> sw_path w"
    and close: "staged_close os g w b = (Ok (), w', b')"
  shows "object_reads os (sw_path w) (sw_written w) b'"
proof -
  obtain b1 where c: "os_close os (sw_staging w) (sw_written w) b = (Ok (), b1)"
    using close by (auto simp: staged_close_def split: prod.splits sum.splits)
  then have r1: "object_reads os (sw_staging w) (sw_written w) b1" using laws by (simp add: object_store_laws_def)
  obtain e b2 where g: "os_copy os (sw_staging w) (sw_path w) (version_condition e) b1 = (Ok (), b2)"
    and b': "b' = snd (os_delete os (sw_staging w) op_delete_default b2)"
    using close c by (auto simp: staged_close_def Let_def remove_staging_def split: prod.splits option.splits)
  have "object_reads os (sw_path w) (sw_written w) b2" using laws r1 g unfolding object_store_laws_def by blast
  then show ?thesis using laws key b' unfolding object_store_laws_def by blast
qed

lemma backend_close_reads:
  assumes laws: "object_store_laws (se_object_store env)" and key: "STAGING_PREFIX @ uuid \<noteq> ep_key path"
    and w: "has_written env uuid path bytes w" "fw_inner w = Some inner"
    and close: "backend_close env g inner b = (Ok (), inner', b')"
  shows "object_reads (se_object_store env) (ep_key path) bytes b'"
proof (cases "se_staged env")
  case True
  then obtain sw where "staged_close (se_object_store env) g (bw_staged inner) b = (Ok (), sw, b')"
    using close by (auto simp: backend_close_def split: prod.splits)
  from staged_close_reads [OF laws _ this] show ?thesis using w key by (auto simp: has_written_def)
next
  case False
  then have "os_close (se_object_store env) (ep_key path) bytes b = (Ok (), b')"
    using close w by (auto simp: backend_close_def has_written_def split: prod.splits)
  then show ?thesis using laws unfolding object_store_laws_def by blast
qed

lemma close_publishes:
  assumes "fin_writer_close env policy db token w s = (Ok (), w', s')"
  shows "\<exists>inner g inner'. fw_inner w = Some inner \<and> backend_close env g inner (fs_blobs s) = (Ok (), inner', fs_blobs s')"
  using assms
  by (auto simp: fin_writer_close_def finalize_write_def write_in_transaction_def finish_transaction_def commit_tables_def
      split: option.splits prod.splits sum.splits if_splits write_failure.splits commit_outcome.splits) blast

lemma get_sized_stream_reads:
  "object_reads (se_object_store env) (ep_key path) bytes (fs_blobs s) \<Longrightarrow> get_sized_stream env path s = Ok (length bytes, bytes)"
  by (auto simp: object_reads_def get_sized_stream_def)

lemma changed_file_info:
  assumes "tables_invar (tables_of s')" and "changes_file (ep_pubkey path) u (as_str (ep_path path)) (Some (h, n, ty)) tb (tables_of s')"
  shows "\<exists>e. get_info path s' = Ok e \<and> ee_hash e = h \<and> ee_length e = n \<and> ee_type e = ty"
proof -
  obtain used where u: "user_get (ep_pubkey path) (us_db (fs_users s')) = Ok (u\<lparr>ue_used_bytes := used\<rparr>)"
    using assms(2) by (auto simp: changes_file_def)
  have "files_of (tables_of s') (ue_id u, as_str (ep_path path)) = Some (h, n, ty)"
    using assms(2) by (auto simp: changes_file_def)
  then obtain r where r: "row_of en_key (et_rows (fs_entries s')) (ue_id u, as_str (ep_path path)) = Some r"
    "en_hash r = h" "en_length r = n" "en_type r = ty"
    by (auto simp: files_of_def)
  have "entry_get_by_path path (us_db (fs_users s')) (fs_entries s') = Ok (entity_of (ep_pubkey path) r)"
    using entry_get_by_path_row [OF _ _ u, of "fs_entries s'"] assms(1) r(1) by (simp add: tables_invar_def)
  then show ?thesis using r by (simp add: get_info_def entity_of_def)
qed

lemma staging_not_entry:
  assumes "CHR ''/'' \<notin> set uuid" and "path_wf path"
    and "prefix PUBLIC_ROOT (as_str (ep_path path)) \<or> prefix PRIVATE_ROOT (as_str (ep_path path))"
  shows "STAGING_PREFIX @ uuid \<noteq> ep_key path"
proof
  assume eq: "STAGING_PREFIX @ uuid = ep_key path"
  have "ep_key path = z32 (ep_pubkey path) @ as_str (ep_path path)"
    using assms(2) by (metis path_wf_def entry_path_new_sel(3))
  then have "2 \<le> length (filter (\<lambda>c. c = CHR ''/'') (ep_key path))"
    using assms(3) by (auto simp: PUBLIC_ROOT_def PRIVATE_ROOT_def prefix_def)
  moreover have "length (filter (\<lambda>c. c = CHR ''/'') (STAGING_PREFIX @ uuid)) = 1"
    using assms(1) by (simp add: STAGING_PREFIX_def filter_empty_conv) (metis)
  ultimately show False using eq by simp
qed

lemma map_err_pair_ok [simp]: "(case p of (r, s) \<Rightarrow> (map_err f r, s)) = (Ok x, s') \<longleftrightarrow> p = (Ok x, s')"
  by (cases p) auto

lemma put_route_stores:
  assumes s1: "s1 = others (checked_locks run path (sh_lock headers) s)"
    and laws: "object_store_laws (se_object_store env)" and inv: "store_invar volume s1" and path: "path_wf path"
    and parses: "parse_opendal (se_key_parser env) (ep_key path) = Ok path"
    and hash: "\<And>c. length (cn_hash (se_content env) c) = 32"
    and small: "volume + length (body_bytes body) + FILE_METADATA_SIZE < 2 ^ 63"
    and uuid: "CHR ''/'' \<notin> set (rr_uuid run)"
    and put: "put_route env run others session path headers body s = (Ok answer, s')"
  shows "answer = plain_response 201" and "BrokenStream \<notin> set body" and "is_file (ep_path path)"
    and "object_reads (se_object_store env) (ep_key path) (body_bytes body) (fs_blobs s')"
    and "\<exists>e. get_info path s' = Ok e \<and> ee_hash e = cn_hash (se_content env) (body_bytes body) \<and> ee_length e = length (body_bytes body)"
proof -
  obtain owner token entry2 where owner: "authorize_write (us_db (fs_users s)) session path True = Ok owner"
    and wr: "file_write_stream env (rr_check_db run) (rr_db run) token (rr_uuid run) path body s1 = (Ok entry2, s')"
    and answer: "answer = plain_response 201"
    using put by (auto simp: s1 put_route_def with_write_lock_def st_then_ok_iff)
  then have stream: "opendal_write_stream env (rr_check_db run) (rr_db run) token (rr_uuid run) path body s1 = (Ok (), s')"
    by (auto simp: file_write_stream_def st_then_ok_iff)
  have root: "prefix PUBLIC_ROOT (as_str (ep_path path)) \<or> prefix PRIVATE_ROOT (as_str (ep_path path))" "is_file (ep_path path)"
    using owner by (auto simp: authorize_write_ok has_write_permission_ok)
  note key = staging_not_entry [OF uuid path root(1)]
  have "BrokenStream \<notin> set body \<and> object_reads (se_object_store env) (ep_key path) (body_bytes body) (fs_blobs s') \<and>
    (\<exists>e. get_info path s' = Ok e \<and> ee_hash e = cn_hash (se_content env) (body_bytes body) \<and> ee_length e = length (body_bytes body))"
    using parses stream
  proof (cases rule: write_stream_cases)
    case (closed w r' w' s2)
    have ok: "fin_writer_close env (operator_policy AppOperator) (rr_db run) token w s2 = (Ok (), w', s')"
      using closed(4,5) by (cases r') auto
    note wf = close_wf [OF closed(1) path hash small]
    have "store_invar volume s2" using inv store_invar_same [OF closed(3)] by simp
    from this wf(1,2) ok have "\<exists>e. get_info path s' = Ok e \<and> ee_hash e = cn_hash (se_content env) (body_bytes body) \<and>
        ee_length e = length (body_bytes body)"
    proof (cases rule: close_effects)
      case (changed u)
      from changed_file_info [OF changed(3)] changed(4) wf(3) writer_metadata_written [OF closed(1)]
      show ?thesis by fastforce
    qed simp
    moreover have "object_reads (se_object_store env) (ep_key path) (body_bytes body) (fs_blobs s')"
      using close_publishes [OF ok] backend_close_reads [OF laws key closed(1)] by blast
    ultimately show ?thesis using closed(2) by blast
  qed simp
  then show "answer = plain_response 201" "BrokenStream \<notin> set body" "is_file (ep_path path)"
    "object_reads (se_object_store env) (ep_key path) (body_bytes body) (fs_blobs s')"
    "\<exists>e. get_info path s' = Ok e \<and> ee_hash e = cn_hash (se_content env) (body_bytes body) \<and> ee_length e = length (body_bytes body)"
    using answer root(2) by auto
qed

lemma trim_ascii_quoted: "trim_ascii (dquoted s) = dquoted s"
  by (simp add: trim_ascii_def is_ascii_space_def)

section \<open>Taking a lock\<close>

lemma create_lock_ok:
  assumes inv: "lock_invar t" and ok: "create_lock now now' uuid key secs t = (Ok lock, t')"
  shows "lock = \<lparr>lock_path = key, lock_token = uuid, lock_expires_at = now' + secs\<rparr>" and "lock_invar t'"
    and "row_of lock_path t' key = Some lock"
proof -
  let ?t = "snd (delete_expired now t)"
  have inv1: "lock_invar ?t" using lock_step_invar [OF inv, of now DeleteExpired] by simp
  have acq: "acquire now' key uuid secs ?t = (Some lock, t')" using ok by (auto simp: create_lock_def Let_def split: prod.splits)
  then have t': "t' = snd (acquire now' key uuid secs ?t)" by simp
  show lock: "lock = \<lparr>lock_path = key, lock_token = uuid, lock_expires_at = now' + secs\<rparr>"
    using acq by (auto simp: acquire_def Let_def split: option.splits if_splits)
  show "lock_invar t'" unfolding t' by (rule acquire_invar [OF inv1])
  have "get_active now' key ?t = None"
    using acq inv1 by (auto simp: acquire_def Let_def get_active_row split: option.splits if_splits)
  then show "row_of lock_path t' key = Some lock" unfolding t' lock by (simp add: row_of_acquire [OF inv1])
qed

lemma check_lock_live:
  assumes inv: "lock_invar t" and row: "row_of lock_path t key = Some lock" and live: "now < lock_expires_at lock"
  shows "fst (check_lock now key headers t) =
    (if if_header_tokens headers = [] then Err locked
     else if lock_token lock \<in> set (if_header_tokens headers) then Ok (Some (lock_token lock)) else Err lock_token_mismatch)"
proof -
  have "get_active now key t = Some lock" using inv row live by (simp add: get_active_row)
  moreover have "fst (keep_alive now key tokens secs t) =
      (if lock_token lock \<in> set tokens then Some (lock\<lparr>lock_expires_at := max (lock_expires_at lock) (now + secs)\<rparr>) else None)" for tokens secs
    using set_expiry_row [OF inv] row live by (simp add: keep_alive_def)
  then obtain t' where "keep_alive now key (if_header_tokens headers) WRITE_LOCK_HORIZON_SECS t =
      (if lock_token lock \<in> set (if_header_tokens headers)
       then Some (lock\<lparr>lock_expires_at := max (lock_expires_at lock) (now + WRITE_LOCK_HORIZON_SECS)\<rparr>) else None, t')"
    by (metis prod.collapse)
  ultimately show ?thesis by (simp add: check_lock_def Let_def)
qed

lemma coded_urls_single:
  assumes "\<forall>c \<in> set url. c \<noteq> CHR ''<'' \<and> c \<noteq> CHR ''>'' \<and> \<not> is_ascii_space c"
  shows "coded_urls (''(<'' @ url @ ''>)'') = [url]"
proof -
  have "dropWhile is_ascii_space xs = xs" if "set xs \<subseteq> set url" for xs
    using assms that by (cases xs) auto
  then have trim: "trim_ascii url = url" by (simp add: trim_ascii_def)
  have "split_once (CHR ''<'') (''(<'' @ url @ ''>)'') = Some (''('', url @ ''>)'')"
    "split_once (CHR ''>'') (url @ ''>)'') = Some (url, '')'')" "split_once (CHR ''<'') '')'' = None"
    using assms by (auto simp: split_once_Some_iff split_once_None_iff)
  then show ?thesis using trim by (subst coded_urls.simps, simp) (subst coded_urls.simps, simp)
qed

text \<open>A write whose lock check refuses it changes nothing but the locks.\<close>

lemma refused_write:
  assumes "fst (check_lock (rr_lock_now run) (ep_key path) (sh_lock headers) (fs_locks s)) = Err e"
  shows "tables_of (snd (put_route env run others session path headers body s)) = tables_of s \<and>
    \<not> is_ok (fst (put_route env run others session path headers body s)) \<and>
    tables_of (snd (delete_route env run others session path headers s)) = tables_of s \<and>
    \<not> is_ok (fst (delete_route env run others session path headers s))"
  using assms
  by (auto simp: put_route_def delete_route_def with_write_lock_def st_then_def checked_locks_def tables_of_def split: sum.splits)

section \<open>The size hint wraps around\<close>

text \<open>A hint just below the largest signed number passes the early check of every quota:
  the charge of a new file is added to it and wraps around.\<close>

lemma size_hint_wraps:
  assumes "entry_get_by_path path (us_db (fs_users s)) (fs_entries s) = Err e" and "ue_used_bytes user < 2 ^ 62"
  shows "fail_if_size_hint_exceeds_quota env (Some (2 ^ 63 - 1)) user path s = Ok ()"
proof -
  have "wrap_i64 (wrap_i64 (wrap_i64 (int (2 ^ 63 - 1)) - wrap_i64 (int 0)) + int FILE_METADATA_SIZE) = - (2 ^ 63) + 255"
    by (simp add: wrap_i64_def FILE_METADATA_SIZE_def)
  then show ?thesis using assms
    by (auto simp: fail_if_size_hint_exceeds_quota_def would_exceed_limit_def Let_def split: option.splits)
qed

section \<open>Properties\<close>

text \<open>C2: Only an authorized request changes a file.  Whatever its method, if a request to a
  storage route is answered and a file that no other request has changed meanwhile is
  different afterwards, then the request was a \<^verbatim>\<open>PUT\<close> or a \<^verbatim>\<open>DELETE\<close> of exactly that file;
  it came with a session of the owner of the path whose capabilities cover the path with
  the write action; the owner was known, and for a \<^verbatim>\<open>PUT\<close> not disabled; and it respected
  the lock of the path: either it named no token and no lock was live when it was checked,
  or one of its tokens held the path both at the check and at the publication.\<close>

theorem storage_change_authorized:
  assumes "store_invar volume (others (checked_locks run (sr_path req) (sh_lock (sr_headers req)) s))"
    and "path_wf (sr_path req)" and "parse_opendal (se_key_parser env) (ep_key (sr_path req)) = Ok (sr_path req)"
    and "\<forall>c. length (cn_hash (se_content env) c) = 32"
    and "volume + length (body_bytes (sr_body req)) + FILE_METADATA_SIZE < 2 ^ 63"
    and "files_of (tables_of (others (checked_locks run (sr_path req) (sh_lock (sr_headers req)) s))) k = files_of (tables_of s) k"
    and "storage_route env web run others req s = (answer, s')"
    and "files_of (tables_of s') k \<noteq> files_of (tables_of s) k"
  shows "\<exists>session owner u. sr_method req \<in> {''PUT'', ''DELETE''} \<and> sr_session req = Some session \<and>
    session_user_key session = ep_pubkey (sr_path req) \<and>
    permits (session_capabilities session) (ep_path (sr_path req)) Write \<and> is_file (ep_path (sr_path req)) \<and>
    user_get (ep_pubkey (sr_path req)) (us_db (fs_users s)) = Ok owner \<and> (sr_method req = ''PUT'' \<longrightarrow> \<not> ue_disabled owner) \<and>
    user_get (ep_pubkey (sr_path req))
      (us_db (fs_users (others (checked_locks run (sr_path req) (sh_lock (sr_headers req)) s)))) = Ok u \<and>
    k = (ue_id u, as_str (ep_path (sr_path req))) \<and>
    write_lock_kept run (sr_path req) (sh_lock (sr_headers req)) (fs_locks s)
      (fs_locks (others (checked_locks run (sr_path req) (sh_lock (sr_headers req)) s)))"
proof -
  have hash: "\<And>c. length (cn_hash (se_content env) c) = 32" using assms(4) by simp
  have "tables_of s' \<noteq> tables_of s" using assms(8) by auto
  with assms(7) show ?thesis
  proof (cases rule: storage_route_writes)
    case put
    from put_route_changes [OF refl assms(1,2,3) hash assms(5,6) put(3) assms(8)] put(1,2) show ?thesis
      by (auto simp: authorize_write_ok has_write_permission_ok)
  next
    case delete
    have "volume < 2 ^ 63" using assms(5) by simp
    from delete_route_changes [OF refl assms(1,2,3) this assms(6) delete(3) assms(8)] delete(1,2) show ?thesis
      by (auto simp: authorize_write_ok has_write_permission_ok)
  qed
qed

text \<open>C5: What was put is what is got.  After a \<^verbatim>\<open>PUT\<close> that answers with success, over any
  object store that keeps what it publishes, a \<^verbatim>\<open>GET\<close> of the same path by anybody allowed
  to read it answers 200 with exactly the bytes of the upload, their length, and the tag of
  their hash; and a \<^verbatim>\<open>GET\<close> that presents this tag answers 304 with no body.\<close>

theorem put_get_round_trip:
  assumes "object_store_laws (se_object_store env)"
    and "store_invar volume (others (checked_locks run path (sh_lock headers) s))"
    and "path_wf path" and "parse_opendal (se_key_parser env) (ep_key path) = Ok path"
    and "\<forall>c. length (cn_hash (se_content env) c) = 32" and "\<forall>h. CHR '','' \<notin> set (we_base64 web h)"
    and "volume + length (body_bytes body) + FILE_METADATA_SIZE < 2 ^ 63" and "CHR ''/'' \<notin> set (rr_uuid run)"
    and "put_route env run others session path headers body s = (Ok answer, s')"
    and "has_read_permission reader (Some (ep_pubkey path)) (ep_path path) = Ok ()"
    and "sh_if_none_match plain = None" and "sh_if_modified_since plain = None"
  shows "resp_status answer = 201 \<and> BrokenStream \<notin> set body \<and>
    (\<exists>got. get_route env web plain reader path params s' = Ok got \<and> resp_status got = 200 \<and>
       resp_body got = body_bytes body \<and> resp_headers got ''content-length'' = Some (show_nat (length (body_bytes body))) \<and>
       resp_headers got ''etag'' = Some (dquoted (we_base64 web (cn_hash (se_content env) (body_bytes body)))) \<and>
       (\<forall>conditional. sh_if_none_match conditional = resp_headers got ''etag'' \<longrightarrow>
          (\<exists>r. get_route env web conditional reader path params s' = Ok r \<and> resp_status r = 304 \<and> resp_body r = [])))"
proof -
  have hash: "\<And>c. length (cn_hash (se_content env) c) = 32" using assms(5) by simp
  note stored = put_route_stores [OF refl assms(1-4) hash assms(7-9)]
  obtain e where e: "get_info path s' = Ok e" "ee_hash e = cn_hash (se_content env) (body_bytes body)" using stored(5) by blast
  have dir: "\<not> is_directory (ep_path path)" using stored(3) by (simp add: is_file_def)
  have "get_route env web plain reader path params s' = Ok \<lparr>resp_status = 200,
      resp_headers = to_response_headers web e (length (body_bytes body)), resp_body = body_bytes body\<rparr>"
    using assms(10-12) dir e(1) get_sized_stream_reads [OF stored(4)] by (simp add: get_route_def is_not_modified_def)
  moreover have "is_not_modified web conditional e" if "sh_if_none_match conditional = Some (etag_of web e)" for conditional
    using that assms(6) trim_ascii_quoted [of "we_base64 web (ee_hash e)"]
    by (simp add: is_not_modified_def etag_of_def split_on_no_sep)
  then have "get_route env web conditional reader path params s' = Ok (not_modified_response web e)"
    if "sh_if_none_match conditional = Some (etag_of web e)" for conditional
    using that assms(10) dir e(1) by (simp add: get_route_def)
  ultimately show ?thesis
    using stored(1,2) e(2) by (simp add: plain_response_def to_response_headers_def etag_of_def not_modified_response_def)
qed


section \<open>Examples\<close>

definition example_session :: auth_session where
  "example_session = GrantAuthSession \<lparr>gs_user_key = PublicKey ''a'',
     gs_capabilities = [\<lparr>scope = StoragePath ''/pub/'', actions = [Read, Write]\<rparr>],
     gs_grant_id = ''g'', gs_token_expires_at = 0, gs_token_hash = ''h''\<rparr>"

definition example_run :: request_run where
  "example_run = \<lparr>rr_sweep_now = 5, rr_lock_now = 5, rr_check_db = example_db, rr_db = example_db, rr_blob_db = example_db,
     rr_uuid = ''u''\<rparr>"

definition example_headers :: storage_headers where
  "example_headers = \<lparr>sh_lock = \<lparr>if_values = [], timeout_value = None, lock_token_value = None\<rparr>,
     sh_content_length = Some ''5'', sh_if_none_match = None, sh_if_modified_since = None\<rparr>"

definition example_web :: web_env where
  "example_web = \<lparr>we_http_date = (\<lambda>t. t div 1000000), we_show_date = show_int, we_parse_date = parse_i64,
     we_base64 = (\<lambda>h. []), we_header_value = (\<lambda>_. True), we_regexp_replace = (\<lambda>s p r. s)\<rparr>"

definition example_put :: storage_request where
  "example_put = \<lparr>sr_method = ''PUT'', sr_uri_path = ''/storage/a/pub/z'', sr_session = Some example_session,
     sr_path = example_file ''/pub/z'', sr_headers = example_headers, sr_params = Map.empty,
     sr_body = [Chunk ''he'', Chunk ''llo'']\<rparr>"

lemma checked_locks_tables [simp]: "tables_of (checked_locks run path headers s) = tables_of s"
  by (simp add: checked_locks_def tables_of_def)

lemma checked_locks_invar [simp]: "store_invar volume (checked_locks run path headers s) = store_invar volume s"
  by (simp add: store_invar_def checked_locks_def tables_of_def)

lemma example_content: "\<forall>c. length (cn_hash (se_content (example_store_env b)) c) = 32"
  by (auto simp: example_store_env_def min_def)

lemma example_parses: "parse_opendal (se_key_parser (example_store_env True)) (ep_key (example_file ''/pub/z'')) = Ok (example_file ''/pub/z'')"
  by code_simp

lemma memory_put_lookup [simp]: "map_of (ms_objects (memory_put p c b)) q = (if q = p then Some (c, ms_next b) else map_of (ms_objects b) q)"
  by (simp add: memory_put_def update_conv')

lemma memory_reads:
  "object_reads memory_object_store p bytes b \<longleftrightarrow> (\<exists>g. map_of (ms_objects b) p = Some (bytes, g))"
  by (auto simp: object_reads_def memory_object_store_def split: option.splits prod.splits if_splits)

lemma memory_store_laws: "object_store_laws memory_object_store"
  unfolding object_store_laws_def memory_reads
  by (auto simp: memory_object_store_def delete_conv' split: option.splits prod.splits if_splits)

theorem storage_change_authorized_witness:
  "files_of (tables_of (snd (storage_route (example_store_env True) example_web example_run id example_put example_signed_up)))
     (1, ''/pub/z'') \<noteq> None \<and>
   permits (session_capabilities example_session) (StoragePath ''/pub/z'') Write \<and>
   write_lock_kept example_run (example_file ''/pub/z'') (sh_lock example_headers) [] []"
proof -
  let ?r = "storage_route (example_store_env True) example_web example_run id example_put example_signed_up"
  have req: "sr_path example_put = example_file ''/pub/z''" "sr_headers example_put = example_headers"
    "sr_session example_put = Some example_session"
    by (simp_all add: example_put_def)
  have r: "?r = (fst ?r, snd ?r)" by simp
  have diff: "files_of (tables_of (snd ?r)) (1, ''/pub/z'') \<noteq> None" by code_simp
  have none: "files_of (tables_of example_signed_up) (1, ''/pub/z'') = None" by code_simp
  have small: "0 + length (body_bytes (sr_body example_put)) + FILE_METADATA_SIZE < 2 ^ 63" by code_simp
  have locks: "fs_locks example_signed_up = []"
    "fs_locks (id (checked_locks example_run (example_file ''/pub/z'') (sh_lock example_headers) example_signed_up)) = []"
    by code_simp+
  have "\<exists>session owner u. sr_method example_put \<in> {''PUT'', ''DELETE''} \<and> sr_session example_put = Some session \<and>
      session_user_key session = ep_pubkey (sr_path example_put) \<and>
      permits (session_capabilities session) (ep_path (sr_path example_put)) Write \<and> is_file (ep_path (sr_path example_put)) \<and>
      user_get (ep_pubkey (sr_path example_put)) (us_db (fs_users example_signed_up)) = Ok owner \<and>
      (sr_method example_put = ''PUT'' \<longrightarrow> \<not> ue_disabled owner) \<and>
      user_get (ep_pubkey (sr_path example_put)) (us_db (fs_users (id (checked_locks example_run (sr_path example_put)
        (sh_lock (sr_headers example_put)) example_signed_up)))) = Ok u \<and>
      (1, ''/pub/z'') = (ue_id u, as_str (ep_path (sr_path example_put))) \<and>
      write_lock_kept example_run (sr_path example_put) (sh_lock (sr_headers example_put)) (fs_locks example_signed_up)
        (fs_locks (id (checked_locks example_run (sr_path example_put) (sh_lock (sr_headers example_put)) example_signed_up)))"
    by (rule storage_change_authorized [where volume = 0 and others = id and k = "(1, ''/pub/z'')", OF _ _ _ example_content small _ r])
      (use example_signed_up_invar example_path_wf(1) example_parses diff none req in simp_all)
  then show ?thesis using req locks diff by auto
qed

theorem put_get_round_trip_witness:
  "\<exists>got. get_route (example_store_env True) example_web example_headers None (example_file ''/pub/z'')
       \<lparr>lp_limit = None, lp_cursor = None, lp_shallow = False, lp_reverse = False\<rparr>
       (snd (put_route (example_store_env True) example_run id example_session (example_file ''/pub/z'') example_headers
          [Chunk ''he'', Chunk ''llo''] example_signed_up)) = Ok got \<and> resp_body got = ''hello''"
proof -
  let ?p = "put_route (example_store_env True) example_run id example_session (example_file ''/pub/z'') example_headers
    [Chunk ''he'', Chunk ''llo''] example_signed_up"
  have laws: "object_store_laws (se_object_store (example_store_env True))"
    using memory_store_laws by (simp add: example_store_env_def)
  have inv: "store_invar 0 (id (checked_locks example_run (example_file ''/pub/z'') (sh_lock example_headers) example_signed_up))"
    using example_signed_up_invar by simp
  have "is_ok (fst ?p)" by code_simp
  then obtain answer where p: "?p = (Ok answer, snd ?p)" by (metis is_ok_iff prod.collapse)
  have small: "0 + length (body_bytes [Chunk ''he'', Chunk ''llo'']) + FILE_METADATA_SIZE < 2 ^ 63" by code_simp
  have uuid: "CHR ''/'' \<notin> set (rr_uuid example_run)" by code_simp
  have base: "\<forall>h. CHR '','' \<notin> set (we_base64 example_web h)" by (simp add: example_web_def)
  have read: "has_read_permission None (Some (ep_pubkey (example_file ''/pub/z''))) (ep_path (example_file ''/pub/z'')) = Ok ()" by code_simp
  have plain: "sh_if_none_match example_headers = None" "sh_if_modified_since example_headers = None" by (simp_all add: example_headers_def)
  from put_get_round_trip [OF laws inv example_path_wf(1) example_parses example_content base small uuid p read plain,
      of "\<lparr>lp_limit = None, lp_cursor = None, lp_shallow = False, lp_reverse = False\<rparr>"]
  show ?thesis by auto
qed


end
