(* ===== verification/Signup.thy ===== *)
theory Signup
  imports Users
begin

text \<open>
  Signup: the \<^verbatim>\<open>signup_codes\<close> table (\<^verbatim>\<open>persistence/sql/entities/signup_code.rs\<close>) and the
  signup service (\<^verbatim>\<open>client_server/auth/signup_service.rs\<close>).  A signup transaction runs
  at READ COMMITTED: its checks read one state, and its writes apply to the state
  of a later statement, so the model takes both.  The Crockford base32 codec is a
  parameter.
\<close>

section \<open>Model: signup codes\<close>

record signup_code_entity =
  sc_id :: string
  sc_created_at :: int
  sc_used_at :: "int option"
  sc_used_by :: "public_key option"
  sc_quota_columns :: quota_columns

type_synonym signup_table = "signup_code_entity list"

definition signup_code_is_valid :: "(string \<Rightarrow> nat list option) \<Rightarrow> string \<Rightarrow> bool" where
  "signup_code_is_valid decode value \<longleftrightarrow>
     length value = 14 \<and> decode (filter (\<lambda>c. c \<noteq> CHR ''-'') value) \<noteq> None"

definition signup_code_new :: "(string \<Rightarrow> nat list option) \<Rightarrow> string \<Rightarrow> string option" where
  "signup_code_new decode code_id = (if signup_code_is_valid decode code_id then Some code_id else None)"

fun hyphenate :: "nat \<Rightarrow> string \<Rightarrow> string" where
  "hyphenate i [] = []"
| "hyphenate i (c # cs) = (if 0 < i \<and> i mod 4 = 0 then [CHR ''-'', c] else [c]) @ hyphenate (Suc i) cs"

definition to_ascii_uppercase :: "string \<Rightarrow> string" where
  "to_ascii_uppercase s = map (\<lambda>c. if CHR ''a'' \<le> c \<and> c \<le> CHR ''z'' then char_of (of_char c - 32 :: nat) else c) s"

definition signup_code_random :: "(nat list \<Rightarrow> string) \<Rightarrow> nat list \<Rightarrow> string" where
  "signup_code_random encode bytes = hyphenate 0 (to_ascii_uppercase (encode bytes))"

definition signup_code_quota :: "(string \<Rightarrow> storage_path list option) \<Rightarrow> signup_code_entity \<Rightarrow> user_quota" where
  "signup_code_quota from_json c = from_nullable_columns from_json (sc_quota_columns c)"

definition signup_code_create ::
  "(storage_path list \<Rightarrow> string) \<Rightarrow> int \<Rightarrow> string \<Rightarrow> user_quota \<Rightarrow> signup_table \<Rightarrow>
   (sql_error, signup_code_entity \<times> signup_table) result" where
  "signup_code_create to_json now code_id limits t =
     and_then (map_err InvalidArgument (user_quota_validate limits)) (\<lambda>_.
     and_then (ensure (row_of sc_id t code_id = None) UniqueViolation) (\<lambda>_.
       let c = \<lparr>sc_id = code_id, sc_created_at = now, sc_used_at = None, sc_used_by = None,
                sc_quota_columns = to_nullable_columns to_json limits\<rparr>
       in Ok (c, t @ [c])))"

definition signup_code_get :: "string \<Rightarrow> signup_table \<Rightarrow> (sql_error, signup_code_entity) result" where
  "signup_code_get code_id t = ok_or RowNotFound (row_of sc_id t code_id)"

datatype signup_code_list_state = AllCodes | UsedCodes | UnusedCodes

record signup_code_list_query =
  cq_state :: signup_code_list_state
  cq_limit :: "nat option"
  cq_cursor :: "string option"

definition signup_code_selected :: "signup_code_list_state \<Rightarrow> signup_code_entity \<Rightarrow> bool" where
  "signup_code_selected state c =
     (case state of AllCodes \<Rightarrow> True | UsedCodes \<Rightarrow> sc_used_by c \<noteq> None | UnusedCodes \<Rightarrow> sc_used_by c = None)"

definition signup_code_list ::
  "signup_code_list_query \<Rightarrow> signup_table \<Rightarrow> signup_code_entity list \<times> string option" where
  "signup_code_list q t =
     (let rows = sort_key sc_id (filter (signup_code_selected (cq_state q)) t);
          after = (case cq_cursor q of None \<Rightarrow> rows | Some cursor \<Rightarrow> filter (\<lambda>c. cursor < sc_id c) rows);
          limit = effective_list_limit (cq_limit q)
      in split_list_page (take (limit + 1) after) limit sc_id)"

definition signup_code_get_overview :: "signup_table \<Rightarrow> nat \<times> nat" where
  "signup_code_get_overview t = (length t, length (filter (\<lambda>c. sc_used_by c = None) t))"

definition mark_as_used ::
  "int \<Rightarrow> string \<Rightarrow> public_key \<Rightarrow> signup_table \<Rightarrow> (sql_error, signup_code_entity \<times> signup_table) result" where
  "mark_as_used now code_id used_by t =
     (case find (\<lambda>c. sc_id c = code_id \<and> sc_used_by c = None) t of
        None \<Rightarrow> Err RowNotFound
      | Some c \<Rightarrow>
          (let used = (\<lambda>c. c\<lparr>sc_used_by := Some used_by, sc_used_at := Some now\<rparr>)
           in Ok (used c, update_where (\<lambda>c. sc_id c = code_id \<and> sc_used_by c = None) used t)))"

section \<open>Model: the signup service\<close>

datatype signup_mode = Open | TokenRequired

datatype signup_error =
    UserAlreadyExists
  | SignupTokenRequired
  | InvalidSignupToken
  | SignupTokenAlreadyUsed
  | SignupInternal sql_error

record signup_state =
  ss_service :: user_service
  ss_codes :: signup_table

definition default_user_quota :: user_quota where
  "default_user_quota = \<lparr>uq_storage_quota_mb = Default, uq_rate_read = Default, uq_rate_write = Default,
     uq_rate_read_burst = None, uq_rate_write_burst = None, uq_allowed_write_paths = None\<rparr>"

definition ensure_user_not_exists :: "public_key \<Rightarrow> user_table \<Rightarrow> (signup_error, unit) result" where
  "ensure_user_not_exists pk t =
     (case user_get pk t of
        Inr _ \<Rightarrow> Err UserAlreadyExists
      | Inl RowNotFound \<Rightarrow> Ok ()
      | Inl e \<Rightarrow> Err (SignupInternal e))"

text \<open>The code is read from \<^verbatim>\<open>seen\<close> and marked in \<^verbatim>\<open>cur\<close>.\<close>

definition validate_and_consume_signup_token ::
  "(string \<Rightarrow> storage_path list option) \<Rightarrow> int \<Rightarrow> string option \<Rightarrow> public_key \<Rightarrow> signup_table \<Rightarrow> signup_table \<Rightarrow>
   (signup_error, user_quota \<times> signup_table) result" where
  "validate_and_consume_signup_token from_json now token pk seen cur =
     and_then (ok_or SignupTokenRequired token) (\<lambda>code_id.
     and_then (case signup_code_get code_id seen of
         Inr code \<Rightarrow> Ok code
       | Inl RowNotFound \<Rightarrow> Err InvalidSignupToken
       | Inl e \<Rightarrow> Err (SignupInternal e)) (\<lambda>code.
     and_then (ensure (sc_used_by code = None) SignupTokenAlreadyUsed) (\<lambda>_.
     and_then (map_err SignupInternal (mark_as_used now code_id pk cur)) (\<lambda>(_, codes).
       Ok (signup_code_quota from_json code, codes)))))"

definition create_user_in_tx ::
  "(storage_path list \<Rightarrow> string) \<Rightarrow> (string \<Rightarrow> storage_path list option) \<Rightarrow> int \<Rightarrow> signup_mode \<Rightarrow> public_key \<Rightarrow>
   string option \<Rightarrow> signup_state \<Rightarrow> user_table \<Rightarrow> signup_table \<Rightarrow>
   (signup_error, user_entity \<times> user_table \<times> signup_table) result" where
  "create_user_in_tx to_json from_json now mode pk token seen users codes =
     and_then (ensure_user_not_exists pk (us_db (ss_service seen))) (\<lambda>_.
     and_then (if mode = TokenRequired
         then validate_and_consume_signup_token from_json now token pk (ss_codes seen) codes
         else Ok (default_user_quota, codes)) (\<lambda>(quota, codes').
     and_then (map_err SignupInternal (user_create now pk users)) (\<lambda>(user, users').
     and_then (map_err SignupInternal (user_set_quota to_json (ue_id user) quota users')) (\<lambda>(user', users'').
       Ok (user', users'', codes')))))"

definition create_new_user ::
  "(storage_path list \<Rightarrow> string) \<Rightarrow> (string \<Rightarrow> storage_path list option) \<Rightarrow> int \<Rightarrow> signup_mode \<Rightarrow> public_key \<Rightarrow>
   string option \<Rightarrow> signup_state \<Rightarrow> signup_state \<Rightarrow> (signup_error, user_entity \<times> signup_state) result" where
  "create_new_user to_json from_json now mode pk token seen s =
     map_ok (\<lambda>(user, users, codes).
       (user, \<lparr>ss_service = \<lparr>us_db = users, us_cache = cache_user_quota from_json now user (us_cache (ss_service s))\<rparr>,
               ss_codes = codes\<rparr>))
     (create_user_in_tx to_json from_json now mode pk token seen (us_db (ss_service s)) (ss_codes s))"

text \<open>The operations on accounts and codes, in any order; a failed one changes
  nothing.  \<^verbatim>\<open>SignupUser\<close> carries the state its checks have seen.\<close>

datatype account_op =
    SignupUser signup_mode public_key "string option" signup_state
  | CreateCode string user_quota
  | ResolveQuota public_key
  | PatchQuota public_key user_quota_patch
  | SetDisabled public_key bool
  | CleanupCache

definition or_unchanged :: "('e, 'a) result \<Rightarrow> ('a \<Rightarrow> 's) \<Rightarrow> 's \<Rightarrow> 's" where
  "or_unchanged r f s = (case r of Inl _ \<Rightarrow> s | Inr x \<Rightarrow> f x)"

fun account_step ::
  "(storage_path list \<Rightarrow> string) \<Rightarrow> (string \<Rightarrow> storage_path list option) \<Rightarrow> int \<Rightarrow> account_op \<Rightarrow> signup_state \<Rightarrow> signup_state" where
  "account_step tj fj now (SignupUser mode pk token seen) s =
     or_unchanged (create_new_user tj fj now mode pk token seen s) snd s"
| "account_step tj fj now (CreateCode code_id limits) s =
     or_unchanged (signup_code_create tj now code_id limits (ss_codes s)) (\<lambda>(_, t). s\<lparr>ss_codes := t\<rparr>) s"
| "account_step tj fj now (ResolveQuota pk) s =
     s\<lparr>ss_service := snd (resolve_quota fj now pk (ss_service s))\<rparr>"
| "account_step tj fj now (PatchQuota pk patch) s =
     or_unchanged (patch_quota tj fj pk patch (ss_service s)) (\<lambda>(_, v). s\<lparr>ss_service := v\<rparr>) s"
| "account_step tj fj now (SetDisabled pk d) s =
     or_unchanged (set_disabled pk d (us_db (ss_service s)))
       (\<lambda>db. s\<lparr>ss_service := (ss_service s)\<lparr>us_db := db\<rparr>\<rparr>) s"
| "account_step tj fj now CleanupCache s =
     s\<lparr>ss_service := (ss_service s)\<lparr>us_cache := cache_cleanup now (us_cache (ss_service s))\<rparr>\<rparr>"

definition account_run ::
  "(storage_path list \<Rightarrow> string) \<Rightarrow> (string \<Rightarrow> storage_path list option) \<Rightarrow> (int \<times> account_op) list \<Rightarrow> signup_state \<Rightarrow> signup_state" where
  "account_run tj fj ops s = fold (\<lambda>(now, op). account_step tj fj now op) ops s"

section \<open>Signup codes\<close>

lemma hyphenate_plain: "CHR ''-'' \<notin> set cs \<Longrightarrow> filter (\<lambda>c. c \<noteq> CHR ''-'') (hyphenate i cs) = cs"
  by (induction cs arbitrary: i) (auto simp: filter_empty_conv)

lemma length_hyphenate: "length (hyphenate i cs) = length cs + card {k. i \<le> k \<and> k < i + length cs \<and> 0 < k \<and> k mod 4 = 0}"
proof (induction cs arbitrary: i)
  case (Cons c cs)
  let ?S = "\<lambda>i n. {k. i \<le> k \<and> k < i + n \<and> 0 < k \<and> k mod 4 = (0::nat)}"
  have fin: "finite (?S (Suc i) (length cs))" by simp
  have "?S i (Suc (length cs)) = (if 0 < i \<and> i mod 4 = 0 then insert i (?S (Suc i) (length cs)) else ?S (Suc i) (length cs))"
    by (auto simp: Suc_le_eq le_less)
  moreover have "i \<notin> ?S (Suc i) (length cs)" by simp
  ultimately show ?case using Cons.IH [of "Suc i"] fin by simp
qed simp

lemma upper_no_hyphen: "CHR ''-'' \<notin> set cs \<Longrightarrow> CHR ''-'' \<notin> set (to_ascii_uppercase cs)"
proof -
  have "char_of (of_char c - 32 :: nat) \<noteq> CHR ''-''" if "CHR ''a'' \<le> c" for c
  proof
    assume "char_of (of_char c - 32 :: nat) = CHR ''-''"
    then have "of_char (char_of (of_char c - 32 :: nat)) = (45 :: nat)" by simp
    moreover have "97 \<le> (of_char c :: nat)" using that by (simp add: less_eq_char_def)
    moreover have "(of_char c :: nat) < 256" by simp
    ultimately show False by simp
  qed
  then show "CHR ''-'' \<notin> set cs \<Longrightarrow> CHR ''-'' \<notin> set (to_ascii_uppercase cs)"
    by (auto simp: to_ascii_uppercase_def split: if_splits) metis
qed

text \<open>Seven random bytes are twelve base32 digits, so a generated code has the
  format the parser accepts.\<close>

lemma random_code_valid:
  assumes "length (encode bytes) = 12" and "CHR ''-'' \<notin> set (encode bytes)"
    and "decode (to_ascii_uppercase (encode bytes)) \<noteq> None"
  shows "signup_code_new decode (signup_code_random encode bytes) = Some (signup_code_random encode bytes)"
proof -
  have "{k. k < 12 \<and> 0 < k \<and> k mod 4 = (0::nat)} = {4, 8}" by auto
  then have "length (signup_code_random encode bytes) = 14"
    using assms(1) by (simp add: signup_code_random_def length_hyphenate to_ascii_uppercase_def)
  then show ?thesis
    using assms(3) upper_no_hyphen [OF assms(2)]
    by (simp add: signup_code_new_def signup_code_is_valid_def signup_code_random_def hyphenate_plain)
qed

interpretation code_pages: paged_listing
  "\<lambda>(t, q). sort_key sc_id (filter (signup_code_selected (cq_state q)) t)" "\<lambda>_ c d. sc_id c < sc_id d"
  sc_id "\<lambda>(t, q). effective_list_limit (cq_limit q)" "\<lambda>(t, q) c. signup_code_list (q\<lparr>cq_cursor := c\<rparr>) t"
  "\<lambda>(t, q). keyed sc_id t \<and> cq_limit q \<noteq> Some 0"
proof (unfold_locales, goal_cases)
  case (1 tq)
  obtain t q where tq: "tq = (t, q)" by (cases tq)
  let ?xs = "sort_key sc_id (filter (signup_code_selected (cq_state q)) t)"
  have "distinct (map sc_id (filter (signup_code_selected (cq_state q)) t))"
    using 1 tq by (simp add: keyed_def distinct_map_filter)
  then have "distinct (map sc_id ?xs)" by (simp add: distinct_map)
  then have "sorted_wrt (<) (map sc_id ?xs)" by (simp add: strict_sorted_iff del: sorted_wrt_map)
  then show ?case by (simp add: tq sorted_wrt_map)
qed (auto simp: effective_list_limit_pos signup_code_list_def Let_def)

lemma signup_code_pages_complete:
  assumes "keyed sc_id t" and "cq_limit q \<noteq> Some 0" and "length t < n"
  shows "set (collect_pages n (\<lambda>c. signup_code_list (q\<lparr>cq_cursor := c\<rparr>) t) None) =
    {c \<in> set t. signup_code_selected (cq_state q) c}"
  using code_pages.collect_all [of "(t, q)" n] assms length_filter_le [of "signup_code_selected (cq_state q)" t]
  by simp

definition code_used_by :: "signup_table \<Rightarrow> string \<Rightarrow> public_key \<Rightarrow> bool" where
  "code_used_by t c pk \<longleftrightarrow> (\<exists>row. row_of sc_id t c = Some row \<and> sc_used_by row = Some pk)"

lemma find_unused:
  "keyed sc_id t \<Longrightarrow> find (\<lambda>c. sc_id c = k \<and> sc_used_by c = None) t =
     (case row_of sc_id t k of Some c \<Rightarrow> if sc_used_by c = None then Some c else None | None \<Rightarrow> None)"
proof (induction t)
  case (Cons c t)
  then show ?case by (auto simp: row_of_Cons keyed_Cons)
qed simp

lemma mark_as_used_cases:
  assumes "keyed sc_id t"
  shows "mark_as_used now k pk t =
    (case row_of sc_id t k of
       Some c \<Rightarrow> if sc_used_by c \<noteq> None then Err RowNotFound
         else Ok (c\<lparr>sc_used_by := Some pk, sc_used_at := Some now\<rparr>,
           update_where (\<lambda>c. sc_id c = k \<and> sc_used_by c = None)
             (\<lambda>c. c\<lparr>sc_used_by := Some pk, sc_used_at := Some now\<rparr>) t)
     | None \<Rightarrow> Err RowNotFound)"
  using assms by (auto simp: mark_as_used_def find_unused Let_def split: option.splits)

lemma mark_as_used_ok:
  assumes "keyed sc_id t" and "mark_as_used now k pk t = Ok (c, t')"
  shows "keyed sc_id t' \<and> code_used_by t' k pk \<and> (\<forall>j p. code_used_by t j p \<longrightarrow> code_used_by t' j p)"
  using assms
  by (auto simp: mark_as_used_cases code_used_by_def row_of_update_where dest: row_of_SomeD
      split: option.splits if_splits)

lemma mark_as_used_twice: "keyed sc_id t \<Longrightarrow> code_used_by t k pk \<Longrightarrow> mark_as_used now k pk' t = Err RowNotFound"
  by (auto simp: mark_as_used_cases code_used_by_def)

lemma signup_code_create_ok:
  assumes "keyed sc_id t" and "signup_code_create to_json now k limits t = Ok (c, t')"
  shows "keyed sc_id t' \<and> (\<forall>j p. code_used_by t j p \<longrightarrow> code_used_by t' j p)"
  using assms
  by (auto simp: signup_code_create_def and_then_ok_iff Let_def keyed_snoc code_used_by_def row_of_append
      split: option.splits)

section \<open>Runs of account operations\<close>

definition signup_invar :: "(string \<Rightarrow> storage_path list option) \<Rightarrow> signup_state \<Rightarrow> bool" where
  "signup_invar fj s \<longleftrightarrow> user_invar (us_db (ss_service s)) \<and> keyed sc_id (ss_codes s)
     \<and> cache_coherent fj (ss_service s)"

lemma create_user_in_txD:
  assumes "create_user_in_tx tj fj now mode pk token seen users codes = Ok (u, users', codes')"
  obtains quota v mid where "user_create now pk users = Ok (v, mid)"
    and "user_set_quota tj (ue_id v) quota mid = Ok (u, users')"
    and "if mode = TokenRequired
      then validate_and_consume_signup_token fj now token pk (ss_codes seen) codes = Ok (quota, codes')
      else quota = default_user_quota \<and> codes' = codes"
  using assms by (force simp: create_user_in_tx_def and_then_ok_iff split: if_splits)

lemma create_user_users:
  assumes "user_invar users" and "create_user_in_tx tj fj now mode pk token seen users codes = Ok (u, users', codes')"
  shows "user_invar users' \<and> ue_public_key u = pk \<and>
    (\<forall>p. user_get p users' = (if p = pk then Ok u else user_get p users))"
proof -
  obtain quota v mid where v: "user_create now pk users = Ok (v, mid)"
    and q: "user_set_quota tj (ue_id v) quota mid = Ok (u, users')"
    using assms(2) by (rule create_user_in_txD)
  have inv: "user_invar mid" using assms(1) v by (rule user_invar_create)
  have get: "user_get p mid = (if p = pk then Ok v else user_get p users)" for p
    using v by (rule user_create_get)
  have "user_quota_validate quota = Ok ()" using q by (auto simp: user_set_quota_def and_then_ok_iff)
  from user_set_quota_ok [OF inv _ this, of pk v tj] get q user_getD [of pk mid v] show ?thesis by auto
qed

lemma create_user_codes:
  assumes "keyed sc_id codes" and "create_user_in_tx tj fj now mode pk token seen users codes = Ok (u, users', codes')"
  shows "keyed sc_id codes'" and "code_used_by codes j p \<Longrightarrow> code_used_by codes' j p"
    and "mode = TokenRequired \<Longrightarrow> token = Some c \<Longrightarrow> code_used_by codes' c pk"
proof -
  obtain quota where q: "if mode = TokenRequired
      then validate_and_consume_signup_token fj now token pk (ss_codes seen) codes = Ok (quota, codes')
      else quota = default_user_quota \<and> codes' = codes"
    using assms(2) by (rule create_user_in_txD)
  then have "codes' = codes \<and> mode \<noteq> TokenRequired \<or>
      (\<exists>k row. token = Some k \<and> mark_as_used now k pk codes = Ok (row, codes'))"
    by (auto simp: validate_and_consume_signup_token_def and_then_ok_iff split: if_splits)
  then show "keyed sc_id codes'" and "code_used_by codes j p \<Longrightarrow> code_used_by codes' j p"
    and "mode = TokenRequired \<Longrightarrow> token = Some c \<Longrightarrow> code_used_by codes' c pk"
    using assms(1) mark_as_used_ok by blast+
qed

lemma used_code_refused:
  assumes "keyed sc_id codes" and "code_used_by codes c pk"
  shows "\<exists>e. create_user_in_tx tj fj now TokenRequired pk' (Some c) seen users codes = Err e"
proof (cases "create_user_in_tx tj fj now TokenRequired pk' (Some c) seen users codes")
  case (Inr r)
  then obtain u users' codes' where "create_user_in_tx tj fj now TokenRequired pk' (Some c) seen users codes =
      Ok (u, users', codes')" by (cases r) auto
  then obtain quota where
    "validate_and_consume_signup_token fj now (Some c) pk' (ss_codes seen) codes = Ok (quota, codes')"
    by (rule create_user_in_txD) simp
  then show ?thesis
    using mark_as_used_twice [OF assms] by (auto simp: validate_and_consume_signup_token_def and_then_ok_iff)
qed simp

lemma create_new_user_ok:
  assumes "signup_invar fj s" and "create_new_user tj fj now mode pk token seen s = Ok (u, s')"
  shows "signup_invar fj s'" and "code_used_by (ss_codes s) j p \<Longrightarrow> code_used_by (ss_codes s') j p"
    and "mode = TokenRequired \<Longrightarrow> token = Some c \<Longrightarrow> code_used_by (ss_codes s') c pk"
    and "user_get q (us_db (ss_service s')) = (if q = pk then Ok u else user_get q (us_db (ss_service s)))"
proof -
  let ?v = "ss_service s"
  obtain users codes where tx: "create_user_in_tx tj fj now mode pk token seen (us_db ?v) (ss_codes s) = Ok (u, users, codes)"
    and s': "s' = \<lparr>ss_service = \<lparr>us_db = users, us_cache = cache_user_quota fj now u (us_cache ?v)\<rparr>, ss_codes = codes\<rparr>"
    using assms(2) by (auto simp: create_new_user_def)
  have inv: "user_invar (us_db ?v)" "keyed sc_id (ss_codes s)" "cache_coherent fj ?v"
    using assms(1) by (simp_all add: signup_invar_def)
  note users = create_user_users [OF inv(1) tx]
  have other: "resolve_query fj p users = resolve_query fj p (us_db ?v)" if "p \<noteq> pk" for p
    using that users by (simp add: resolve_query_def)
  let ?e = "entry_found now (user_entity_quota fj u)"
  have new: "resolve_query fj pk users = Ok (ce_config ?e)"
    using users by (simp add: resolve_query_def entry_found_def)
  have "cache_coherent fj \<lparr>us_db = users, us_cache = cache_insert pk ?e (us_cache ?v)\<rparr>"
    using inv(3) other new
    unfolding cache_coherent_def cache_insert_def
    by (auto simp: distinct_update update_conv' simp del: map_of_eq_Some_iff split: if_splits)
  then show "signup_invar fj s'"
    using users create_user_codes(1) [OF inv(2) tx] by (simp add: s' signup_invar_def cache_user_quota_def)
  show "code_used_by (ss_codes s) j p \<Longrightarrow> code_used_by (ss_codes s') j p"
    using create_user_codes(2) [OF inv(2) tx] by (simp add: s')
  show "mode = TokenRequired \<Longrightarrow> token = Some c \<Longrightarrow> code_used_by (ss_codes s') c pk"
    using create_user_codes(3) [OF inv(2) tx] by (simp add: s')
  show "user_get q (us_db (ss_service s')) = (if q = pk then Ok u else user_get q (us_db (ss_service s)))"
    using users by (simp add: s')
qed

lemma account_step_ok:
  assumes "signup_invar fj s"
  shows "signup_invar fj (account_step tj fj now op s) \<and>
    (code_used_by (ss_codes s) c p \<longrightarrow> code_used_by (ss_codes (account_step tj fj now op s)) c p)"
proof (cases op)
  case (SignupUser mode pk token seen)
  then show ?thesis
    using assms create_new_user_ok(1,2) [OF assms, of tj now mode pk token seen]
    by (auto simp: or_unchanged_def split: sum.splits)
next
  case (CreateCode k limits)
  then show ?thesis
    using assms signup_code_create_ok [of "ss_codes s" tj now k limits]
    by (fastforce simp: or_unchanged_def signup_invar_def split: sum.splits)
next
  case (ResolveQuota pk)
  then show ?thesis using assms resolve_quota_coherent [of fj "ss_service s" now pk]
    by (simp add: signup_invar_def)
next
  case (PatchQuota pk patch)
  then show ?thesis using assms patch_quota_coherent [of "ss_service s" fj tj pk patch]
    by (auto simp: or_unchanged_def signup_invar_def split: sum.splits)
next
  case (SetDisabled pk d)
  then show ?thesis using assms set_disabled_coherent [of "ss_service s" fj pk d]
    by (auto simp: or_unchanged_def signup_invar_def split: sum.splits)
next
  case CleanupCache
  then show ?thesis
    using assms coherent_sub_cache [OF _ sub_cache_cleanup, of fj "ss_service s" now]
    by (simp add: signup_invar_def) (simp add: cache_coherent_def)
qed

lemma account_run_ok:
  "signup_invar fj s \<Longrightarrow> signup_invar fj (account_run tj fj ops s) \<and>
    (code_used_by (ss_codes s) c p \<longrightarrow> code_used_by (ss_codes (account_run tj fj ops s)) c p)"
proof (induction ops arbitrary: s)
  case (Cons a ops)
  obtain now op where a: "a = (now, op)" by (cases a)
  show ?case
    using Cons.IH [of "account_step tj fj now op s"] account_step_ok [OF Cons.prems, of tj now op c p]
    by (auto simp: account_run_def a)
qed (simp add: account_run_def)

text \<open>No account operation removes a user or changes the id behind a key.\<close>

definition users_grow :: "user_table \<Rightarrow> user_table \<Rightarrow> bool" where
  "users_grow t t' \<longleftrightarrow>
     (\<forall>p u. user_get p t = Ok u \<longrightarrow> (\<exists>u'. user_get p t' = Ok u' \<and> ue_id u' = ue_id u))"

lemma users_grow_refl [simp]: "users_grow t t"
  by (simp add: users_grow_def)

text \<open>The stronger form for what leaves the account switches alone.\<close>

definition flags_kept :: "user_table \<Rightarrow> user_table \<Rightarrow> bool" where
  "flags_kept t t' \<longleftrightarrow> (\<forall>p u. user_get p t = Ok u \<longrightarrow>
     (\<exists>u'. user_get p t' = Ok u' \<and> ue_id u' = ue_id u \<and> ue_disabled u' = ue_disabled u))"

lemma flags_kept_refl [simp]: "flags_kept t t"
  by (simp add: flags_kept_def)

lemma flags_kept_grow: "flags_kept t t' \<Longrightarrow> users_grow t t'"
  unfolding flags_kept_def users_grow_def by blast

lemma flags_kept_trans: "flags_kept t t' \<Longrightarrow> flags_kept t' t'' \<Longrightarrow> flags_kept t t''"
  unfolding flags_kept_def by metis

lemma flags_kept_update:
  "\<forall>p. user_get p t' = (if p = pk then Ok v else user_get p t) \<Longrightarrow> user_get pk t = Ok u \<Longrightarrow> ue_id v = ue_id u \<Longrightarrow>
   ue_disabled v = ue_disabled u \<Longrightarrow> flags_kept t t'"
  by (auto simp: flags_kept_def)

lemma users_grow_update:
  "\<forall>p. user_get p t' = (if p = pk then Ok v else user_get p t) \<Longrightarrow> user_get pk t = Ok u \<Longrightarrow> ue_id v = ue_id u \<Longrightarrow>
   users_grow t t'"
  by (auto simp: users_grow_def)

lemma create_new_user_flags:
  assumes "signup_invar fj s" and "create_new_user tj fj now mode pk token seen s = Ok (u, s')"
  shows "flags_kept (us_db (ss_service s)) (us_db (ss_service s'))"
proof -
  obtain users codes where "create_user_in_tx tj fj now mode pk token seen (us_db (ss_service s)) (ss_codes s) = Ok (u, users, codes)"
    using assms(2) by (auto simp: create_new_user_def)
  then obtain v mid where "user_create now pk (us_db (ss_service s)) = Ok (v, mid)" by (rule create_user_in_txD)
  then have "user_get pk (us_db (ss_service s)) \<noteq> Ok w" for w by (auto simp: user_create_def user_get_ok_iff)
  then show ?thesis using create_new_user_ok(4) [OF assms] by (auto simp: flags_kept_def)
qed

lemma patch_quota_flags:
  assumes inv: "user_invar (us_db s)" and patch: "patch_quota tj fj pk patch s = Ok (u, s')"
  shows "flags_kept (us_db s) (us_db s')"
proof -
  have "\<exists>w. user_get pk (us_db s) = Ok w"
    using patch by (cases "user_get pk (us_db s)") (auto simp: patch_quota_def split: sql_error.splits)
  then obtain w where w: "user_get pk (us_db s) = Ok w" ..
  have "user_quota_validate (user_quota_merge (user_entity_quota fj w) patch) = Ok ()"
    using patch patch_quota_cases(1) [OF inv w]
    by (cases "user_quota_validate (user_quota_merge (user_entity_quota fj w) patch)") auto
  then show ?thesis
    using patch_quota_cases(2) [OF inv w, of fj patch tj] patch by (auto intro!: flags_kept_update [OF _ w])
qed

text \<open>Only the switch itself is turned by switching an account.\<close>

lemma account_step_flags:
  assumes "signup_invar fj s" and "\<And>pk d. op \<noteq> SetDisabled pk d"
  shows "flags_kept (us_db (ss_service s)) (us_db (ss_service (account_step tj fj now op s)))"
proof (cases op)
  case (SignupUser mode pk token seen)
  then show ?thesis using create_new_user_flags [OF assms(1), of tj now mode pk token seen]
    by (auto simp: or_unchanged_def split: sum.splits)
next
  case (PatchQuota pk patch)
  then show ?thesis using patch_quota_flags [of "ss_service s" tj fj pk patch] assms(1)
    by (auto simp: or_unchanged_def signup_invar_def split: sum.splits)
qed (use assms resolve_quota_coherent(2) in \<open>auto simp: or_unchanged_def signup_invar_def split: sum.splits\<close>)

lemma account_step_grow:
  assumes "signup_invar fj s"
  shows "users_grow (us_db (ss_service s)) (us_db (ss_service (account_step tj fj now op s)))"
proof (cases "\<exists>pk d. op = SetDisabled pk d")
  case True
  then obtain pk d where "op = SetDisabled pk d" by blast
  then show ?thesis
    using set_disabled_ok [of "us_db (ss_service s)" pk d] assms
    by (auto simp: or_unchanged_def signup_invar_def users_grow_def split: sum.splits)
next
  case False
  then show ?thesis using account_step_flags [OF assms] flags_kept_grow by blast
qed

section \<open>Properties\<close>

text \<open>The signup policy, without the database: who may sign up, and with which quota.\<close>

definition signup_policy ::
  "(string \<Rightarrow> storage_path list option) \<Rightarrow> signup_mode \<Rightarrow> public_key \<Rightarrow> string option \<Rightarrow> signup_state \<Rightarrow>
   (signup_error, user_quota) result" where
  "signup_policy fj mode pk token s =
     (if \<exists>u \<in> set (ut_rows (us_db (ss_service s))). ue_public_key u = pk then Err UserAlreadyExists
      else case (mode, token) of
        (Open, _) \<Rightarrow> Ok default_user_quota
      | (TokenRequired, None) \<Rightarrow> Err SignupTokenRequired
      | (TokenRequired, Some c) \<Rightarrow>
          (case row_of sc_id (ss_codes s) c of
             None \<Rightarrow> Err InvalidSignupToken
           | Some code \<Rightarrow>
               if sc_used_by code \<noteq> None then Err SignupTokenAlreadyUsed
               else Ok (signup_code_quota fj code)))"

text \<open>C15: A signup token admits one user: after a signup has consumed a code, the code
  is recorded as used by that user through every further run of account
  operations, and no signup with the same code succeeds, even one whose checks
  read the table before the code was consumed.\<close>

theorem signup_code_single_use:
  assumes "signup_invar fj s"
    and "create_new_user tj fj now TokenRequired pk (Some c) seen s = Ok (u, s')"
  shows "let final = account_run tj fj ops s' in
    code_used_by (ss_codes final) c pk \<and>
    (\<exists>e. create_new_user tj fj now' TokenRequired pk' (Some c) seen' final = Err e)"
proof -
  let ?final = "account_run tj fj ops s'"
  have "code_used_by (ss_codes s') c pk" "signup_invar fj s'"
    using create_new_user_ok(1,3) [OF assms] by simp_all
  then have used: "code_used_by (ss_codes ?final) c pk" and inv: "signup_invar fj ?final"
    using account_run_ok [of fj s' tj ops c pk] by simp_all
  moreover have "\<exists>e. create_new_user tj fj now' TokenRequired pk' (Some c) seen' ?final = Err e"
    using used_code_refused [OF _ used, of tj fj now' pk' seen' "us_db (ss_service ?final)"] inv
    by (auto simp: create_new_user_def signup_invar_def)
  ultimately show ?thesis by (simp add: Let_def)
qed

theorem signup_code_single_use_witness:
  "let code = \<lparr>sc_id = ''JZY0-D6MY-ZFNG'', sc_created_at = 0, sc_used_at = None, sc_used_by = None,
         sc_quota_columns = NULL_COLUMNS\<rparr>;
       s = \<lparr>ss_service = \<lparr>us_db = \<lparr>ut_rows = [], ut_seq = 1\<rparr>, us_cache = []\<rparr>, ss_codes = [code]\<rparr>;
       signup = create_new_user (\<lambda>_. []) (\<lambda>_. None)
   in case signup 1 TokenRequired (PublicKey ''a'') (Some ''JZY0-D6MY-ZFNG'') s s of
        Inl _ \<Rightarrow> False
      | Inr (_, s') \<Rightarrow> \<exists>e. signup 2 TokenRequired (PublicKey ''b'') (Some ''JZY0-D6MY-ZFNG'') s
          (account_run (\<lambda>_. []) (\<lambda>_. None) [(1, ResolveQuota (PublicKey ''a''))] s') = Err e"
proof -
  let ?code = "\<lparr>sc_id = ''JZY0-D6MY-ZFNG'', sc_created_at = 0, sc_used_at = None, sc_used_by = None,
         sc_quota_columns = NULL_COLUMNS\<rparr>"
  let ?s = "\<lparr>ss_service = \<lparr>us_db = \<lparr>ut_rows = [], ut_seq = 1\<rparr>, us_cache = []\<rparr>, ss_codes = [?code]\<rparr>"
  let ?signup = "create_new_user (\<lambda>_. []) (\<lambda>_. None)"
  have inv: "signup_invar (\<lambda>_. None) ?s"
    by (simp add: signup_invar_def user_invar_def cache_coherent_def keyed_def)
  have "?signup 1 TokenRequired (PublicKey ''a'') (Some ''JZY0-D6MY-ZFNG'') ?s ?s \<noteq> Err UserAlreadyExists
    \<and> (case ?signup 1 TokenRequired (PublicKey ''a'') (Some ''JZY0-D6MY-ZFNG'') ?s ?s of Inr _ \<Rightarrow> True | Inl _ \<Rightarrow> False)"
    by code_simp
  then obtain u s' where ok: "?signup 1 TokenRequired (PublicKey ''a'') (Some ''JZY0-D6MY-ZFNG'') ?s ?s = Ok (u, s')"
    by (auto split: sum.splits)
  show ?thesis
    using signup_code_single_use [OF inv ok, where now' = 2 and pk' = "PublicKey ''b''" and seen' = ?s
        and ops = "[(1, ResolveQuota (PublicKey ''a''))]"] ok
    by (simp add: Let_def)
qed

text \<open>C16: Signup implements its policy: it is refused with the error the policy gives,
  and otherwise creates exactly one user, with the quota the policy gives, and
  consumes the code.\<close>

theorem signup_implements_policy:
  assumes "user_invar (us_db (ss_service s))" and "keyed sc_id (ss_codes s)"
  shows "case signup_policy fj mode pk token s of
      Inl e \<Rightarrow> create_new_user tj fj now mode pk token s s = Err e
    | Inr quota \<Rightarrow>
        (case user_quota_validate quota of
           Inl e \<Rightarrow> create_new_user tj fj now mode pk token s s = Err (SignupInternal (InvalidArgument e))
         | Inr _ \<Rightarrow> \<exists>u s'. create_new_user tj fj now mode pk token s s = Ok (u, s') \<and>
             ue_public_key u = pk \<and> ue_quota_columns u = to_nullable_columns tj quota \<and>
             ue_used_bytes u = 0 \<and> \<not> ue_disabled u \<and>
             (\<forall>p. user_get p (us_db (ss_service s')) =
                (if p = pk then Ok u else user_get p (us_db (ss_service s)))) \<and>
             (\<forall>c. mode = TokenRequired \<and> token = Some c \<longrightarrow> code_used_by (ss_codes s') c pk))"
proof (cases "signup_policy fj mode pk token s")
  case (Inl e)
  let ?row = "row_of ue_public_key (ut_rows (us_db (ss_service s))) pk"
  have "(\<exists>u \<in> set (ut_rows (us_db (ss_service s))). ue_public_key u = pk) \<longleftrightarrow> ?row \<noteq> None"
    by (auto simp: row_of_None_iff)
  with Inl show ?thesis
    by (cases ?row; cases mode; cases token)
       (auto simp: signup_policy_def create_new_user_def create_user_in_tx_def ensure_user_not_exists_def
          user_get_def validate_and_consume_signup_token_def signup_code_get_def split: if_splits option.splits)
next
  case (Inr quota)
  let ?t = "us_db (ss_service s)"
  from Inr have none: "row_of ue_public_key (ut_rows ?t) pk = None"
    by (auto simp: signup_policy_def row_of_None_iff split: if_splits)
  obtain codes where quota: "(if mode = TokenRequired
      then validate_and_consume_signup_token fj now token pk (ss_codes s) (ss_codes s)
      else Ok (default_user_quota, ss_codes s)) = Ok (quota, codes)"
    and used: "\<forall>c. mode = TokenRequired \<and> token = Some c \<longrightarrow> code_used_by codes c pk"
    using Inr mark_as_used_cases [OF assms(2)]
    by (cases mode; cases token)
       (auto simp: signup_policy_def validate_and_consume_signup_token_def signup_code_get_def
          code_used_by_def row_of_update_where dest: row_of_SomeD split: if_splits option.splits)
  define v where "v = \<lparr>ue_id = ut_seq ?t, ue_public_key = pk, ue_created_at = now, ue_disabled = False,
      ue_used_bytes = 0, ue_quota_columns = NULL_COLUMNS\<rparr>"
  define mid where "mid = \<lparr>ut_rows = ut_rows ?t @ [v], ut_seq = ut_seq ?t + 1\<rparr>"
  have create: "user_create now pk ?t = Ok (v, mid)" using none by (simp add: user_create_def v_def mid_def Let_def)
  note inv = user_invar_create [OF assms(1) create] and get = user_create_get [OF create]
  have tx: "create_user_in_tx tj fj now mode pk token s ?t (ss_codes s) =
      and_then (map_err SignupInternal (user_set_quota tj (ue_id v) quota mid)) (\<lambda>(u, users). Ok (u, users, codes))"
    using none quota create by (simp add: create_user_in_tx_def ensure_user_not_exists_def user_get_def)
  show ?thesis
  proof (cases "user_quota_validate quota")
    case (Inl e)
    then show ?thesis using Inr tx by (simp add: create_new_user_def user_set_quota_def)
  next
    case (Inr x)
    then obtain users where "user_set_quota tj (ue_id v) quota mid =
        Ok (v\<lparr>ue_quota_columns := to_nullable_columns tj quota\<rparr>, users)"
      "\<forall>p. user_get p users = (if p = pk
        then Ok (v\<lparr>ue_quota_columns := to_nullable_columns tj quota\<rparr>) else user_get p mid)"
      using user_set_quota_ok [OF inv, of pk v quota tj] get by auto
    with used show ?thesis
      unfolding \<open>signup_policy fj mode pk token s = Ok quota\<close> sum.case Inr create_new_user_def tx
      by (simp add: get) (simp add: v_def)
  qed
qed

theorem signup_implements_policy_witness:
  "let s = \<lparr>ss_service = \<lparr>us_db = \<lparr>ut_rows = [], ut_seq = 1\<rparr>, us_cache = []\<rparr>, ss_codes = []\<rparr>
   in create_new_user (\<lambda>_. []) (\<lambda>_. None) 1 TokenRequired (PublicKey ''a'') (Some ''JZY0-D6MY-ZFNG'') s s =
        Err InvalidSignupToken \<and>
      (\<exists>u s'. create_new_user (\<lambda>_. []) (\<lambda>_. None) 1 Open (PublicKey ''a'') None s s = Ok (u, s') \<and> ue_public_key u = PublicKey ''a'')"
proof -
  let ?s = "\<lparr>ss_service = \<lparr>us_db = \<lparr>ut_rows = [], ut_seq = 1\<rparr>, us_cache = []\<rparr>, ss_codes = []\<rparr>"
  have inv: "user_invar (us_db (ss_service ?s))" "keyed sc_id (ss_codes ?s)" by (simp_all add: user_invar_def)
  have p: "signup_policy (\<lambda>_. None) TokenRequired (PublicKey ''a'') (Some ''JZY0-D6MY-ZFNG'') ?s = Err InvalidSignupToken"
    "signup_policy (\<lambda>_. None) Open (PublicKey ''a'') None ?s = Ok default_user_quota"
    "user_quota_validate default_user_quota = Ok ()" by code_simp+
  show ?thesis
    using signup_implements_policy [OF inv, where fj = "\<lambda>_. None" and mode = TokenRequired and pk = "PublicKey ''a''" and
        token = "Some ''JZY0-D6MY-ZFNG''" and tj = "\<lambda>_. []" and now = 1]
      signup_implements_policy [OF inv, where fj = "\<lambda>_. None" and mode = Open and pk = "PublicKey ''a''" and
        token = None and tj = "\<lambda>_. []" and now = 1]
    unfolding p sum.case Let_def by blast
qed

text \<open>C31: The quota cache is transparent when no two operations on a user overlap:
  after any run of signups, quota patches, account changes, resolutions and
  clean-ups, resolving a quota returns what the database holds.\<close>

theorem quota_cache_transparent:
  assumes "user_invar db" and "keyed sc_id codes"
  shows "let s = ss_service (account_run tj fj ops \<lparr>ss_service = \<lparr>us_db = db, us_cache = []\<rparr>, ss_codes = codes\<rparr>)
    in fst (resolve_quota fj now pk s) = resolve_query fj pk (us_db s)"
proof -
  let ?s = "\<lparr>ss_service = \<lparr>us_db = db, us_cache = []\<rparr>, ss_codes = codes\<rparr>"
  have "signup_invar fj ?s" using assms by (simp add: signup_invar_def cache_coherent_def)
  then have "signup_invar fj (account_run tj fj ops ?s)" using account_run_ok by blast
  then show ?thesis by (simp add: Let_def signup_invar_def resolve_quota_coherent(1))
qed

theorem quota_cache_transparent_witness:
  "let s = ss_service (account_run (\<lambda>_. []) (\<lambda>_. None)
        [(0, ResolveQuota (PublicKey ''a'')), (5, SignupUser Open (PublicKey ''a'') None
          \<lparr>ss_service = \<lparr>us_db = \<lparr>ut_rows = [], ut_seq = 1\<rparr>, us_cache = []\<rparr>, ss_codes = []\<rparr>)]
        \<lparr>ss_service = \<lparr>us_db = \<lparr>ut_rows = [], ut_seq = 1\<rparr>, us_cache = []\<rparr>, ss_codes = []\<rparr>)
   in fst (resolve_quota (\<lambda>_. None) 6 (PublicKey ''a'') s) = resolve_query (\<lambda>_. None) (PublicKey ''a'') (us_db s)"
  by (rule quota_cache_transparent) (simp_all add: user_invar_def)

end
