(* ===== verification/Cookie_Auth.thy ===== *)
theory Cookie_Auth
  imports Signup
begin

text \<open>
  Cookie authentication: signed auth tokens (\<^verbatim>\<open>pubky-common/src/auth/auth_token.rs\<close>), their
  verification with replay protection (\<^verbatim>\<open>client_server/auth/cookie/verifier.rs\<close>), the
  sessions table (\<^verbatim>\<open>client_server/auth/cookie/persistence.rs\<close>), the service
  (\<^verbatim>\<open>client_server/auth/cookie/service.rs\<close>) and the middleware
  (\<^verbatim>\<open>client_server/auth/cookie/middleware.rs\<close>).  The binary codec of tokens (postcard), the
  signature scheme and the raw bytes of a key are parameters; timestamps are
  microseconds.
\<close>

section \<open>Model: auth tokens\<close>

definition CURRENT_VERSION :: nat where "CURRENT_VERSION = 0"
definition TIMESTAMP_WINDOW :: int where "TIMESTAMP_WINDOW = 180 * 1000000"

record auth_token =
  at_signature :: string
  at_namespace :: string
  at_version :: nat
  at_timestamp :: int
  at_public_key :: public_key
  at_capabilities :: capabilities

datatype auth_error =
    UnknownVersion
  | TooFarInTheFuture
  | Expired
  | InvalidSignature
  | Parsing
  | AlreadyUsed
  | Unreachable

record auth_env =
  env_serialize :: "auth_token \<Rightarrow> string"
  env_deserialize :: "string \<Rightarrow> auth_token option"
  env_verify :: "public_key \<Rightarrow> string \<Rightarrow> string \<Rightarrow> bool"
  env_key_bytes :: "public_key \<Rightarrow> string"

definition signable :: "string \<Rightarrow> string" where
  "signable bytes = drop 65 bytes"

definition PUBKY_AUTH :: string where "PUBKY_AUTH = ''PUBKY:AUTH''"

definition auth_token_sign ::
  "auth_env \<Rightarrow> (string \<Rightarrow> string) \<Rightarrow> int \<Rightarrow> public_key \<Rightarrow> capabilities \<Rightarrow> auth_token" where
  "auth_token_sign env sign_with now pk caps =
     (let token = \<lparr>at_signature = replicate 64 (char_of (0 :: nat)), at_namespace = PUBKY_AUTH, at_version = 0,
            at_timestamp = now, at_public_key = pk, at_capabilities = caps\<rparr>
      in token\<lparr>at_signature := sign_with (drop 65 (env_serialize env token))\<rparr>)"

definition auth_token_verify :: "auth_env \<Rightarrow> int \<Rightarrow> string \<Rightarrow> (auth_error, auth_token) result" where
  "auth_token_verify env now bytes =
     (if length bytes \<le> 74 then Err Parsing
      else if of_char (bytes ! 74) > CURRENT_VERSION then Err UnknownVersion
      else case env_deserialize env bytes of
        None \<Rightarrow> Err Parsing
      | Some token \<Rightarrow>
          if at_version token = 0 then
            (let diff = wrap_i64 (wrap_i64 (at_timestamp token) - wrap_i64 now) in
             if diff > TIMESTAMP_WINDOW then Err TooFarInTheFuture
             else if diff < - TIMESTAMP_WINDOW then Err Expired
             else if \<not> env_verify env (at_public_key token) (signable bytes) (at_signature token)
             then Err InvalidSignature
             else Ok token)
          else Err Unreachable)"

section \<open>Model: the replay guard\<close>

record token_id =
  ti_timestamp :: int
  ti_public_key :: public_key

definition token_key :: "auth_env \<Rightarrow> token_id \<Rightarrow> int \<times> string" where
  "token_key env i = (ti_timestamp i, env_key_bytes env (ti_public_key i))"

text \<open>\<^verbatim>\<open>slice::binary_search\<close> and \<^verbatim>\<open>slice::partition_point\<close>, on sorted slices.\<close>

definition binary_search :: "auth_env \<Rightarrow> token_id \<Rightarrow> token_id list \<Rightarrow> nat + nat" where
  "binary_search env i xs =
     (let index = length (takeWhile (\<lambda>j. token_key env j < token_key env i) xs)
      in if index < length xs \<and> token_key env (xs ! index) = token_key env i then Inr index else Inl index)"

definition partition_point :: "('a \<Rightarrow> bool) \<Rightarrow> 'a list \<Rightarrow> nat" where
  "partition_point P xs = length (takeWhile P xs)"

definition check_and_track ::
  "auth_env \<Rightarrow> token_id \<Rightarrow> token_id list \<Rightarrow> (auth_error, unit) result \<times> token_id list" where
  "check_and_track env i seen =
     (case binary_search env i seen of
        Inr _ \<Rightarrow> (Err AlreadyUsed, seen)
      | Inl index \<Rightarrow> (Ok (), take index seen @ i # drop index seen))"

definition guard_gc :: "int \<Rightarrow> token_id list \<Rightarrow> token_id list" where
  "guard_gc now seen =
     (let cutoff = now - 2 * TIMESTAMP_WINDOW
      in drop (partition_point (\<lambda>i. ti_timestamp i < cutoff) seen) seen)"

definition token_id_of :: "auth_token \<Rightarrow> token_id" where
  "token_id_of t = \<lparr>ti_timestamp = at_timestamp t, ti_public_key = at_public_key t\<rparr>"

text \<open>\<^verbatim>\<open>CookieAuthVerifier::verify\<close> reads the clock twice: \<^verbatim>\<open>now\<close> for the token, and
  \<^verbatim>\<open>gc_now\<close> once it holds the guard.\<close>

definition cookie_verify ::
  "auth_env \<Rightarrow> int \<Rightarrow> int \<Rightarrow> string \<Rightarrow> token_id list \<Rightarrow> (auth_error, auth_token) result \<times> token_id list" where
  "cookie_verify env now gc_now bytes seen =
     (case auth_token_verify env now bytes of
        Inl e \<Rightarrow> (Err e, seen)
      | Inr token \<Rightarrow>
          (case check_and_track env (token_id_of token) (guard_gc gc_now seen) of
             (Inl e, seen') \<Rightarrow> (Err e, seen')
           | (Inr _, seen') \<Rightarrow> (Ok token, seen')))"

section \<open>Model: sessions\<close>

record session_row =
  sr_id :: int
  sr_secret :: string
  sr_user :: int
  sr_capabilities :: string
  sr_created_at :: int

record session_table =
  st_rows :: "session_row list"
  st_seq :: int

datatype auth_revocation = RevokeCookieSession int | RevokeGrant string

definition revocation_matches :: "auth_revocation \<Rightarrow> auth_session \<Rightarrow> bool" where
  "revocation_matches r s =
     (case (r, s) of
        (RevokeCookieSession i, CookieSession c) \<Rightarrow> i = se_id c
      | (RevokeGrant i, GrantAuthSession g) \<Rightarrow> i = gs_grant_id g
      | _ \<Rightarrow> False)"

definition session_secret_new :: "string \<Rightarrow> string option" where
  "session_secret_new secret = (if length secret \<noteq> 26 then None else Some secret)"

definition session_create ::
  "int \<Rightarrow> string \<Rightarrow> int \<Rightarrow> capabilities \<Rightarrow> session_table \<Rightarrow> (sql_error, string \<times> session_table) result" where
  "session_create now random_secret user_id caps t =
     and_then (ensure (row_of sr_secret (st_rows t) random_secret = None) UniqueViolation) (\<lambda>_.
     and_then (ok_or DecodeError (session_secret_new random_secret)) (\<lambda>secret.
       Ok (secret, \<lparr>st_rows = st_rows t @ [\<lparr>sr_id = st_seq t, sr_secret = random_secret, sr_user = user_id,
             sr_capabilities = capabilities_to_string caps, sr_created_at = now\<rparr>],
            st_seq = st_seq t + 1\<rparr>)))"

definition session_from_row :: "session_row \<Rightarrow> user_table \<Rightarrow> (sql_error, session_entity) result" where
  "session_from_row r users =
     and_then (ok_or DecodeError (session_secret_new (sr_secret r))) (\<lambda>secret.
     and_then (ok_or DecodeError (row_of ue_id (ut_rows users) (sr_user r))) (\<lambda>u.
     and_then (map_err (\<lambda>_. DecodeError) (capabilities_from_str (sr_capabilities r))) (\<lambda>caps.
       Ok \<lparr>se_id = sr_id r, se_secret = secret, se_user_id = sr_user r, se_user_pubkey = ue_public_key u,
           se_capabilities = caps, se_created_at = sr_created_at r\<rparr>)))"

definition session_get_by_secret :: "string \<Rightarrow> session_table \<Rightarrow> user_table \<Rightarrow> (sql_error, session_entity) result" where
  "session_get_by_secret secret t users =
     and_then (ok_or RowNotFound (row_of sr_secret (st_rows t) secret)) (\<lambda>r. session_from_row r users)"

definition session_delete :: "string \<Rightarrow> session_table \<Rightarrow> session_table" where
  "session_delete secret t = t\<lparr>st_rows := delete_where (\<lambda>r. sr_secret r = secret) (st_rows t)\<rparr>"

section \<open>Model: the cookie service\<close>

record cookie_state =
  ck_accounts :: signup_state
  ck_sessions :: session_table
  ck_seen :: "token_id list"
  ck_notified :: "auth_revocation list"

abbreviation ck_users :: "cookie_state \<Rightarrow> user_table" where
  "ck_users s \<equiv> us_db (ss_service (ck_accounts s))"

record cookie_session_creation =
  cc_public_key :: public_key
  cc_session_secret :: string
  cc_capabilities :: capabilities

datatype cookie_error =
    CookieAuth auth_error
  | CookieHttp http_error

fun signup_http_error :: "signup_error \<Rightarrow> http_error" where
  "signup_http_error UserAlreadyExists = new_with_message 409 ''User already exists''"
| "signup_http_error SignupTokenRequired = bad_request ''Token required''"
| "signup_http_error InvalidSignupToken = unauthorized_with_message ''Invalid token''"
| "signup_http_error SignupTokenAlreadyUsed = unauthorized_with_message ''Token already used''"
| "signup_http_error (SignupInternal e) = internal_server"

text \<open>The instants of a request: of the token check, of the guard, and of the writes.\<close>

record request_clock =
  rc_now :: int
  rc_gc :: int

definition cookie_create_session ::
  "int \<Rightarrow> string \<Rightarrow> user_entity \<Rightarrow> auth_token \<Rightarrow> cookie_state \<Rightarrow>
   (cookie_error, cookie_session_creation) result \<times> cookie_state" where
  "cookie_create_session now secret user token s =
     (case session_create now secret (ue_id user) (at_capabilities token) (ck_sessions s) of
        Inl _ \<Rightarrow> (Err (CookieHttp internal_server), s)
      | Inr (session_secret, t) \<Rightarrow>
          (Ok \<lparr>cc_public_key = ue_public_key user, cc_session_secret = session_secret,
               cc_capabilities = at_capabilities token\<rparr>, s\<lparr>ck_sessions := t\<rparr>))"

definition cookie_signup ::
  "auth_env \<Rightarrow> (storage_path list \<Rightarrow> string) \<Rightarrow> (string \<Rightarrow> storage_path list option) \<Rightarrow> signup_mode \<Rightarrow> request_clock \<Rightarrow>
   string \<Rightarrow> string \<Rightarrow> string option \<Rightarrow> cookie_state \<Rightarrow>
   (cookie_error, cookie_session_creation) result \<times> cookie_state" where
  "cookie_signup env tj fj mode clock secret body signup_token s =
     (case cookie_verify env (rc_now clock) (rc_gc clock) body (ck_seen s) of
        (Inl e, seen) \<Rightarrow> (Err (CookieAuth e), s\<lparr>ck_seen := seen\<rparr>)
      | (Inr token, seen) \<Rightarrow>
          (case create_new_user tj fj (rc_gc clock) mode (at_public_key token) signup_token
              (ck_accounts s) (ck_accounts s) of
             Inl e \<Rightarrow> (Err (CookieHttp (signup_http_error e)), s\<lparr>ck_seen := seen\<rparr>)
           | Inr (user, accounts) \<Rightarrow>
               cookie_create_session (rc_gc clock) secret user token
                 (s\<lparr>ck_seen := seen, ck_accounts := accounts\<rparr>)))"

definition cookie_signin ::
  "auth_env \<Rightarrow> request_clock \<Rightarrow> string \<Rightarrow> string \<Rightarrow> cookie_state \<Rightarrow>
   (cookie_error, cookie_session_creation) result \<times> cookie_state" where
  "cookie_signin env clock secret body s =
     (case cookie_verify env (rc_now clock) (rc_gc clock) body (ck_seen s) of
        (Inl e, seen) \<Rightarrow> (Err (CookieAuth e), s\<lparr>ck_seen := seen\<rparr>)
      | (Inr token, seen) \<Rightarrow>
          (case user_get (at_public_key token) (ck_users s) of
             Inl RowNotFound \<Rightarrow> (Err (CookieHttp not_found), s\<lparr>ck_seen := seen\<rparr>)
           | Inl _ \<Rightarrow> (Err (CookieHttp internal_server), s\<lparr>ck_seen := seen\<rparr>)
           | Inr user \<Rightarrow> cookie_create_session (rc_gc clock) secret user token (s\<lparr>ck_seen := seen\<rparr>)))"

definition resolve_active_session_for_user ::
  "string \<Rightarrow> public_key \<Rightarrow> cookie_state \<Rightarrow> (sql_error, session_entity option) result" where
  "resolve_active_session_for_user secret pk s =
     map_ok (\<lambda>session. if se_user_pubkey session = pk then Some session else None)
       (session_get_by_secret secret (ck_sessions s) (ck_users s))"

definition resolve_session_from_cookie ::
  "string option \<Rightarrow> public_key \<Rightarrow> cookie_state \<Rightarrow> auth_session option" where
  "resolve_session_from_cookie cookie_value pk s =
     Option.bind cookie_value (\<lambda>v. Option.bind (session_secret_new v) (\<lambda>secret.
       case resolve_active_session_for_user secret pk s of
         Inr (Some session) \<Rightarrow> Some (CookieSession session)
       | _ \<Rightarrow> None))"

definition cookie_signout :: "auth_session option \<Rightarrow> cookie_state \<Rightarrow> cookie_state" where
  "cookie_signout auth s =
     (case auth of
        Some (CookieSession c) \<Rightarrow>
          s\<lparr>ck_sessions := session_delete (se_secret c) (ck_sessions s),
            ck_notified := ck_notified s @ [RevokeCookieSession (se_id c)]\<rparr>
      | _ \<Rightarrow> s)"

definition validate_active_session :: "session_entity \<Rightarrow> cookie_state \<Rightarrow> (http_error, unit) result" where
  "validate_active_session session s =
     (case resolve_active_session_for_user (se_secret session) (se_user_pubkey session) s of
        Inr (Some _) \<Rightarrow> Ok ()
      | Inr None \<Rightarrow> Err unauthorized
      | Inl RowNotFound \<Rightarrow> Err unauthorized
      | Inl _ \<Rightarrow> Err internal_server)"

text \<open>The middleware: the cookie named by the tenant's key is looked up unless a
  session is already attached.  A cookie jar is the list of its name and value
  pairs.\<close>

definition extract_session_from_cookie ::
  "(string \<times> string) list \<Rightarrow> public_key \<Rightarrow> cookie_state \<Rightarrow> auth_session option" where
  "extract_session_from_cookie cookies pk s = resolve_session_from_cookie (map_of cookies (z32 pk)) pk s"

definition cookie_middleware ::
  "auth_session option \<Rightarrow> (string \<times> string) list option \<Rightarrow> request_tenant option \<Rightarrow> cookie_state \<Rightarrow> auth_session option" where
  "cookie_middleware present cookies tenant s =
     (case present of
        Some session \<Rightarrow> Some session
      | None \<Rightarrow>
          (case (cookies, tenant) of
             (Some jar, Some t) \<Rightarrow> extract_session_from_cookie jar (rt_public_key t) s
           | _ \<Rightarrow> None))"

section \<open>The timestamp window\<close>

lemma wrap_i64_diff: "wrap_i64 (wrap_i64 a - wrap_i64 b) = wrap_i64 (a - b)"
  unfolding wrap_i64_def by (simp add: mod_simps algebra_simps)

lemma in_window:
  assumes "0 \<le> ts" "ts < 2 ^ 64" "TIMESTAMP_WINDOW \<le> now" "now < 2 ^ 63"
  shows "- TIMESTAMP_WINDOW \<le> wrap_i64 (wrap_i64 ts - wrap_i64 now) \<and>
      wrap_i64 (wrap_i64 ts - wrap_i64 now) \<le> TIMESTAMP_WINDOW \<longleftrightarrow> \<bar>ts - now\<bar> \<le> TIMESTAMP_WINDOW"
proof (cases "ts - now < 2 ^ 63")
  case True
  then have "(ts - now + 2 ^ 63) mod 2 ^ 64 = ts - now + 2 ^ 63"
    using assms by (intro mod_pos_pos_trivial) simp_all
  then show ?thesis unfolding wrap_i64_diff by (auto simp: wrap_i64_def)
next
  case False
  have "(ts - now + 2 ^ 63) mod 2 ^ 64 = ts - now + 2 ^ 63 - 2 ^ 64"
    using False assms by (subst mod_pos_geq) (simp_all add: TIMESTAMP_WINDOW_def)
  then show ?thesis unfolding wrap_i64_diff
    using False assms by (auto simp: wrap_i64_def TIMESTAMP_WINDOW_def)
qed

text \<open>What the codec of tokens (postcard) promises: the fields are laid out in order,
  so the version is byte 74, the timestamp is a \<^verbatim>\<open>u64\<close>, and the capabilities are
  parsed from their text.\<close>

definition postcard_layout :: "auth_env \<Rightarrow> bool" where
  "postcard_layout env \<longleftrightarrow> (\<forall>b t. env_deserialize env b = Some t \<longrightarrow>
     74 < length b \<and> at_version t = of_char (b ! 74) \<and> 0 \<le> at_timestamp t \<and> at_timestamp t < 2 ^ 64 \<and>
     list_all wf_capability (at_capabilities t))"

lemma auth_token_verify_ok_iff:
  assumes "postcard_layout env" and "TIMESTAMP_WINDOW \<le> now" and "now < 2 ^ 63"
  shows "auth_token_verify env now bytes = Ok token \<longleftrightarrow>
    env_deserialize env bytes = Some token \<and> at_version token = 0 \<and>
    \<bar>at_timestamp token - now\<bar> \<le> TIMESTAMP_WINDOW \<and>
    env_verify env (at_public_key token) (drop 65 bytes) (at_signature token)"
proof (cases "env_deserialize env bytes")
  case None
  then show ?thesis by (simp add: auth_token_verify_def)
next
  case (Some t)
  then have l: "74 < length bytes" "at_version t = of_char (bytes ! 74)" "0 \<le> at_timestamp t" "at_timestamp t < 2 ^ 64"
    using assms(1) by (simp_all add: postcard_layout_def)
  note w = in_window [OF l(3,4) assms(2,3)]
  show ?thesis
    using l(1,2) Some w unfolding auth_token_verify_def
    by (auto simp: CURRENT_VERSION_def signable_def Let_def not_less)
qed

lemma auth_token_verify_reachable:
  "postcard_layout env \<Longrightarrow> auth_token_verify env now bytes \<noteq> Err Unreachable"
  by (auto simp: auth_token_verify_def postcard_layout_def CURRENT_VERSION_def Let_def split: option.splits)

section \<open>The replay guard\<close>

definition guard_invar :: "auth_env \<Rightarrow> token_id list \<Rightarrow> bool" where
  "guard_invar env seen \<longleftrightarrow> sorted_wrt (\<lambda>i j. token_key env i < token_key env j) seen"

lemma takeWhile_sorted:
  assumes "sorted_wrt (\<lambda>x y. k x < k y) xs"
  shows "takeWhile (\<lambda>j. k j < (c :: 'b :: linorder)) xs = filter (\<lambda>j. k j < c) xs"
    and "dropWhile (\<lambda>j. k j < c) xs = filter (\<lambda>j. \<not> k j < c) xs"
proof -
  have "takeWhile (\<lambda>j. k j < c) xs = filter (\<lambda>j. k j < c) xs \<and> dropWhile (\<lambda>j. k j < c) xs = filter (\<lambda>j. \<not> k j < c) xs"
    using assms
  proof (induction xs)
    case (Cons x xs)
    show ?case
    proof (cases "k x < c")
      case False
      then have "\<not> k y < c" if "y \<in> set xs" for y using that Cons.prems by fastforce
      then have "filter (\<lambda>j. k j < c) xs = []" "filter (\<lambda>j. \<not> k j < c) xs = xs"
        by (simp_all add: filter_empty_conv filter_id_conv)
      with False show ?thesis by simp
    qed (use Cons in simp)
  qed simp
  then show "takeWhile (\<lambda>j. k j < c) xs = filter (\<lambda>j. k j < c) xs"
    and "dropWhile (\<lambda>j. k j < c) xs = filter (\<lambda>j. \<not> k j < c) xs" by simp_all
qed

lemma sorted_wrt_ge_Cons:
  "sorted_wrt (\<lambda>x y. k x < k y) xs \<Longrightarrow> x \<in> set xs \<Longrightarrow> \<forall>y \<in> set xs. (c :: 'b :: linorder) \<le> k y \<Longrightarrow> k x = c \<Longrightarrow> k (hd xs) = c"
  by (cases xs) force+

lemma binary_search_spec:
  assumes "guard_invar env xs"
  shows "(\<exists>j \<in> set xs. token_key env j = token_key env i) \<Longrightarrow> \<exists>n. binary_search env i xs = Inr n"
    and "\<not> (\<exists>j \<in> set xs. token_key env j = token_key env i) \<Longrightarrow>
      binary_search env i xs = Inl (length (filter (\<lambda>j. token_key env j < token_key env i) xs))"
proof -
  let ?k = "token_key env" and ?c = "token_key env i"
  let ?lo = "filter (\<lambda>j. ?k j < ?c) xs" and ?hi = "filter (\<lambda>j. \<not> ?k j < ?c) xs"
  have s: "sorted_wrt (\<lambda>x y. ?k x < ?k y) xs" using assms by (simp add: guard_invar_def)
  have tw: "takeWhile (\<lambda>j. ?k j < ?c) xs = ?lo" "dropWhile (\<lambda>j. ?k j < ?c) xs = ?hi"
    using takeWhile_sorted [OF s] by simp_all
  have split: "xs = ?lo @ ?hi" using takeWhile_dropWhile_id [of "\<lambda>j. ?k j < ?c" xs] tw by simp
  have nth: "xs ! length ?lo = hd ?hi" if "?hi \<noteq> []"
    using that split by (metis hd_conv_nth nth_append_length_plus add.right_neutral)
  have len: "length ?lo < length xs \<longleftrightarrow> ?hi \<noteq> []" using split by (metis length_append length_greater_0_conv less_add_same_cancel1)
  show "\<exists>n. binary_search env i xs = Inr n" if "\<exists>j \<in> set xs. ?k j = ?c"
  proof -
    from that obtain j where j: "j \<in> set ?hi" "?k j = ?c" by auto
    then have "?k (hd ?hi) = ?c"
      using s by (intro sorted_wrt_ge_Cons [of ?k ?hi j]) (auto simp: sorted_wrt_filter not_less)
    moreover have "?hi \<noteq> []" using j(1) by (cases ?hi) auto
    ultimately show ?thesis using nth len by (simp add: binary_search_def tw Let_def)
  qed
  show "binary_search env i xs = Inl (length ?lo)" if "\<not> (\<exists>j \<in> set xs. ?k j = ?c)"
  proof -
    have "?k (xs ! length ?lo) \<noteq> ?c" if "length ?lo < length xs"
      using that \<open>\<not> (\<exists>j \<in> set xs. ?k j = ?c)\<close> by (meson nth_mem)
    then show ?thesis by (auto simp: binary_search_def tw Let_def)
  qed
qed

lemma check_and_track_seen:
  "guard_invar env xs \<Longrightarrow> j \<in> set xs \<Longrightarrow> token_key env j = token_key env i \<Longrightarrow>
   check_and_track env i xs = (Err AlreadyUsed, xs)"
  using binary_search_spec(1) [of env xs i] by (fastforce simp: check_and_track_def)

lemma check_and_track_new:
  assumes "guard_invar env xs" and "\<not> (\<exists>j \<in> set xs. token_key env j = token_key env i)"
  shows "\<exists>ys. check_and_track env i xs = (Ok (), ys) \<and> guard_invar env ys \<and> set ys = insert i (set xs)"
proof -
  let ?k = "token_key env" and ?c = "token_key env i"
  let ?lo = "filter (\<lambda>j. ?k j < ?c) xs" and ?hi = "filter (\<lambda>j. \<not> ?k j < ?c) xs"
  have s: "sorted_wrt (\<lambda>x y. ?k x < ?k y) xs" using assms by (simp add: guard_invar_def)
  have "xs = ?lo @ ?hi"
    using takeWhile_dropWhile_id [of "\<lambda>j. ?k j < ?c" xs] takeWhile_sorted [OF s, of ?c] by simp
  then have "take (length ?lo) xs = ?lo" "drop (length ?lo) xs = ?hi"
    by (metis append_eq_conv_conj)+
  then have "check_and_track env i xs = (Ok (), ?lo @ i # ?hi)"
    using binary_search_spec(2) [OF assms] by (simp add: check_and_track_def)
  moreover have "?c < ?k x" if "x \<in> set ?hi" for x
    using that assms(2) by (auto simp: not_less order.order_iff_strict)
  then have "guard_invar env (?lo @ i # ?hi)"
    using s by (auto simp: guard_invar_def sorted_wrt_append sorted_wrt_filter)
  moreover have "set (?lo @ i # ?hi) = insert i (set xs)" by auto
  ultimately show ?thesis by blast
qed

lemma guard_gc_alt: "guard_gc now seen = dropWhile (\<lambda>i. ti_timestamp i < now - 2 * TIMESTAMP_WINDOW) seen"
  by (simp add: guard_gc_def partition_point_def Let_def dropWhile_eq_drop)

lemma guard_invar_gc: "guard_invar env seen \<Longrightarrow> guard_invar env (guard_gc now seen)"
  by (simp add: guard_invar_def guard_gc_def Let_def sorted_wrt_drop)

lemma guard_gc_keeps:
  "i \<in> set seen \<Longrightarrow> now \<le> ti_timestamp i + 2 * TIMESTAMP_WINDOW \<Longrightarrow> i \<in> set (guard_gc now seen)"
  unfolding guard_gc_alt by (induction seen) auto

text \<open>The guard as a replay store: a request that fails before it reaches the guard
  leaves it alone.\<close>

definition guard_step :: "auth_env \<Rightarrow> token_id list \<Rightarrow> int \<Rightarrow> token_id option \<Rightarrow> token_id list" where
  "guard_step env seen gc_now op =
     (case op of None \<Rightarrow> seen | Some i \<Rightarrow> snd (check_and_track env i (guard_gc gc_now seen)))"

definition guard_accepts :: "auth_env \<Rightarrow> token_id list \<Rightarrow> int \<Rightarrow> token_id option \<Rightarrow> token_id \<Rightarrow> bool" where
  "guard_accepts env seen gc_now op i \<longleftrightarrow>
     op = Some i \<and> fst (check_and_track env i (guard_gc gc_now seen)) = Ok ()"

lemma check_and_track_cases:
  assumes "guard_invar env xs"
  shows "guard_invar env (snd (check_and_track env i xs)) \<and> set xs \<subseteq> set (snd (check_and_track env i xs)) \<and>
    (fst (check_and_track env i xs) = Ok () \<longrightarrow> i \<in> set (snd (check_and_track env i xs)))"
proof (cases "\<exists>j \<in> set xs. token_key env j = token_key env i")
  case True
  then show ?thesis using check_and_track_seen [OF assms] assms by auto
next
  case False
  from check_and_track_new [OF assms this] show ?thesis by auto
qed

interpretation guard_store: replay_store
  "\<lambda>seen i. i \<in> set seen" "\<lambda>_ i. ti_timestamp i + 2 * TIMESTAMP_WINDOW + 1" "guard_step env"
  "\<lambda>_ _. False" "guard_invar env" "guard_accepts env" for env
proof (unfold_locales, goal_cases)
  case (1 t n op)
  then show ?case
    using check_and_track_cases guard_invar_gc by (auto simp: guard_step_def split: option.splits)
next
  case (2 t k n op)
  then show ?case
    using check_and_track_cases [OF guard_invar_gc [OF 2(1)]] guard_gc_keeps [of k t n]
    by (auto simp: guard_step_def split: option.splits)
next
  case (4 t n op k)
  then show ?case
    using check_and_track_cases [OF guard_invar_gc [OF 4(1)]] by (auto simp: guard_step_def guard_accepts_def)
next
  case (5 t k n op)
  then have "k \<in> set (guard_gc n t)" by (intro guard_gc_keeps) simp_all
  from check_and_track_seen [OF guard_invar_gc [OF 5(1)] this refl] show ?case
    by (simp add: guard_accepts_def)
qed simp

definition guard_op :: "auth_env \<Rightarrow> int \<Rightarrow> string \<Rightarrow> token_id option" where
  "guard_op env now bytes =
     (case auth_token_verify env now bytes of Inl _ \<Rightarrow> None | Inr token \<Rightarrow> Some (token_id_of token))"

lemma cookie_verify_step: "snd (cookie_verify env now gc_now bytes seen) = guard_step env seen gc_now (guard_op env now bytes)"
  by (auto simp: cookie_verify_def guard_step_def guard_op_def split: sum.splits prod.splits)

lemma cookie_verify_accepts:
  "fst (cookie_verify env now gc_now bytes seen) = Ok token \<longleftrightarrow>
   auth_token_verify env now bytes = Ok token \<and>
   guard_accepts env seen gc_now (guard_op env now bytes) (token_id_of token)"
  by (auto simp: cookie_verify_def guard_accepts_def guard_op_def split: sum.splits prod.splits)

text \<open>A run of verifications: the instant of the token check, the instant the guard
  is reached, and the bytes of each request, in the order they reach the guard.\<close>

definition verify_run :: "auth_env \<Rightarrow> (int \<times> int \<times> string) list \<Rightarrow> token_id list \<Rightarrow> token_id list" where
  "verify_run env reqs seen =
     fold (\<lambda>(now, gc_now, bytes) seen. snd (cookie_verify env now gc_now bytes seen)) reqs seen"

lemma verify_run_steps:
  "verify_run env reqs seen =
   foldl (\<lambda>t (n, op). guard_step env t n op) seen (map (\<lambda>(now, gc_now, bytes). (gc_now, guard_op env now bytes)) reqs)"
  unfolding verify_run_def
  by (induction reqs arbitrary: seen) (auto simp: cookie_verify_step)

section \<open>Sessions\<close>

lemma session_create_resolve:
  assumes "session_create now secret (ue_id user) caps t = Ok (sec, t')"
    and "user_invar users" and "user_get pk users = Ok user" and "list_all wf_capability caps"
  shows "sec = secret \<and> length secret = 26 \<and>
    session_get_by_secret secret t' users = Ok \<lparr>se_id = st_seq t, se_secret = secret, se_user_id = ue_id user,
      se_user_pubkey = pk, se_capabilities = caps, se_created_at = now\<rparr>"
proof -
  have none: "row_of sr_secret (st_rows t) secret = None" and len: "length secret = 26" "sec = secret"
    and t': "t' = \<lparr>st_rows = st_rows t @ [\<lparr>sr_id = st_seq t, sr_secret = secret, sr_user = ue_id user,
             sr_capabilities = capabilities_to_string caps, sr_created_at = now\<rparr>], st_seq = st_seq t + 1\<rparr>"
    using assms(1) by (auto simp: session_create_def and_then_ok_iff session_secret_new_def split: if_splits)
  have "ue_public_key user = pk" using user_getD [OF assms(3)] by simp
  then show ?thesis
    using none len user_row_by_id [OF assms(2,3)] assms(4)
    by (simp add: t' session_get_by_secret_def session_from_row_def row_of_append row_of_Cons
        session_secret_new_def capabilities_round_trip)
qed

lemma session_deleted: "session_get_by_secret secret (session_delete secret t) users = Err RowNotFound"
proof -
  have "row_of sr_secret (delete_where (\<lambda>r. sr_secret r = secret) (st_rows t)) secret = None"
    by (simp add: row_of_None_iff)
  then show ?thesis by (simp add: session_get_by_secret_def session_delete_def)
qed

section \<open>Properties\<close>

text \<open>C32: What an accepted auth token proves: verification succeeds exactly when the
  bytes decode to a version 0 token whose timestamp is within three minutes of
  the clock, wrap-around of the 64 bit difference included, and whose signature by
  the key in the token verifies over the bytes from the 65th on; the match on the
  version is exhaustive.  The namespace of the token is not part of the check.\<close>

theorem auth_token_verify_exact:
  assumes "postcard_layout env" and "TIMESTAMP_WINDOW \<le> now" and "now < 2 ^ 63"
  shows "(auth_token_verify env now bytes = Ok token \<longleftrightarrow>
      env_deserialize env bytes = Some token \<and> at_version token = 0 \<and>
      \<bar>at_timestamp token - now\<bar> \<le> TIMESTAMP_WINDOW \<and>
      env_verify env (at_public_key token) (drop 65 bytes) (at_signature token)) \<and>
    auth_token_verify env now bytes \<noteq> Err Unreachable"
  using auth_token_verify_ok_iff [OF assms] auth_token_verify_reachable [OF assms(1)] by blast

theorem auth_token_verify_exact_witness:
  "let token = \<lparr>at_signature = ''s'', at_namespace = ''OTHER:NAME'', at_version = 0, at_timestamp = 1000000000,
         at_public_key = PublicKey ''a'', at_capabilities = []\<rparr>;
       bytes = replicate 80 (char_of (0 :: nat));
       env = \<lparr>env_serialize = (\<lambda>_. bytes), env_deserialize = (\<lambda>b. if b = bytes then Some token else None),
         env_verify = (\<lambda>_ _ s. s = ''s''), env_key_bytes = z32\<rparr>
   in auth_token_verify env 1100000000 bytes = Ok token \<and> at_namespace token \<noteq> PUBKY_AUTH"
proof -
  let ?token = "\<lparr>at_signature = ''s'', at_namespace = ''OTHER:NAME'', at_version = 0, at_timestamp = 1000000000,
         at_public_key = PublicKey ''a'', at_capabilities = []\<rparr>"
  let ?bytes = "replicate 80 (char_of (0 :: nat))"
  let ?env = "\<lparr>env_serialize = (\<lambda>_. ?bytes), env_deserialize = (\<lambda>b. if b = ?bytes then Some ?token else None),
         env_verify = (\<lambda>_ _ s. s = ''s''), env_key_bytes = z32\<rparr>"
  have "postcard_layout ?env" by (simp add: postcard_layout_def)
  from auth_token_verify_exact [OF this, of 1100000000 ?bytes ?token] show ?thesis
    by (simp add: TIMESTAMP_WINDOW_def PUBKY_AUTH_def)
qed

text \<open>C14: An auth token opens one session at most: once the verifier has accepted a
  token, it accepts no token with the same timestamp and key again, in any
  continuation, whatever other tokens arrive and whenever the guard is cleaned,
  as long as the clock does not run backwards and a verification reaches the guard
  within the timestamp window.\<close>

theorem auth_token_single_use:
  assumes "postcard_layout env" and "guard_invar env seen"
    and "fst (cookie_verify env n1 g1 b1 seen) = Ok token"
    and "\<forall>(n, g, b) \<in> set reqs. g \<le> g2"
    and "TIMESTAMP_WINDOW \<le> n2" and "n2 < 2 ^ 63" and "g2 \<le> n2 + TIMESTAMP_WINDOW"
    and "fst (cookie_verify env n2 g2 b2
      (verify_run env reqs (snd (cookie_verify env n1 g1 b1 seen)))) = Ok token'"
  shows "at_timestamp token' \<noteq> at_timestamp token \<or> at_public_key token' \<noteq> at_public_key token"
proof (rule ccontr)
  assume "\<not> ?thesis"
  then have same: "token_id_of token' = token_id_of token" by (simp add: token_id_of_def)
  let ?i = "token_id_of token" and ?ops = "map (\<lambda>(now, gc_now, bytes). (gc_now, guard_op env now bytes)) reqs"
  have acc: "guard_accepts env seen g1 (guard_op env n1 b1) ?i"
    using assms(3) by (simp add: cookie_verify_accepts)
  have acc': "auth_token_verify env n2 b2 = Ok token'"
    "guard_accepts env (verify_run env reqs (snd (cookie_verify env n1 g1 b1 seen))) g2 (guard_op env n2 b2) ?i"
    using assms(8) same by (simp_all add: cookie_verify_accepts)
  have "\<bar>at_timestamp token' - n2\<bar> \<le> TIMESTAMP_WINDOW"
    using acc'(1) auth_token_verify_ok_iff [OF assms(1,5,6)] by blast
  then have "g2 < ti_timestamp ?i + 2 * TIMESTAMP_WINDOW + 1"
    using assms(7) same by (simp add: token_id_of_def)
  moreover from this have "\<forall>(m, op) \<in> set ?ops. m < ti_timestamp ?i + 2 * TIMESTAMP_WINDOW + 1 \<and> \<not> False"
    using assms(4) by fastforce
  ultimately show False
    using guard_store.accepted_once [OF assms(2) acc, of ?ops g2 "guard_op env n2 b2"] acc'(2)
    by (simp add: verify_run_steps cookie_verify_step)
qed

theorem auth_token_single_use_witness:
  "let token = (\<lambda>t. \<lparr>at_signature = ''s'', at_namespace = PUBKY_AUTH, at_version = 0, at_timestamp = t,
         at_public_key = PublicKey ''a'', at_capabilities = []\<rparr>);
       bytes = (\<lambda>n. replicate n (char_of (0 :: nat)));
       env = \<lparr>env_serialize = (\<lambda>_. bytes 80), env_deserialize = (\<lambda>b. if b = bytes 80 then Some (token 1000000000)
            else if b = bytes 81 then Some (token 1000000001) else None),
         env_verify = (\<lambda>_ _ s. s = ''s''), env_key_bytes = z32\<rparr>;
       seen = snd (cookie_verify env 1000000000 1000000001 (bytes 80) [])
   in fst (cookie_verify env 1000000000 1000000001 (bytes 80) []) = Ok (token 1000000000) \<and>
      fst (cookie_verify env 1180000001 1180000002 (bytes 81)
        (verify_run env [(1100000000, 1100000001, bytes 80)] seen)) = Ok (token 1000000001) \<and>
      at_timestamp (token 1000000001) \<noteq> at_timestamp (token 1000000000)"
proof -
  let ?token = "\<lambda>t. \<lparr>at_signature = ''s'', at_namespace = PUBKY_AUTH, at_version = 0, at_timestamp = t,
         at_public_key = PublicKey ''a'', at_capabilities = []\<rparr>"
  let ?bytes = "\<lambda>n. replicate n (char_of (0 :: nat))"
  let ?env = "\<lparr>env_serialize = (\<lambda>_. ?bytes 80), env_deserialize = (\<lambda>b. if b = ?bytes 80 then Some (?token 1000000000)
            else if b = ?bytes 81 then Some (?token 1000000001) else None),
         env_verify = (\<lambda>_ _ s. s = ''s''), env_key_bytes = z32\<rparr>"
  have layout: "postcard_layout ?env" by (simp add: postcard_layout_def)
  have inv: "guard_invar ?env []" by (simp add: guard_invar_def)
  have a: "fst (cookie_verify ?env 1000000000 1000000001 (?bytes 80) []) = Ok (?token 1000000000)" by code_simp
  have b: "fst (cookie_verify ?env 1180000001 1180000002 (?bytes 81)
        (verify_run ?env [(1100000000, 1100000001, ?bytes 80)]
          (snd (cookie_verify ?env 1000000000 1000000001 (?bytes 80) [])))) = Ok (?token 1000000001)" by code_simp
  have "at_timestamp (?token 1000000001) \<noteq> at_timestamp (?token 1000000000) \<or>
      at_public_key (?token 1000000001) \<noteq> at_public_key (?token 1000000000)"
    by (rule auth_token_single_use [OF layout inv a _ _ _ _ b]) (simp_all add: TIMESTAMP_WINDOW_def)
  then have "at_timestamp (?token 1000000001) \<noteq> at_timestamp (?token 1000000000)"
    by simp
  with a b show ?thesis unfolding Let_def by (intro conjI)
qed

text \<open>C33: The life of a cookie session: the secret of a sign-in resolves to a session
  of the signed-in user with exactly the capabilities of the token, for no other
  user, and after the sign-out of that session it resolves for nobody.\<close>

theorem cookie_session_lifecycle:
  assumes "postcard_layout env" and "user_invar (ck_users s)"
    and "cookie_signin env clock secret body s = (Ok c, s')"
  shows "\<exists>token session. auth_token_verify env (rc_now clock) body = Ok token \<and>
    cc_public_key c = at_public_key token \<and>
    session_user_key (CookieSession session) = at_public_key token \<and>
    session_capabilities (CookieSession session) = at_capabilities token \<and>
    (\<forall>pk. resolve_session_from_cookie (Some (cc_session_secret c)) pk s' =
       (if pk = at_public_key token then Some (CookieSession session) else None)) \<and>
    (\<forall>pk. resolve_session_from_cookie (Some (cc_session_secret c)) pk
       (cookie_signout (Some (CookieSession session)) s') = None)"
proof -
  obtain token where tok: "fst (cookie_verify env (rc_now clock) (rc_gc clock) body (ck_seen s)) = Ok token"
    using assms(3) by (auto simp: cookie_signin_def split: prod.splits sum.splits)
  then have v: "auth_token_verify env (rc_now clock) body = Ok token" by (simp add: cookie_verify_accepts)
  then have wf: "list_all wf_capability (at_capabilities token)"
    using assms(1) by (auto simp: auth_token_verify_def postcard_layout_def Let_def split: if_splits option.splits)
  obtain seen user where user: "user_get (at_public_key token) (ck_users s) = Ok user"
    and create: "cookie_create_session (rc_gc clock) secret user token (s\<lparr>ck_seen := seen\<rparr>) = (Ok c, s')"
    using assms(3) tok by (auto simp: cookie_signin_def split: prod.splits sum.splits sql_error.splits)
  then obtain sec t where t: "session_create (rc_gc clock) secret (ue_id user) (at_capabilities token) (ck_sessions s) = Ok (sec, t)"
    and c: "c = \<lparr>cc_public_key = ue_public_key user, cc_session_secret = sec, cc_capabilities = at_capabilities token\<rparr>"
    and s': "s' = s\<lparr>ck_seen := seen, ck_sessions := t\<rparr>"
    by (auto simp: cookie_create_session_def split: sum.splits)
  let ?e = "\<lparr>se_id = st_seq (ck_sessions s), se_secret = secret, se_user_id = ue_id user,
      se_user_pubkey = at_public_key token, se_capabilities = at_capabilities token, se_created_at = rc_gc clock\<rparr>"
  have get: "sec = secret" "length secret = 26" "session_get_by_secret secret t (ck_users s) = Ok ?e"
    using session_create_resolve [OF t assms(2) user wf] by simp_all
  have "ue_public_key user = at_public_key token" using user_getD [OF user] by simp
  with v get session_deleted [of secret t "ck_users s"] show ?thesis
    by (intro exI [of _ token] exI [of _ ?e])
       (simp add: c s' resolve_session_from_cookie_def resolve_active_session_for_user_def session_secret_new_def
          cookie_signout_def)
qed

theorem cookie_session_lifecycle_witness:
  "let token = \<lparr>at_signature = ''s'', at_namespace = PUBKY_AUTH, at_version = 0, at_timestamp = 1000000000,
         at_public_key = PublicKey ''a'', at_capabilities = []\<rparr>;
       bytes = replicate 80 (char_of (0 :: nat));
       env = \<lparr>env_serialize = (\<lambda>_. bytes), env_deserialize = (\<lambda>b. if b = bytes then Some token else None),
         env_verify = (\<lambda>_ _ s. s = ''s''), env_key_bytes = z32\<rparr>;
       user = \<lparr>ue_id = 1, ue_public_key = PublicKey ''a'', ue_created_at = 0, ue_disabled = False,
         ue_used_bytes = 0, ue_quota_columns = NULL_COLUMNS\<rparr>;
       s = \<lparr>ck_accounts = \<lparr>ss_service = \<lparr>us_db = \<lparr>ut_rows = [user], ut_seq = 2\<rparr>, us_cache = []\<rparr>, ss_codes = []\<rparr>,
         ck_sessions = \<lparr>st_rows = [], st_seq = 1\<rparr>, ck_seen = [], ck_notified = []\<rparr>
   in case cookie_signin env \<lparr>rc_now = 1000000000, rc_gc = 1000000001\<rparr> (replicate 26 CHR ''x'') bytes s of
        (Inl _, _) \<Rightarrow> False
      | (Inr c, s') \<Rightarrow> resolve_session_from_cookie (Some (cc_session_secret c)) (PublicKey ''b'') s' = None"
proof -
  let ?token = "\<lparr>at_signature = ''s'', at_namespace = PUBKY_AUTH, at_version = 0, at_timestamp = 1000000000,
         at_public_key = PublicKey ''a'', at_capabilities = []\<rparr>"
  let ?bytes = "replicate 80 (char_of (0 :: nat))"
  let ?env = "\<lparr>env_serialize = (\<lambda>_. ?bytes), env_deserialize = (\<lambda>b. if b = ?bytes then Some ?token else None),
         env_verify = (\<lambda>_ _ s. s = ''s''), env_key_bytes = z32\<rparr>"
  let ?user = "\<lparr>ue_id = 1, ue_public_key = PublicKey ''a'', ue_created_at = 0, ue_disabled = False,
         ue_used_bytes = 0, ue_quota_columns = NULL_COLUMNS\<rparr>"
  let ?s = "\<lparr>ck_accounts = \<lparr>ss_service = \<lparr>us_db = \<lparr>ut_rows = [?user], ut_seq = 2\<rparr>, us_cache = []\<rparr>, ss_codes = []\<rparr>,
         ck_sessions = \<lparr>st_rows = [], st_seq = 1\<rparr>, ck_seen = [], ck_notified = []\<rparr>"
  let ?clock = "\<lparr>rc_now = 1000000000, rc_gc = 1000000001\<rparr>"
  let ?r = "cookie_signin ?env ?clock (replicate 26 CHR ''x'') ?bytes ?s"
  have layout: "postcard_layout ?env" by (simp add: postcard_layout_def)
  have inv: "user_invar (ck_users ?s)" by (simp add: user_invar_def keyed_def)
  have "(case fst ?r of Inl _ \<Rightarrow> False | Inr _ \<Rightarrow> True)" by code_simp
  then obtain c s' where r: "?r = (Ok c, s')" by (cases ?r) (auto split: sum.splits)
  have v: "auth_token_verify ?env (rc_now ?clock) ?bytes = Ok t \<Longrightarrow> t = ?token" for t
    using auth_token_verify_ok_iff [OF layout, of "rc_now ?clock" ?bytes t] by (simp add: TIMESTAMP_WINDOW_def)
  from cookie_session_lifecycle [OF layout inv r] v
  have "resolve_session_from_cookie (Some (cc_session_secret c)) (PublicKey ''b'') s' = None" by fastforce
  then show ?thesis unfolding Let_def r by simp
qed

end
