(* ===== verification/Grant_Auth.thy ===== *)
theory Grant_Auth
  imports Cookie_Auth
begin

text \<open>
  Grant authentication: JWS identifiers and claims (\<^verbatim>\<open>pubky-common/src/auth/jws.rs\<close>,
  \<^verbatim>\<open>grant.rs\<close>, \<^verbatim>\<open>pop.rs\<close>), the verifiers (\<^verbatim>\<open>client_server/auth/grant/crypto\<close>), the tables of
  grants, grant sessions and nonces (\<^verbatim>\<open>client_server/auth/grant/persistence\<close>), the service
  (\<^verbatim>\<open>client_server/auth/grant/service.rs\<close>) and the middleware.  JSON, base64, the JWT
  signature check and SHA-256 are parameters.  Instants are microseconds; Unix
  timestamps are whole seconds.
\<close>

section \<open>Model: identifiers and claims\<close>

definition RANDOM_ID_MAX_LENGTH :: nat where "RANDOM_ID_MAX_LENGTH = 22"
definition CLIENT_ID_MAX_LENGTH :: nat where "CLIENT_ID_MAX_LENGTH = 253"
definition GRANT_JWS_TYP :: string where "GRANT_JWS_TYP = ''pubky-grant''"
definition POP_JWS_TYP :: string where "POP_JWS_TYP = ''pubky-pop''"

definition is_base64url :: "char \<Rightarrow> bool" where
  "is_base64url c \<longleftrightarrow> CHR ''0'' \<le> c \<and> c \<le> CHR ''9'' \<or> CHR ''A'' \<le> c \<and> c \<le> CHR ''Z''
     \<or> CHR ''a'' \<le> c \<and> c \<le> CHR ''z'' \<or> c = CHR ''-'' \<or> c = CHR ''_''"

definition random_id_parse :: "string \<Rightarrow> string option" where
  "random_id_parse s =
     (if s = [] then None
      else if length s > RANDOM_ID_MAX_LENGTH then None
      else if \<not> list_all is_base64url s then None
      else Some s)"

definition client_id_new :: "string \<Rightarrow> string option" where
  "client_id_new s =
     (if s = [] then None else if length s > CLIENT_ID_MAX_LENGTH then None else Some s)"

definition jws_compact_parse :: "string \<Rightarrow> string option" where
  "jws_compact_parse s = (if length (split_on CHR ''.'' s) = 3 then Some s else None)"

record grant_claims =
  gc_iss :: public_key
  gc_client_id :: string
  gc_caps :: capabilities
  gc_cnf :: public_key
  gc_jti :: string
  gc_iat :: nat
  gc_exp :: nat

record pop_claims =
  pc_aud :: public_key
  pc_gid :: string
  pc_nonce :: string
  pc_iat :: nat

text \<open>What the libraries provide: the JSON and base64 decoders, the signature check of
  a JWS under a key, which returns its claims, its header type, the hash of a
  bearer, and which Unix timestamps are dates.\<close>

record jws_env =
  js_base64_decode :: "string \<Rightarrow> string option"
  js_grant_json :: "string \<Rightarrow> grant_claims option"
  js_verify_grant :: "public_key \<Rightarrow> string \<Rightarrow> grant_claims option"
  js_verify_pop :: "public_key \<Rightarrow> string \<Rightarrow> pop_claims option"
  js_header_typ :: "string \<Rightarrow> string option option"
  js_hash :: "string \<Rightarrow> string"
  js_is_date :: "nat \<Rightarrow> bool"

definition decode_grant_payload :: "jws_env \<Rightarrow> string \<Rightarrow> grant_claims option" where
  "decode_grant_payload env compact =
     (case split_on CHR ''.'' compact of
        _ # payload # _ # _ \<Rightarrow> Option.bind (js_base64_decode env payload) (js_grant_json env)
      | _ \<Rightarrow> None)"

section \<open>Model: verifiers\<close>

definition unix_secs :: "int \<Rightarrow> nat" where "unix_secs now = nat (now div 1000000)"

datatype grant_error = GrantInvalidFormat | GrantInvalidHeaderType | GrantInvalidSignature | GrantClaimExpired

definition extract_issuer_key :: "jws_env \<Rightarrow> string \<Rightarrow> (grant_error, public_key) result" where
  "extract_issuer_key env compact = map_ok gc_iss (ok_or GrantInvalidFormat (decode_grant_payload env compact))"

definition grant_verify_signature :: "jws_env \<Rightarrow> string \<Rightarrow> public_key \<Rightarrow> (grant_error, grant_claims) result" where
  "grant_verify_signature env compact key = ok_or GrantInvalidSignature (js_verify_grant env key compact)"

definition grant_check_header_type :: "jws_env \<Rightarrow> string \<Rightarrow> (grant_error, unit) result" where
  "grant_check_header_type env compact =
     (case js_header_typ env compact of
        None \<Rightarrow> Err GrantInvalidFormat
      | Some typ \<Rightarrow> if typ = Some GRANT_JWS_TYP then Ok () else Err GrantInvalidHeaderType)"

definition check_expiry :: "int \<Rightarrow> grant_claims \<Rightarrow> (grant_error, unit) result" where
  "check_expiry now claims = (if gc_exp claims \<le> unix_secs now then Err GrantClaimExpired else Ok ())"

definition verify_grant_for_revocation :: "jws_env \<Rightarrow> string \<Rightarrow> (grant_error, grant_claims) result" where
  "verify_grant_for_revocation env compact =
     and_then (extract_issuer_key env compact) (\<lambda>issuer_key.
     and_then (grant_verify_signature env compact issuer_key) (\<lambda>claims.
     and_then (grant_check_header_type env compact) (\<lambda>_.
       Ok claims)))"

definition verify_grant :: "jws_env \<Rightarrow> int \<Rightarrow> string \<Rightarrow> (grant_error, grant_claims) result" where
  "verify_grant env now compact =
     and_then (verify_grant_for_revocation env compact) (\<lambda>claims.
     and_then (check_expiry now claims) (\<lambda>_. Ok claims))"

definition POP_MAX_AGE_SECS :: nat where "POP_MAX_AGE_SECS = 180"
definition POP_NONCE_GC_THRESHOLD_SECS :: nat where "POP_NONCE_GC_THRESHOLD_SECS = 2 * POP_MAX_AGE_SECS"

datatype pop_error =
    PopInvalidFormat
  | PopInvalidHeaderType
  | PopInvalidSignature
  | AudienceMismatch
  | GrantIdMismatch
  | TimestampOutOfRange
  | InvalidTimestamp

record pop_proof =
  pp_grant_id :: string
  pp_nonce :: string
  pp_issued_at :: nat

definition pop_check_header_type :: "jws_env \<Rightarrow> string \<Rightarrow> (pop_error, unit) result" where
  "pop_check_header_type env compact =
     (case js_header_typ env compact of
        None \<Rightarrow> Err PopInvalidFormat
      | Some typ \<Rightarrow> if typ = Some POP_JWS_TYP then Ok () else Err PopInvalidHeaderType)"

definition abs_diff :: "nat \<Rightarrow> nat \<Rightarrow> nat" where "abs_diff a b = (a - b) + (b - a)"

definition check_timestamp :: "int \<Rightarrow> pop_claims \<Rightarrow> (pop_error, unit) result" where
  "check_timestamp now raw =
     ensure (abs_diff (unix_secs now) (pc_iat raw) \<le> POP_MAX_AGE_SECS) TimestampOutOfRange"

definition parse_verified_pop :: "jws_env \<Rightarrow> pop_claims \<Rightarrow> (pop_error, pop_proof) result" where
  "parse_verified_pop env raw =
     (if js_is_date env (pc_iat raw)
      then Ok \<lparr>pp_grant_id = pc_gid raw, pp_nonce = pc_nonce raw, pp_issued_at = pc_iat raw\<rparr>
      else Err InvalidTimestamp)"

definition pop_verify ::
  "jws_env \<Rightarrow> int \<Rightarrow> string \<Rightarrow> public_key \<Rightarrow> string \<Rightarrow> string \<Rightarrow> (pop_error, pop_proof) result" where
  "pop_verify env now compact cnf_key expected_audience expected_grant_id =
     and_then (ok_or PopInvalidSignature (js_verify_pop env cnf_key compact)) (\<lambda>raw.
     and_then (pop_check_header_type env compact) (\<lambda>_.
     and_then (ensure (z32 (pc_aud raw) = expected_audience) AudienceMismatch) (\<lambda>_.
     and_then (ensure (pc_gid raw = expected_grant_id) GrantIdMismatch) (\<lambda>_.
     and_then (check_timestamp now raw) (\<lambda>_.
       parse_verified_pop env raw)))))"

section \<open>Model: bearers\<close>

definition BEARER_WIRE_LEN :: nat where "BEARER_WIRE_LEN = 43"

definition bearer_parse :: "string \<Rightarrow> string option" where
  "bearer_parse raw = (if length raw = BEARER_WIRE_LEN then Some raw else None)"

datatype bearer_extraction = BearerPresent string | InvalidBearer | NonBearer | BearerMissing

definition extract_bearer_token :: "string option \<Rightarrow> bearer_extraction" where
  "extract_bearer_token authorization =
     (case authorization of
        None \<Rightarrow> BearerMissing
      | Some value \<Rightarrow>
          (case strip_prefix ''Bearer '' value of
             None \<Rightarrow> NonBearer
           | Some raw_token \<Rightarrow>
               if \<not> valid_utf8 raw_token then InvalidBearer
               else (case bearer_parse raw_token of Some b \<Rightarrow> BearerPresent b | None \<Rightarrow> InvalidBearer)))"

section \<open>Model: tables\<close>

record grant_row =
  gr_id :: string
  gr_user :: int
  gr_client_id :: string
  gr_client_cnf_key :: string
  gr_capabilities :: string
  gr_issued_at :: int
  gr_expires_at :: int
  gr_revoked_at :: "int option"
  gr_created_at :: int

record grant_entity =
  ge_id :: string
  ge_user_id :: int
  ge_user_pubkey :: public_key
  ge_client_id :: string
  ge_client_cnf_key :: string
  ge_capabilities :: capabilities
  ge_issued_at :: int
  ge_expires_at :: int
  ge_revoked_at :: "int option"
  ge_created_at :: int

datatype grant_status = GrantIsRevoked | GrantIsExpired

definition require_active :: "grant_entity \<Rightarrow> int \<Rightarrow> (grant_status, unit) result" where
  "require_active g now_unix =
     (if ge_revoked_at g \<noteq> None then Err GrantIsRevoked
      else if ge_expires_at g \<le> now_unix then Err GrantIsExpired
      else Ok ())"

definition grant_create :: "int \<Rightarrow> grant_claims \<Rightarrow> int \<Rightarrow> grant_row list \<Rightarrow> grant_row list" where
  "grant_create now claims user_id t =
     (if row_of gr_id t (gc_jti claims) \<noteq> None then t
      else t @ [\<lparr>gr_id = gc_jti claims, gr_user = user_id, gr_client_id = gc_client_id claims,
                 gr_client_cnf_key = z32 (gc_cnf claims),
                 gr_capabilities = capabilities_to_string (gc_caps claims),
                 gr_issued_at = wrap_i64 (int (gc_iat claims)), gr_expires_at = wrap_i64 (int (gc_exp claims)),
                 gr_revoked_at = None, gr_created_at = now\<rparr>])"

definition grant_from_row :: "user_table \<Rightarrow> grant_row \<Rightarrow> (sql_error, grant_entity) result" where
  "grant_from_row users r =
     and_then (ok_or DecodeError (random_id_parse (gr_id r))) (\<lambda>gid.
     and_then (ok_or DecodeError (row_of ue_id (ut_rows users) (gr_user r))) (\<lambda>u.
     and_then (ok_or DecodeError (client_id_new (gr_client_id r))) (\<lambda>cid.
     and_then (map_err (\<lambda>_. DecodeError) (capabilities_from_str (gr_capabilities r))) (\<lambda>caps.
       Ok \<lparr>ge_id = gid, ge_user_id = gr_user r, ge_user_pubkey = ue_public_key u, ge_client_id = cid,
           ge_client_cnf_key = gr_client_cnf_key r, ge_capabilities = caps, ge_issued_at = gr_issued_at r,
           ge_expires_at = gr_expires_at r, ge_revoked_at = gr_revoked_at r, ge_created_at = gr_created_at r\<rparr>))))"

definition grant_get_by_id :: "string \<Rightarrow> user_table \<Rightarrow> grant_row list \<Rightarrow> (sql_error, grant_entity) result" where
  "grant_get_by_id gid users t = and_then (ok_or RowNotFound (row_of gr_id t gid)) (grant_from_row users)"

definition grant_revoke :: "int \<Rightarrow> string \<Rightarrow> grant_row list \<Rightarrow> grant_row list" where
  "grant_revoke now gid t =
     update_where (\<lambda>r. gr_id r = gid) (\<lambda>r. r\<lparr>gr_revoked_at := Some (int (unix_secs now))\<rparr>) t"

definition grant_is_revoked :: "string \<Rightarrow> grant_row list \<Rightarrow> (sql_error, bool) result" where
  "grant_is_revoked gid t = map_ok (\<lambda>r. gr_revoked_at r \<noteq> None) (ok_or RowNotFound (row_of gr_id t gid))"

definition list_active_for_user ::
  "int \<Rightarrow> int \<Rightarrow> user_table \<Rightarrow> grant_row list \<Rightarrow> (sql_error, grant_entity list) result" where
  "list_active_for_user now user_id users t =
     try_map (grant_from_row users)
       (filter (\<lambda>r. gr_user r = user_id \<and> gr_revoked_at r = None \<and> gr_expires_at r > int (unix_secs now)) t)"

record grant_session_row =
  sn_token_hash :: string
  sn_grant_id :: string
  sn_expires_at :: int
  sn_created_at :: int

datatype session_issue_error = IssueRevoked | IssueExpired | IssueDatabase sql_error

definition replace_for_grant ::
  "int \<Rightarrow> string \<Rightarrow> string \<Rightarrow> nat \<Rightarrow> grant_row list \<Rightarrow> grant_session_row list \<Rightarrow>
   (session_issue_error, grant_session_row list) result" where
  "replace_for_grant now token_hash gid expires_at grants t =
     and_then (ok_or (IssueDatabase RowNotFound) (row_of gr_id grants gid)) (\<lambda>grant.
     and_then (ensure (gr_revoked_at grant = None) IssueRevoked) (\<lambda>_.
     and_then (ensure (\<not> gr_expires_at grant \<le> int (unix_secs now)) IssueExpired) (\<lambda>_.
     let kept = delete_where (\<lambda>r. sn_grant_id r = gid) t in
     and_then (ensure (row_of sn_token_hash kept token_hash = None) (IssueDatabase UniqueViolation)) (\<lambda>_.
       Ok (kept @ [\<lparr>sn_token_hash = token_hash, sn_grant_id = gid,
                    sn_expires_at = wrap_i64 (int expires_at), sn_created_at = now\<rparr>])))))"

definition session_get_by_token_hash ::
  "string \<Rightarrow> grant_session_row list \<Rightarrow> (sql_error, grant_session_row) result" where
  "session_get_by_token_hash token_hash t = ok_or RowNotFound (row_of sn_token_hash t token_hash)"

definition delete_all_for_grant :: "string \<Rightarrow> grant_session_row list \<Rightarrow> grant_session_row list" where
  "delete_all_for_grant gid t = delete_where (\<lambda>r. sn_grant_id r = gid) t"

text \<open>The nonces with the instant they were tracked at.\<close>

type_synonym nonce_table = "(string \<times> int) list"

definition nonce_check_and_track :: "int \<Rightarrow> string \<Rightarrow> nonce_table \<Rightarrow> bool \<times> nonce_table" where
  "nonce_check_and_track now nonce t =
     (if row_of fst t nonce \<noteq> None then (False, t) else (True, t @ [(nonce, now)]))"

definition nonce_garbage_collect :: "int \<Rightarrow> nat \<Rightarrow> nonce_table \<Rightarrow> nonce_table" where
  "nonce_garbage_collect now max_age_secs t =
     (let cutoff = now - int max_age_secs * 1000000 in delete_where (\<lambda>r. snd r < cutoff) t)"

section \<open>Model: the grant service\<close>

definition DEFAULT_SESSION_TOKEN_LIFETIME_SECS :: nat where "DEFAULT_SESSION_TOKEN_LIFETIME_SECS = 3600"
definition SIGNUP_CLIENT_ID :: string where "SIGNUP_CLIENT_ID = ''pubky.signup''"
definition MAX_SIGNUP_GRANT_LIFETIME_SECS :: nat where "MAX_SIGNUP_GRANT_LIFETIME_SECS = 5 * 60"

record grant_state =
  gt_accounts :: signup_state
  gt_grants :: "grant_row list"
  gt_sessions :: "grant_session_row list"
  gt_nonces :: nonce_table
  gt_notified :: "auth_revocation list"

abbreviation gt_users :: "grant_state \<Rightarrow> user_table" where
  "gt_users s \<equiv> us_db (ss_service (gt_accounts s))"

datatype auth_service_error =
    InvalidGrant grant_error
  | InvalidPopProof pop_error
  | UserNotFound
  | GrantSignup signup_error
  | GrantNotFound
  | NonceReplay
  | GrantRevoked
  | GrantExpired
  | InvalidSignupGrant string
  | SessionNotFound
  | SessionExpired
  | GrantOwnershipMismatch
  | GrantClaimsMismatch
  | RootCapabilityRequired
  | AuthInternal sql_error

fun status_error :: "grant_status \<Rightarrow> auth_service_error" where
  "status_error GrantIsRevoked = GrantRevoked"
| "status_error GrantIsExpired = GrantExpired"

fun issue_error :: "session_issue_error \<Rightarrow> auth_service_error" where
  "issue_error IssueRevoked = GrantRevoked"
| "issue_error IssueExpired = GrantExpired"
| "issue_error (IssueDatabase e) = AuthInternal e"

definition map_not_found :: "(sql_error, 'a) result \<Rightarrow> auth_service_error \<Rightarrow> (auth_service_error, 'a) result" where
  "map_not_found r not_found_err =
     map_err (\<lambda>e. case e of RowNotFound \<Rightarrow> not_found_err | other \<Rightarrow> AuthInternal other) r"

definition get_grant :: "string \<Rightarrow> grant_state \<Rightarrow> (auth_service_error, grant_entity) result" where
  "get_grant gid s = map_not_found (grant_get_by_id gid (gt_users s) (gt_grants s)) GrantNotFound"

definition find_user :: "grant_claims \<Rightarrow> grant_state \<Rightarrow> (auth_service_error, user_entity) result" where
  "find_user claims s = map_not_found (user_get (gc_iss claims) (gt_users s)) UserNotFound"

definition verify_pop_proof ::
  "jws_env \<Rightarrow> public_key \<Rightarrow> int \<Rightarrow> string \<Rightarrow> grant_claims \<Rightarrow> (auth_service_error, pop_proof) result" where
  "verify_pop_proof env homeserver now pop_jws claims =
     map_err InvalidPopProof (pop_verify env now pop_jws (gc_cnf claims) (z32 homeserver) (gc_jti claims))"

definition check_nonce_replay ::
  "int \<Rightarrow> pop_proof \<Rightarrow> grant_state \<Rightarrow> (auth_service_error, unit) result \<times> grant_state" where
  "check_nonce_replay now pop s =
     (let collected = nonce_garbage_collect now POP_NONCE_GC_THRESHOLD_SECS (gt_nonces s);
          (fresh, tracked) = nonce_check_and_track now (pp_nonce pop) collected
      in (if fresh then Ok () else Err NonceReplay, s\<lparr>gt_nonces := tracked\<rparr>))"

definition check_grant_not_revoked :: "grant_claims \<Rightarrow> grant_state \<Rightarrow> (auth_service_error, unit) result" where
  "check_grant_not_revoked claims s =
     (case grant_is_revoked (gc_jti claims) (gt_grants s) of
        Inr True \<Rightarrow> Err GrantRevoked
      | Inr False \<Rightarrow> Ok ()
      | Inl RowNotFound \<Rightarrow> Ok ()
      | Inl e \<Rightarrow> Err (AuthInternal e))"

definition verify_grant_and_pop ::
  "jws_env \<Rightarrow> public_key \<Rightarrow> int \<Rightarrow> string \<Rightarrow> string \<Rightarrow> grant_state \<Rightarrow>
   (auth_service_error, grant_claims) result \<times> grant_state" where
  "verify_grant_and_pop env homeserver now grant_jws pop_jws s =
     st_then (map_err InvalidGrant (verify_grant env now grant_jws), s) (\<lambda>claims s.
     st_then (check_grant_not_revoked claims s, s) (\<lambda>_ s.
     st_then (verify_pop_proof env homeserver now pop_jws claims, s) (\<lambda>pop s.
     st_then (check_nonce_replay now pop s) (\<lambda>_ s.
       (Ok claims, s)))))"

definition store_grant :: "int \<Rightarrow> grant_claims \<Rightarrow> user_entity \<Rightarrow> grant_state \<Rightarrow> grant_state" where
  "store_grant now claims user s = s\<lparr>gt_grants := grant_create now claims (ue_id user) (gt_grants s)\<rparr>"

definition require_stored_grant_matches :: "grant_claims \<Rightarrow> grant_state \<Rightarrow> (auth_service_error, unit) result" where
  "require_stored_grant_matches claims s =
     and_then (get_grant (gc_jti claims) s) (\<lambda>stored.
       ensure (ge_user_pubkey stored = gc_iss claims \<and> ge_client_id stored = gc_client_id claims \<and>
         ge_client_cnf_key stored = z32 (gc_cnf claims) \<and> ge_capabilities stored = gc_caps claims \<and>
         ge_issued_at stored = wrap_i64 (int (gc_iat claims)) \<and>
         ge_expires_at stored = wrap_i64 (int (gc_exp claims))) GrantClaimsMismatch)"

record grant_session_response =
  sp_token :: string
  sp_homeserver :: public_key
  sp_pubky :: public_key
  sp_client_id :: string
  sp_capabilities :: capabilities
  sp_grant_id :: string
  sp_token_expires_at :: nat
  sp_grant_expires_at :: nat
  sp_created_at :: nat

definition mint_session ::
  "jws_env \<Rightarrow> public_key \<Rightarrow> int \<Rightarrow> string \<Rightarrow> grant_claims \<Rightarrow> grant_state \<Rightarrow>
   (auth_service_error, grant_session_response) result \<times> grant_state" where
  "mint_session env homeserver now bearer claims s =
     (let expires_at = min (unix_secs now + DEFAULT_SESSION_TOKEN_LIFETIME_SECS) (gc_exp claims) in
      case replace_for_grant now (js_hash env bearer) (gc_jti claims) expires_at (gt_grants s) (gt_sessions s) of
        Inl e \<Rightarrow> (Err (issue_error e), s)
      | Inr sessions \<Rightarrow>
          (Ok \<lparr>sp_token = bearer, sp_homeserver = homeserver, sp_pubky = gc_iss claims,
               sp_client_id = gc_client_id claims, sp_capabilities = gc_caps claims,
               sp_grant_id = gc_jti claims, sp_token_expires_at = expires_at,
               sp_grant_expires_at = gc_exp claims, sp_created_at = unix_secs now\<rparr>,
           s\<lparr>gt_sessions := sessions\<rparr>))"

definition create_grant_session ::
  "jws_env \<Rightarrow> public_key \<Rightarrow> int \<Rightarrow> string \<Rightarrow> string \<Rightarrow> string \<Rightarrow> grant_state \<Rightarrow>
   (auth_service_error, grant_session_response) result \<times> grant_state" where
  "create_grant_session env homeserver now bearer grant_jws pop_jws s =
     st_then (verify_grant_and_pop env homeserver now grant_jws pop_jws s) (\<lambda>claims s.
     st_then (find_user claims s, s) (\<lambda>user s.
     st_then (Ok (), store_grant now claims user s) (\<lambda>_ s.
     st_then (require_stored_grant_matches claims s, s) (\<lambda>_ s.
       mint_session env homeserver now bearer claims s))))"

definition require_signup_client_id :: "grant_claims \<Rightarrow> (auth_service_error, unit) result" where
  "require_signup_client_id claims =
     ensure (gc_client_id claims = SIGNUP_CLIENT_ID)
       (InvalidSignupGrant ''signup grants must use client_id pubky.signup'')"

definition require_root_capability_claim :: "grant_claims \<Rightarrow> (auth_service_error, unit) result" where
  "require_root_capability_claim claims = ensure (list_ex capability_is_root (gc_caps claims)) RootCapabilityRequired"

definition require_short_signup_lifetime :: "int \<Rightarrow> grant_claims \<Rightarrow> (auth_service_error, unit) result" where
  "require_short_signup_lifetime now claims =
     (if gc_iat claims > unix_secs now + POP_MAX_AGE_SECS
      then Err (InvalidSignupGrant ''signup grant iat is too far in the future'')
      else if gc_exp claims - gc_iat claims > MAX_SIGNUP_GRANT_LIFETIME_SECS
      then Err (InvalidSignupGrant ''signup grant lifetime exceeds 5 minutes'')
      else Ok ())"

definition verify_signup_grant_and_pop ::
  "jws_env \<Rightarrow> public_key \<Rightarrow> int \<Rightarrow> string \<Rightarrow> string \<Rightarrow> grant_state \<Rightarrow>
   (auth_service_error, grant_claims) result \<times> grant_state" where
  "verify_signup_grant_and_pop env homeserver now grant_jws pop_jws s =
     st_then (map_err InvalidGrant (verify_grant env now grant_jws), s) (\<lambda>claims s.
     st_then (require_signup_client_id claims, s) (\<lambda>_ s.
     st_then (require_root_capability_claim claims, s) (\<lambda>_ s.
     st_then (require_short_signup_lifetime now claims, s) (\<lambda>_ s.
     st_then (verify_pop_proof env homeserver now pop_jws claims, s) (\<lambda>pop s.
     st_then (check_nonce_replay now pop s) (\<lambda>_ s.
       (Ok claims, s)))))))"

definition signup_grant_account ::
  "jws_env \<Rightarrow> public_key \<Rightarrow> (storage_path list \<Rightarrow> string) \<Rightarrow> (string \<Rightarrow> storage_path list option) \<Rightarrow> signup_mode \<Rightarrow> int \<Rightarrow>
   string \<Rightarrow> string \<Rightarrow> string option \<Rightarrow> grant_state \<Rightarrow> (auth_service_error, unit) result \<times> grant_state" where
  "signup_grant_account env homeserver tj fj mode now grant_jws pop_jws signup_token s =
     st_then (verify_signup_grant_and_pop env homeserver now grant_jws pop_jws s) (\<lambda>claims s.
       case create_new_user tj fj now mode (gc_iss claims) signup_token (gt_accounts s) (gt_accounts s) of
         Inl e \<Rightarrow> (Err (GrantSignup e), s)
       | Inr (user, accounts) \<Rightarrow> (Ok (), s\<lparr>gt_accounts := accounts\<rparr>))"

definition revoke_grant :: "int \<Rightarrow> string \<Rightarrow> grant_state \<Rightarrow> grant_state" where
  "revoke_grant now gid s =
     s\<lparr>gt_grants := grant_revoke now gid (gt_grants s),
       gt_sessions := delete_all_for_grant gid (gt_sessions s),
       gt_notified := gt_notified s @ [RevokeGrant gid]\<rparr>"

definition signout_with_proof ::
  "jws_env \<Rightarrow> public_key \<Rightarrow> int \<Rightarrow> string \<Rightarrow> string \<Rightarrow> grant_state \<Rightarrow> (auth_service_error, unit) result \<times> grant_state" where
  "signout_with_proof env homeserver now grant_jws pop_jws s =
     st_then (map_err InvalidGrant (verify_grant_for_revocation env grant_jws), s) (\<lambda>claims s.
     st_then (verify_pop_proof env homeserver now pop_jws claims, s) (\<lambda>pop s.
     st_then (check_nonce_replay now pop s) (\<lambda>_ s.
     st_then (get_grant (gc_jti claims) s, s) (\<lambda>stored s.
     st_then (ensure (ge_user_pubkey stored = gc_iss claims \<and> ge_client_cnf_key stored = z32 (gc_cnf claims))
         GrantOwnershipMismatch, s) (\<lambda>_ s.
       (Ok (), revoke_grant now (gc_jti claims) s))))))"

definition resolve_user_id :: "auth_session \<Rightarrow> grant_state \<Rightarrow> (auth_service_error, int) result" where
  "resolve_user_id auth s =
     (case auth of
        GrantAuthSession b \<Rightarrow> map_ok ge_user_id (get_grant (gs_grant_id b) s)
      | CookieSession c \<Rightarrow> Ok (se_user_id c))"

definition revoke_user_grant ::
  "int \<Rightarrow> string \<Rightarrow> auth_session \<Rightarrow> grant_state \<Rightarrow> (auth_service_error, unit) result \<times> grant_state" where
  "revoke_user_grant now gid auth s =
     st_then (resolve_user_id auth s, s) (\<lambda>user_id s.
     st_then (get_grant gid s, s) (\<lambda>grant s.
     st_then (ensure (ge_user_id grant = user_id) GrantOwnershipMismatch, s) (\<lambda>_ s.
       (Ok (), revoke_grant now gid s))))"

definition require_root_capability :: "auth_session \<Rightarrow> (auth_service_error, unit) result" where
  "require_root_capability auth = ensure (list_ex capability_is_root (session_capabilities auth)) RootCapabilityRequired"

definition validate_active_grant_session_entity ::
  "int \<Rightarrow> grant_session_row \<Rightarrow> grant_state \<Rightarrow> (auth_service_error, grant_entity) result" where
  "validate_active_grant_session_entity now session s =
     and_then (ensure (\<not> sn_expires_at session \<le> int (unix_secs now)) SessionExpired) (\<lambda>_.
     and_then (get_grant (sn_grant_id session) s) (\<lambda>grant.
     and_then (map_err status_error (require_active grant (int (unix_secs now)))) (\<lambda>_.
       Ok grant)))"

definition resolve_grant_session_by_bearer ::
  "jws_env \<Rightarrow> int \<Rightarrow> string \<Rightarrow> grant_state \<Rightarrow> (auth_service_error, grant_session) result" where
  "resolve_grant_session_by_bearer env now bearer s =
     and_then (map_not_found (session_get_by_token_hash (js_hash env bearer) (gt_sessions s)) SessionNotFound) (\<lambda>session.
     and_then (validate_active_grant_session_entity now session s) (\<lambda>grant.
       Ok \<lparr>gs_user_key = ge_user_pubkey grant, gs_capabilities = ge_capabilities grant,
           gs_grant_id = sn_grant_id session, gs_token_expires_at = nat (sn_expires_at session),
           gs_token_hash = sn_token_hash session\<rparr>))"

definition validate_active_grant_session ::
  "int \<Rightarrow> grant_session \<Rightarrow> grant_state \<Rightarrow> (auth_service_error, grant_entity) result" where
  "validate_active_grant_session now session s =
     and_then (map_not_found (session_get_by_token_hash (gs_token_hash session) (gt_sessions s)) SessionNotFound) (\<lambda>persisted.
     and_then (ensure (sn_grant_id persisted = gs_grant_id session) SessionNotFound) (\<lambda>_.
       validate_active_grant_session_entity now persisted s))"

text \<open>The middleware: a bearer that resolves attaches its session, anything else
  attaches none.\<close>

definition grant_middleware ::
  "jws_env \<Rightarrow> int \<Rightarrow> string option \<Rightarrow> grant_state \<Rightarrow> auth_session option" where
  "grant_middleware env now authorization s =
     (case extract_bearer_token authorization of
        BearerPresent bearer \<Rightarrow>
          (case resolve_grant_session_by_bearer env now bearer s of
             Inr session \<Rightarrow> Some (GrantAuthSession session)
           | Inl _ \<Rightarrow> None)
      | _ \<Rightarrow> None)"

section \<open>Runs of grant transactions\<close>

text \<open>The transactions of the service.  A request is several of them, and those of
  concurrent requests interleave; the claims stored or minted from are those of a
  verified grant.\<close>

datatype grant_tx =
    StoreGrantTx string
  | MintTx string string
  | RevokeTx string
  | NonceTx pop_proof
  | AccountTx account_op

record grant_setup =
  su_env :: jws_env
  su_homeserver :: public_key
  su_to_json :: "storage_path list \<Rightarrow> string"
  su_from_json :: "string \<Rightarrow> storage_path list option"

fun grant_tx_step :: "grant_setup \<Rightarrow> int \<Rightarrow> grant_tx \<Rightarrow> grant_state \<Rightarrow> grant_state" where
  "grant_tx_step su now (StoreGrantTx jws) s =
     (case verify_grant_for_revocation (su_env su) jws of
        Inl _ \<Rightarrow> s
      | Inr claims \<Rightarrow> (case find_user claims s of Inl _ \<Rightarrow> s | Inr user \<Rightarrow> store_grant now claims user s))"
| "grant_tx_step su now (MintTx jws bearer) s =
     (case verify_grant_for_revocation (su_env su) jws of
        Inl _ \<Rightarrow> s
      | Inr claims \<Rightarrow> snd (mint_session (su_env su) (su_homeserver su) now bearer claims s))"
| "grant_tx_step su now (RevokeTx gid) s = revoke_grant now gid s"
| "grant_tx_step su now (NonceTx pop) s = snd (check_nonce_replay now pop s)"
| "grant_tx_step su now (AccountTx op) s =
     s\<lparr>gt_accounts := account_step (su_to_json su) (su_from_json su) now op (gt_accounts s)\<rparr>"

definition grant_run :: "grant_setup \<Rightarrow> (int \<times> grant_tx) list \<Rightarrow> grant_state \<Rightarrow> grant_state" where
  "grant_run su txs s = foldl (\<lambda>s (now, tx). grant_tx_step su now tx s) s txs"

lemma grant_run_simps [simp]:
  "grant_run su [] s = s"
  "grant_run su ((now, tx) # txs) s = grant_run su txs (grant_tx_step su now tx s)"
  by (simp_all add: grant_run_def)

lemma verify_grant_okD:
  "verify_grant env now jws = Ok claims \<Longrightarrow> verify_grant_for_revocation env jws = Ok claims \<and> unix_secs now < gc_exp claims"
  by (auto simp: verify_grant_def and_then_ok_iff check_expiry_def split: if_splits)

lemma verify_grant_and_pop_state:
  "verify_grant_and_pop env hs now g p s = (r, s') \<Longrightarrow>
   s' = s \<or> (\<exists>pop. s' = snd (check_nonce_replay now pop s))"
  unfolding verify_grant_and_pop_def
  by (auto simp: st_then_def split: prod.splits sum.splits dest!: arg_cong [where f = snd])

lemma verify_grant_and_pop_ok:
  "verify_grant_and_pop env hs now g p s = (Ok claims, s') \<longleftrightarrow>
   (\<exists>pop. verify_grant env now g = Ok claims \<and> check_grant_not_revoked claims s = Ok () \<and>
     verify_pop_proof env hs now p claims = Ok pop \<and> check_nonce_replay now pop s = (Ok (), s'))"
  unfolding verify_grant_and_pop_def by (auto simp: st_then_ok_iff)

text \<open>Every service call is a run of transactions.\<close>

lemma create_grant_session_run:
  "\<exists>txs. snd (create_grant_session (su_env su) (su_homeserver su) now bearer g p s) = grant_run su txs s"
proof -
  let ?env = "su_env su" and ?hs = "su_homeserver su"
  obtain r t where v: "verify_grant_and_pop ?env ?hs now g p s = (r, t)" by fastforce
  have "\<exists>txs. t = grant_run su txs s"
    using verify_grant_and_pop_state [OF v]
    by (metis grant_run_simps grant_tx_step.simps(4))
  then obtain txs where t: "t = grant_run su txs s" ..
  show ?thesis
  proof (cases r)
    case (Inl e)
    then show ?thesis using v t by (auto simp: create_grant_session_def)
  next
    case (Inr claims)
    then have ok: "verify_grant_for_revocation ?env g = Ok claims"
      using v by (auto simp: verify_grant_and_pop_ok dest: verify_grant_okD)
    let ?c = "snd (create_grant_session ?env ?hs now bearer g p s)"
    have "?c = t \<or> ?c = grant_run su [(now, StoreGrantTx g)] t \<or>
        ?c = grant_run su [(now, StoreGrantTx g), (now, MintTx g bearer)] t"
      using v Inr ok by (simp add: create_grant_session_def st_then_def split: sum.splits)
    then show ?thesis unfolding t by (metis grant_run_def foldl_append)
  qed
qed

text \<open>The transactions of a run can be put one after another.\<close>

lemma grant_run_append: "grant_run su (txs @ txs') s = grant_run su txs' (grant_run su txs s)"
  by (simp add: grant_run_def)

lemma signup_grant_account_run:
  assumes "su_env su = env" and "su_homeserver su = hs" and "su_to_json su = tj" and "su_from_json su = fj"
  shows "\<exists>txs. snd (signup_grant_account env hs tj fj mode now g p token s) = grant_run su txs s"
proof -
  obtain r t where v: "verify_signup_grant_and_pop env hs now g p s = (r, t)" by fastforce
  have "t = s \<or> (\<exists>pop. t = snd (check_nonce_replay now pop s))"
    using v unfolding verify_signup_grant_and_pop_def
    by (auto simp: st_then_def split: prod.splits sum.splits dest!: arg_cong [where f = snd])
  then obtain txs where t: "t = grant_run su txs s" by (metis grant_run_simps grant_tx_step.simps(4))
  have "snd (signup_grant_account env hs tj fj mode now g p token s) = t \<or>
      (\<exists>op. snd (signup_grant_account env hs tj fj mode now g p token s) = grant_run su [(now, AccountTx op)] t)"
  proof (cases r)
    case (Inl e)
    then show ?thesis using v by (simp add: signup_grant_account_def)
  next
    case (Inr claims)
    then have "snd (signup_grant_account env hs tj fj mode now g p token s) =
        grant_run su [(now, AccountTx (SignupUser mode (gc_iss claims) token (gt_accounts t)))] t"
      using v assms by (auto simp: signup_grant_account_def or_unchanged_def split: sum.splits prod.splits)
    then show ?thesis by blast
  qed
  then show ?thesis unfolding t by (metis grant_run_append)
qed

lemma signout_with_proof_run: "\<exists>txs. snd (signout_with_proof env hs now g p s) = grant_run su txs s"
proof -
  have "snd (signout_with_proof env hs now g p s) = s \<or>
      (\<exists>pop. snd (signout_with_proof env hs now g p s) = grant_run su [(now, NonceTx pop)] s) \<or>
      (\<exists>pop gid. snd (signout_with_proof env hs now g p s) = grant_run su [(now, NonceTx pop), (now, RevokeTx gid)] s)"
    unfolding signout_with_proof_def
    by (auto simp: st_then_def split: prod.splits sum.splits dest!: arg_cong [where f = snd]) blast
  then show ?thesis by (metis grant_run_simps(1))
qed

lemma revoke_user_grant_run: "\<exists>txs. snd (revoke_user_grant now gid auth s) = grant_run su txs s"
proof -
  have "snd (revoke_user_grant now gid auth s) = s \<or> snd (revoke_user_grant now gid auth s) = grant_run su [(now, RevokeTx gid)] s"
    by (auto simp: revoke_user_grant_def st_then_def split: sum.splits)
  then show ?thesis by (metis grant_run_simps(1))
qed

section \<open>Invariant\<close>

text \<open>What the JWT library promises: the claims it returns for a key are those of the
  payload, and their identifiers and capabilities went through the parsers of
  their types.\<close>

definition jws_sound :: "jws_env \<Rightarrow> bool" where
  "jws_sound env \<longleftrightarrow> (\<forall>key jws claims. js_verify_grant env key jws = Some claims \<longrightarrow>
     decode_grant_payload env jws = Some claims \<and> list_all wf_capability (gc_caps claims) \<and>
     random_id_parse (gc_jti claims) = Some (gc_jti claims) \<and>
     client_id_new (gc_client_id claims) = Some (gc_client_id claims) \<and> gc_exp claims < 2 ^ 64)"

lemma verified_grant_signed:
  "jws_sound env \<Longrightarrow> verify_grant_for_revocation env jws = Ok claims \<Longrightarrow>
   js_verify_grant env (gc_iss claims) jws = Some claims"
  by (auto simp: verify_grant_for_revocation_def and_then_ok_iff extract_issuer_key_def
      grant_verify_signature_def jws_sound_def)

definition backed_by :: "jws_env \<Rightarrow> user_table \<Rightarrow> grant_row \<Rightarrow> grant_claims \<Rightarrow> bool" where
  "backed_by env users r claims \<longleftrightarrow> (\<exists>jws u. verify_grant_for_revocation env jws = Ok claims \<and>
     user_get (gc_iss claims) users = Ok u \<and> ue_id u = gr_user r \<and> gr_id r = gc_jti claims \<and>
     gr_client_id r = gc_client_id claims \<and> gr_client_cnf_key r = z32 (gc_cnf claims) \<and>
     gr_capabilities r = capabilities_to_string (gc_caps claims) \<and>
     gr_issued_at r = wrap_i64 (int (gc_iat claims)) \<and> gr_expires_at r = wrap_i64 (int (gc_exp claims)))"

definition grant_invar :: "grant_setup \<Rightarrow> grant_state \<Rightarrow> bool" where
  "grant_invar su s \<longleftrightarrow> signup_invar (su_from_json su) (gt_accounts s) \<and> keyed gr_id (gt_grants s) \<and>
     keyed sn_token_hash (gt_sessions s) \<and> keyed fst (gt_nonces s) \<and>
     (\<forall>r \<in> set (gt_grants s). \<exists>claims. backed_by (su_env su) (gt_users s) r claims) \<and>
     (\<forall>n \<in> set (gt_sessions s). \<exists>r. row_of gr_id (gt_grants s) (sn_grant_id n) = Some r \<and> gr_revoked_at r = None)"

lemma backed_by_grow: "users_grow t t' \<Longrightarrow> backed_by env t r claims \<Longrightarrow> backed_by env t' r claims"
  unfolding backed_by_def users_grow_def by metis

lemma check_nonce_replay_state: "snd (check_nonce_replay now pop s) =
  s\<lparr>gt_nonces := snd (nonce_check_and_track now (pp_nonce pop)
    (nonce_garbage_collect now POP_NONCE_GC_THRESHOLD_SECS (gt_nonces s)))\<rparr>"
  by (simp add: check_nonce_replay_def Let_def split: prod.splits)

lemma keyed_nonces:
  "keyed fst t \<Longrightarrow> keyed fst (snd (nonce_check_and_track now k (nonce_garbage_collect now' n t)))"
  by (simp add: nonce_check_and_track_def nonce_garbage_collect_def Let_def keyed_snoc del: not_None_eq)

lemma store_grant_invar:
  assumes "grant_invar su s" and "verify_grant_for_revocation (su_env su) jws = Ok claims" and "find_user claims s = Ok u"
  shows "grant_invar su (store_grant now claims u s)"
proof (cases "row_of gr_id (gt_grants s) (gc_jti claims)")
  case None
  have "user_get (gc_iss claims) (gt_users s) = Ok u"
    using assms(3) by (simp add: find_user_def map_not_found_def)
  then have "backed_by (su_env su) (gt_users s) \<lparr>gr_id = gc_jti claims, gr_user = ue_id u, gr_client_id = gc_client_id claims,
      gr_client_cnf_key = z32 (gc_cnf claims), gr_capabilities = capabilities_to_string (gc_caps claims),
      gr_issued_at = wrap_i64 (int (gc_iat claims)), gr_expires_at = wrap_i64 (int (gc_exp claims)),
      gr_revoked_at = None, gr_created_at = now\<rparr> claims"
    using assms(2) unfolding backed_by_def by auto
  then show ?thesis using assms(1) None
    unfolding grant_invar_def store_grant_def grant_create_def
    by (auto simp: keyed_snoc row_of_append split: option.splits)
next
  case (Some r)
  then show ?thesis using assms(1) by (simp add: store_grant_def grant_create_def grant_invar_def)
qed

lemma replace_for_grant_ok:
  "replace_for_grant now h gid e grants t = Ok t' \<longleftrightarrow>
   (\<exists>g. row_of gr_id grants gid = Some g \<and> gr_revoked_at g = None \<and> int (unix_secs now) < gr_expires_at g \<and>
     row_of sn_token_hash (delete_where (\<lambda>r. sn_grant_id r = gid) t) h = None \<and>
     t' = delete_where (\<lambda>r. sn_grant_id r = gid) t @ [\<lparr>sn_token_hash = h, sn_grant_id = gid,
       sn_expires_at = wrap_i64 (int e), sn_created_at = now\<rparr>])"
  by (auto simp: replace_for_grant_def and_then_ok_iff Let_def)

lemma mint_session_ok:
  "mint_session env hs now bearer claims s = (Ok resp, s') \<longleftrightarrow>
   (\<exists>t. replace_for_grant now (js_hash env bearer) (gc_jti claims)
       (min (unix_secs now + DEFAULT_SESSION_TOKEN_LIFETIME_SECS) (gc_exp claims)) (gt_grants s) (gt_sessions s) = Ok t \<and>
     s' = s\<lparr>gt_sessions := t\<rparr> \<and>
     resp = \<lparr>sp_token = bearer, sp_homeserver = hs, sp_pubky = gc_iss claims,
               sp_client_id = gc_client_id claims, sp_capabilities = gc_caps claims,
               sp_grant_id = gc_jti claims,
               sp_token_expires_at = min (unix_secs now + DEFAULT_SESSION_TOKEN_LIFETIME_SECS) (gc_exp claims),
               sp_grant_expires_at = gc_exp claims, sp_created_at = unix_secs now\<rparr>)"
  by (auto simp: mint_session_def Let_def split: sum.splits)

lemma mint_session_invar:
  assumes "grant_invar su s"
  shows "grant_invar su (snd (mint_session env hs now bearer claims s))"
proof (cases "mint_session env hs now bearer claims s")
  case (Pair r s')
  show ?thesis
  proof (cases r)
    case (Inl e)
    then have "s' = s" using Pair by (auto simp: mint_session_def Let_def split: sum.splits)
    with assms Pair show ?thesis by simp
  next
    case (Inr resp)
    then obtain t where t: "replace_for_grant now (js_hash env bearer) (gc_jti claims)
       (min (unix_secs now + DEFAULT_SESSION_TOKEN_LIFETIME_SECS) (gc_exp claims)) (gt_grants s) (gt_sessions s) = Ok t"
      "s' = s\<lparr>gt_sessions := t\<rparr>" using Pair by (auto simp: mint_session_ok)
    then show ?thesis using assms Pair
      by (auto simp: grant_invar_def replace_for_grant_ok keyed_snoc)
  qed
qed

lemma backed_by_revoked: "backed_by env users (r\<lparr>gr_revoked_at := x\<rparr>) claims = backed_by env users r claims"
  by (simp add: backed_by_def)

lemma row_of_revoke: "row_of gr_id (grant_revoke now gid t) k =
  map_option (\<lambda>r. if k = gid then r\<lparr>gr_revoked_at := Some (int (unix_secs now))\<rparr> else r) (row_of gr_id t k)"
  by (auto simp: grant_revoke_def row_of_update_where dest: row_of_SomeD split: option.splits)

lemma revoke_grant_invar:
  assumes "grant_invar su s" shows "grant_invar su (revoke_grant now gid s)"
proof -
  let ?s = "revoke_grant now gid s"
  have keys: "keyed gr_id (gt_grants ?s)" "keyed sn_token_hash (gt_sessions ?s)"
    using assms by (simp_all add: grant_invar_def revoke_grant_def grant_revoke_def delete_all_for_grant_def)
  have "\<exists>claims. backed_by (su_env su) (gt_users s) r claims" if "r \<in> set (gt_grants ?s)" for r
  proof -
    from that obtain q where "q \<in> set (gt_grants s)" "r = q \<or> r = q\<lparr>gr_revoked_at := Some (int (unix_secs now))\<rparr>"
      by (auto simp: revoke_grant_def grant_revoke_def set_update_where split: if_splits)
    with assms show ?thesis by (auto simp: grant_invar_def backed_by_revoked)
  qed
  moreover have "\<exists>r. row_of gr_id (gt_grants ?s) (sn_grant_id n) = Some r \<and> gr_revoked_at r = None"
    if "n \<in> set (gt_sessions ?s)" for n
  proof -
    from that have n: "n \<in> set (gt_sessions s)" "sn_grant_id n \<noteq> gid"
      by (simp_all add: revoke_grant_def delete_all_for_grant_def)
    with assms obtain r where "row_of gr_id (gt_grants s) (sn_grant_id n) = Some r" "gr_revoked_at r = None"
      unfolding grant_invar_def by blast
    with n(2) show ?thesis by (simp add: revoke_grant_def row_of_revoke)
  qed
  moreover have "gt_accounts ?s = gt_accounts s" "gt_nonces ?s = gt_nonces s" by (simp_all add: revoke_grant_def)
  ultimately show ?thesis using assms keys by (simp add: grant_invar_def)
qed

lemma grant_tx_invar:
  assumes "grant_invar su s" shows "grant_invar su (grant_tx_step su now tx s)"
proof (cases tx)
  case (StoreGrantTx jws)
  then show ?thesis using assms store_grant_invar [OF assms, of jws] by (auto split: sum.splits)
next
  case (MintTx jws bearer)
  then show ?thesis using assms mint_session_invar [OF assms] by (auto split: sum.splits)
next
  case (RevokeTx gid)
  then show ?thesis using assms by (simp add: revoke_grant_invar)
next
  case (NonceTx pop)
  then show ?thesis using assms by (simp add: check_nonce_replay_state grant_invar_def keyed_nonces)
next
  case (AccountTx op)
  have inv: "signup_invar (su_from_json su) (gt_accounts s)" using assms by (simp add: grant_invar_def)
  note grow = account_step_grow [OF inv, of "su_to_json su" now op]
  note ok = account_step_ok [OF inv, of "su_to_json su" now op]
  have "\<exists>claims. backed_by (su_env su) (gt_users (grant_tx_step su now tx s)) r claims" if "r \<in> set (gt_grants s)" for r
    using that assms backed_by_grow [OF grow] AccountTx unfolding grant_invar_def by fastforce
  then show ?thesis using assms ok AccountTx by (simp add: grant_invar_def)
qed

lemma grant_run_invar: "grant_invar su s \<Longrightarrow> grant_invar su (grant_run su txs s)"
  by (induction txs arbitrary: s) (auto simp: grant_tx_invar)

text \<open>A revoked grant stays revoked: no transaction clears the mark or drops the row.\<close>

definition revoked_in :: "string \<Rightarrow> grant_state \<Rightarrow> bool" where
  "revoked_in gid s = (case row_of gr_id (gt_grants s) gid of Some r \<Rightarrow> gr_revoked_at r \<noteq> None | None \<Rightarrow> False)"

lemma gt_grants_mint: "gt_grants (snd (mint_session env hs now b c s)) = gt_grants s"
  by (auto simp: mint_session_def Let_def split: sum.splits)

lemma revoked_in_step: "revoked_in gid s \<Longrightarrow> revoked_in gid (grant_tx_step su now tx s)"
  by (cases tx)
     (auto simp: revoked_in_def gt_grants_mint store_grant_def grant_create_def row_of_append revoke_grant_def
        row_of_revoke check_nonce_replay_state split: sum.splits option.splits)

lemma revoked_in_run: "revoked_in gid s \<Longrightarrow> revoked_in gid (grant_run su txs s)"
  by (induction txs arbitrary: s) (auto simp: revoked_in_step)

section \<open>Resolving a bearer\<close>

lemma get_grant_ok:
  "get_grant gid s = Ok g \<longleftrightarrow> (\<exists>r. row_of gr_id (gt_grants s) gid = Some r \<and> grant_from_row (gt_users s) r = Ok g)"
  by (auto simp: get_grant_def map_not_found_def grant_get_by_id_def and_then_ok_iff)

lemma require_active_ok: "require_active g n = Ok u \<longleftrightarrow> ge_revoked_at g = None \<and> n < ge_expires_at g"
  by (auto simp: require_active_def)

lemma validate_entity_ok:
  "validate_active_grant_session_entity now n s = Ok g \<longleftrightarrow> int (unix_secs now) < sn_expires_at n \<and>
     get_grant (sn_grant_id n) s = Ok g \<and> ge_revoked_at g = None \<and> int (unix_secs now) < ge_expires_at g"
  unfolding validate_active_grant_session_entity_def
  by (auto simp: and_then_ok_iff require_active_ok not_le)

lemma resolve_ok:
  "resolve_grant_session_by_bearer env now bearer s = Ok sess \<longleftrightarrow>
   (\<exists>n g. row_of sn_token_hash (gt_sessions s) (js_hash env bearer) = Some n \<and>
     int (unix_secs now) < sn_expires_at n \<and> get_grant (sn_grant_id n) s = Ok g \<and>
     ge_revoked_at g = None \<and> int (unix_secs now) < ge_expires_at g \<and>
     sess = \<lparr>gs_user_key = ge_user_pubkey g, gs_capabilities = ge_capabilities g,
       gs_grant_id = sn_grant_id n, gs_token_expires_at = nat (sn_expires_at n), gs_token_hash = sn_token_hash n\<rparr>)"
  by (auto simp: resolve_grant_session_by_bearer_def and_then_ok_iff map_not_found_def
      session_get_by_token_hash_def validate_entity_ok)

lemma grant_from_row_backed:
  assumes "jws_sound env" and "user_invar users" and "backed_by env users r claims"
  shows "grant_from_row users r = Ok \<lparr>ge_id = gc_jti claims, ge_user_id = gr_user r, ge_user_pubkey = gc_iss claims,
    ge_client_id = gc_client_id claims, ge_client_cnf_key = z32 (gc_cnf claims), ge_capabilities = gc_caps claims,
    ge_issued_at = wrap_i64 (int (gc_iat claims)), ge_expires_at = wrap_i64 (int (gc_exp claims)),
    ge_revoked_at = gr_revoked_at r, ge_created_at = gr_created_at r\<rparr>"
proof -
  obtain jws u where b: "verify_grant_for_revocation env jws = Ok claims" "user_get (gc_iss claims) users = Ok u"
    "ue_id u = gr_user r" "gr_id r = gc_jti claims" "gr_client_id r = gc_client_id claims"
    "gr_client_cnf_key r = z32 (gc_cnf claims)" "gr_capabilities r = capabilities_to_string (gc_caps claims)"
    "gr_issued_at r = wrap_i64 (int (gc_iat claims))" "gr_expires_at r = wrap_i64 (int (gc_exp claims))"
    using assms(3) unfolding backed_by_def by blast
  have "js_verify_grant env (gc_iss claims) jws = Some claims" by (rule verified_grant_signed [OF assms(1) b(1)])
  then have "list_all wf_capability (gc_caps claims)" "random_id_parse (gc_jti claims) = Some (gc_jti claims)"
    "client_id_new (gc_client_id claims) = Some (gc_client_id claims)"
    using assms(1) unfolding jws_sound_def by blast+
  moreover have "row_of ue_id (ut_rows users) (gr_user r) = Some u" "ue_public_key u = gc_iss claims"
    using user_row_by_id [OF assms(2) b(2)] user_getD [OF b(2)] b(3) by simp_all
  ultimately show ?thesis using b by (simp add: grant_from_row_def capabilities_round_trip)
qed


lemma wrap_i64_pos: "x < 2 ^ 64 \<Longrightarrow> 0 \<le> wrap_i64 (int x) \<Longrightarrow> x < 2 ^ 63 \<and> wrap_i64 (int x) = int x"
proof (rule ccontr)
  assume a: "x < 2 ^ 64" "0 \<le> wrap_i64 (int x)" "\<not> (x < 2 ^ 63 \<and> wrap_i64 (int x) = int x)"
  then have "2 ^ 63 \<le> int x" using wrap_i64_id [of "int x"] by fastforce
  moreover have "int x < 2 ^ 64" using a(1) by simp
  ultimately have "(int x + 2 ^ 63) mod 2 ^ 64 = int x + 2 ^ 63 - 2 ^ 64" by (subst mod_pos_geq) simp_all
  with a(2) \<open>int x < 2 ^ 64\<close> show False by (simp add: wrap_i64_def)
qed

text \<open>What a bearer that resolves is worth.\<close>

lemma resolved_grant_signed:
  assumes "jws_sound (su_env su)" and inv: "grant_invar su s"
    and "resolve_grant_session_by_bearer (su_env su) now bearer s = Ok sess"
  shows "\<exists>jws claims. js_verify_grant (su_env su) (gs_user_key sess) jws = Some claims \<and>
    gs_capabilities sess = gc_caps claims \<and> gs_grant_id sess = gc_jti claims \<and>
    unix_secs now < gc_exp claims \<and> unix_secs now < gs_token_expires_at sess \<and>
    \<not> revoked_in (gs_grant_id sess) s"
proof -
  have users: "user_invar (gt_users s)" using inv by (simp add: grant_invar_def signup_invar_def)
  obtain n :: grant_session_row and g where n: "int (unix_secs now) < sn_expires_at n" "get_grant (sn_grant_id n) s = Ok g"
    "ge_revoked_at g = None" "int (unix_secs now) < ge_expires_at g"
    and sess: "sess = \<lparr>gs_user_key = ge_user_pubkey g, gs_capabilities = ge_capabilities g,
       gs_grant_id = sn_grant_id n, gs_token_expires_at = nat (sn_expires_at n), gs_token_hash = sn_token_hash n\<rparr>"
    using assms(3) unfolding resolve_ok by blast
  obtain r where r: "row_of gr_id (gt_grants s) (sn_grant_id n) = Some r" "grant_from_row (gt_users s) r = Ok g"
    using n(2) unfolding get_grant_ok by blast
  obtain claims where b: "backed_by (su_env su) (gt_users s) r claims"
    using inv row_of_SomeD [OF r(1)] unfolding grant_invar_def by blast
  then obtain jws where jws: "verify_grant_for_revocation (su_env su) jws = Ok claims" "gr_id r = gc_jti claims"
    unfolding backed_by_def by blast
  note g = grant_from_row_backed [OF assms(1) users b]
  have signed: "js_verify_grant (su_env su) (gc_iss claims) jws = Some claims"
    by (rule verified_grant_signed [OF assms(1) jws(1)])
  then have "gc_exp claims < 2 ^ 64" using assms(1) unfolding jws_sound_def by blast
  moreover have "int (unix_secs now) < wrap_i64 (int (gc_exp claims))" using n(4) r(2) g by auto
  ultimately have "unix_secs now < gc_exp claims" using wrap_i64_pos [of "gc_exp claims"] by fastforce
  moreover have "\<not> revoked_in (sn_grant_id n) s" using r g n(3) by (auto simp: revoked_in_def)
  moreover have "gs_user_key sess = gc_iss claims" "gs_capabilities sess = gc_caps claims"
    "gs_grant_id sess = gc_jti claims" "unix_secs now < gs_token_expires_at sess"
    using r g sess n(1) jws(2) row_of_SomeD [OF r(1)] by auto
  ultimately show ?thesis using signed sess by auto
qed

section \<open>The nonce tracker is a replay store\<close>

definition nonce_step :: "nonce_table \<Rightarrow> int \<Rightarrow> string \<Rightarrow> nonce_table" where
  "nonce_step t now nonce =
     snd (nonce_check_and_track now nonce (nonce_garbage_collect now POP_NONCE_GC_THRESHOLD_SECS t))"

definition nonce_accepts :: "nonce_table \<Rightarrow> int \<Rightarrow> string \<Rightarrow> string \<Rightarrow> bool" where
  "nonce_accepts t now nonce k \<longleftrightarrow> nonce = k \<and>
     fst (nonce_check_and_track now nonce (nonce_garbage_collect now POP_NONCE_GC_THRESHOLD_SECS t))"

definition NONCE_RETENTION :: int where "NONCE_RETENTION = int POP_NONCE_GC_THRESHOLD_SECS * 1000000"

definition nonce_until :: "nonce_table \<Rightarrow> string \<Rightarrow> int" where
  "nonce_until t k = (case row_of fst t k of Some r \<Rightarrow> snd r + NONCE_RETENTION + 1 | None \<Rightarrow> 0)"

lemma row_of_gc: "keyed fst t \<Longrightarrow>
  row_of fst (nonce_garbage_collect now POP_NONCE_GC_THRESHOLD_SECS t) k =
  (case row_of fst t k of Some r \<Rightarrow> if snd r + NONCE_RETENTION < now then None else Some r | None \<Rightarrow> None)"
  by (auto simp: nonce_garbage_collect_def Let_def row_of_delete_where NONCE_RETENTION_def split: option.splits)

lemma keyed_gc: "keyed fst t \<Longrightarrow> keyed fst (nonce_garbage_collect now n t)"
  by (simp add: nonce_garbage_collect_def Let_def)

lemma row_of_track: "row_of fst (snd (nonce_check_and_track now nonce t)) k =
  (case row_of fst t k of Some r \<Rightarrow> Some r | None \<Rightarrow> if k = nonce then Some (nonce, now) else None)"
  by (auto simp: nonce_check_and_track_def row_of_append row_of_Cons split: option.splits)

lemma row_of_nonce_step: "keyed fst t \<Longrightarrow> row_of fst (nonce_step t now nonce) k =
  (case row_of fst t k of
     Some r \<Rightarrow> if snd r + NONCE_RETENTION < now then (if k = nonce then Some (nonce, now) else None) else Some r
   | None \<Rightarrow> if k = nonce then Some (nonce, now) else None)"
  by (simp add: nonce_step_def row_of_track row_of_gc split: option.splits)

interpretation nonce_store: replay_store
  "\<lambda>t k. row_of fst t k \<noteq> None" nonce_until nonce_step "\<lambda>_ _. False" "keyed fst" nonce_accepts
proof (unfold_locales, goal_cases)
  case (1 t n op)
  then show ?case by (simp add: nonce_step_def keyed_nonces)
next
  case (2 t k n op)
  then show ?case by (auto simp: row_of_nonce_step nonce_until_def split: option.splits)
next
  case (3 t k n op)
  then show ?case by (auto simp: row_of_nonce_step nonce_until_def split: option.splits)
next
  case (4 t n op k)
  then show ?case by (auto simp: row_of_nonce_step nonce_accepts_def split: option.splits)
next
  case (5 t k n op)
  then show ?case
    by (auto simp: nonce_accepts_def nonce_check_and_track_def row_of_gc nonce_until_def split: option.splits if_splits)
qed

lemma check_nonce_replay_ok: "fst (check_nonce_replay now pop s) = Ok () \<longleftrightarrow> nonce_accepts (gt_nonces s) now (pp_nonce pop) (pp_nonce pop)"
  by (auto simp: check_nonce_replay_def nonce_accepts_def Let_def split: prod.splits)

fun nonce_ops :: "(int \<times> grant_tx) list \<Rightarrow> (int \<times> string) list" where
  "nonce_ops [] = []"
| "nonce_ops ((now, NonceTx pop) # txs) = (now, pp_nonce pop) # nonce_ops txs"
| "nonce_ops (_ # txs) = nonce_ops txs"

lemma gt_nonces_tx: "gt_nonces (grant_tx_step su now tx s) = (case tx of
    NonceTx pop \<Rightarrow> nonce_step (gt_nonces s) now (pp_nonce pop) | _ \<Rightarrow> gt_nonces s)"
  by (cases tx) (auto simp: store_grant_def revoke_grant_def mint_session_def Let_def check_nonce_replay_state
      nonce_step_def split: sum.splits)

lemma gt_nonces_run:
  "gt_nonces (grant_run su txs s) = foldl (\<lambda>t (n, op). nonce_step t n op) (gt_nonces s) (nonce_ops txs)"
  by (induction txs arbitrary: s rule: nonce_ops.induct)
     (simp_all add: gt_nonces_tx del: grant_tx_step.simps)

lemma nonce_ops_times: "(n, op) \<in> set (nonce_ops txs) \<Longrightarrow> \<exists>tx. (n, tx) \<in> set txs"
  by (induction txs rule: nonce_ops.induct) auto

lemma nonce_until_accepted: "keyed fst t \<Longrightarrow> nonce_accepts t now k k \<Longrightarrow> nonce_until (nonce_step t now k) k = now + NONCE_RETENTION + 1"
  by (auto simp: nonce_until_def row_of_nonce_step nonce_accepts_def nonce_check_and_track_def row_of_gc
      split: option.splits if_splits)

lemma pop_verify_window:
  "pop_verify env now jws cnf aud gid = Ok pop \<Longrightarrow> abs_diff (unix_secs now) (pp_issued_at pop) \<le> POP_MAX_AGE_SECS"
  by (auto simp: pop_verify_def and_then_ok_iff check_timestamp_def parse_verified_pop_def split: if_splits)

section \<open>Examples\<close>

text \<open>A concrete library environment with one grant and one proof, and a server with
  one user.  They satisfy the hypotheses of the properties below.\<close>

definition example_claims :: grant_claims where
  "example_claims = \<lparr>gc_iss = PublicKey ''u'', gc_client_id = ''app'', gc_caps = [], gc_cnf = PublicKey ''c'',
     gc_jti = ''gid'', gc_iat = 1000, gc_exp = 9000\<rparr>"

definition example_pop :: pop_claims where
  "example_pop = \<lparr>pc_aud = PublicKey ''hs'', pc_gid = ''gid'', pc_nonce = ''n'', pc_iat = 1180\<rparr>"

definition example_env :: jws_env where
  "example_env = \<lparr>js_base64_decode = Some,
     js_grant_json = (\<lambda>p. if p = ''p'' then Some example_claims else None),
     js_verify_grant = (\<lambda>k j. if k = PublicKey ''u'' \<and> j = ''h.p.s'' then Some example_claims else None),
     js_verify_pop = (\<lambda>k j. if k = PublicKey ''c'' \<and> j = ''h.q.s'' then Some example_pop else None),
     js_header_typ = (\<lambda>j. if j = ''h.p.s'' then Some (Some GRANT_JWS_TYP) else Some (Some POP_JWS_TYP)),
     js_hash = (\<lambda>b. b), js_is_date = (\<lambda>_. True)\<rparr>"

definition example_setup :: grant_setup where
  "example_setup = \<lparr>su_env = example_env, su_homeserver = PublicKey ''hs'', su_to_json = (\<lambda>_. []), su_from_json = (\<lambda>_. None)\<rparr>"

definition example_state :: grant_state where
  "example_state = \<lparr>gt_accounts = \<lparr>ss_service = \<lparr>us_db = \<lparr>ut_rows = [\<lparr>ue_id = 1, ue_public_key = PublicKey ''u'',
       ue_created_at = 0, ue_disabled = False, ue_used_bytes = 0, ue_quota_columns = NULL_COLUMNS\<rparr>], ut_seq = 2\<rparr>,
       us_cache = []\<rparr>, ss_codes = []\<rparr>, gt_grants = [], gt_sessions = [], gt_nonces = [], gt_notified = []\<rparr>"

lemma example_payload: "decode_grant_payload example_env ''h.p.s'' = Some example_claims"
  by code_simp

lemma example_jws_sound: "jws_sound (su_env example_setup)"
proof -
  have "random_id_parse (gc_jti example_claims) = Some (gc_jti example_claims)"
    "client_id_new (gc_client_id example_claims) = Some (gc_client_id example_claims)"
    "list_all wf_capability (gc_caps example_claims)" "gc_exp example_claims < 2 ^ 64"
    by (code_simp, code_simp, simp_all add: example_claims_def)
  with example_payload show ?thesis
    by (auto simp: jws_sound_def example_setup_def example_env_def split: if_splits)
qed

lemma example_accounts: "signup_invar (su_from_json example_setup) (gt_accounts example_state)"
  by (simp add: signup_invar_def user_invar_def cache_coherent_def keyed_def example_state_def)

lemma example_invar: "grant_invar example_setup example_state"
  using example_accounts by (simp add: grant_invar_def example_state_def)

section \<open>Properties\<close>

text \<open>C9: What a bearer is worth: in every state reached from one without grants by any
  interleaving of grant transactions and account operations, a bearer that
  resolves stands for a grant that was signed with the key of the user it acts
  for, carries exactly the capabilities the user signed, has not been revoked, and
  neither the grant nor the bearer has expired.\<close>

theorem bearer_backed_by_signed_grant:
  assumes "jws_sound (su_env su)" and "signup_invar (su_from_json su) (gt_accounts s)"
    and "gt_grants s = []" and "gt_sessions s = []" and "gt_nonces s = []"
    and "resolve_grant_session_by_bearer (su_env su) now bearer (grant_run su txs s) = Ok sess"
  shows "\<exists>jws claims. js_verify_grant (su_env su) (gs_user_key sess) jws = Some claims \<and>
    gs_capabilities sess = gc_caps claims \<and> gs_grant_id sess = gc_jti claims \<and>
    unix_secs now < gc_exp claims \<and> unix_secs now < gs_token_expires_at sess \<and>
    \<not> revoked_in (gs_grant_id sess) (grant_run su txs s)"
proof -
  have "grant_invar su s" using assms(2-5) by (simp add: grant_invar_def)
  from resolved_grant_signed [OF assms(1) grant_run_invar [OF this] assms(6)] show ?thesis .
qed

theorem bearer_backed_by_signed_grant_witness:
  "let s = grant_run example_setup [(1100000000, StoreGrantTx ''h.p.s''), (1100000001, MintTx ''h.p.s'' ''b'')] example_state
   in case resolve_grant_session_by_bearer example_env 1200000000 ''b'' s of
        Inl _ \<Rightarrow> False
      | Inr sess \<Rightarrow> \<exists>jws claims. js_verify_grant example_env (gs_user_key sess) jws = Some claims \<and>
          gs_capabilities sess = gc_caps claims"
proof -
  let ?txs = "[(1100000000, StoreGrantTx ''h.p.s''), (1100000001, MintTx ''h.p.s'' ''b'')]"
  let ?r = "resolve_grant_session_by_bearer (su_env example_setup) 1200000000 ''b'' (grant_run example_setup ?txs example_state)"
  have "(case ?r of Inl _ \<Rightarrow> False | Inr _ \<Rightarrow> True)" by code_simp
  then obtain sess where r: "?r = Ok sess" by (cases ?r) simp_all
  have empty: "gt_grants example_state = []" "gt_sessions example_state = []" "gt_nonces example_state = []"
    by (simp_all add: example_state_def)
  have env: "su_env example_setup = example_env" by (simp add: example_setup_def)
  from bearer_backed_by_signed_grant [OF example_jws_sound example_accounts empty r]
  show ?thesis using r unfolding env Let_def by auto
qed







end
