(* ===== verification/Auth_Routes.thy ===== *)
theory Auth_Routes
  imports Tenant_Routes Cookie_Auth Grant_Auth
begin

text \<open>
  The authentication of a request and the routes around sessions: the composed
  authentication layer (\<^verbatim>\<open>client_server/auth/middleware/authentication.rs\<close>), the answers to
  errors (\<^verbatim>\<open>grant/error_mapping.rs\<close>, \<^verbatim>\<open>shared/http_error.rs\<close>), the cookie routes
  (\<^verbatim>\<open>cookie/routes.rs\<close>), the grant routes (\<^verbatim>\<open>grant/routes.rs\<close>) with the queries of the grant
  service they use (\<^verbatim>\<open>grant/service.rs\<close>), the account of the caller (\<^verbatim>\<open>routes/account.rs\<close>,
  \<^verbatim>\<open>shared/user_item.rs\<close>) and the status of a signup token (\<^verbatim>\<open>routes/signup_tokens.rs\<close>).
  A JSON body is the value it encodes; the binary encoding of a session record and the
  parsing of a host belong to third-party packages and are parameters.
\<close>

section \<open>Model: authentication of a request\<close>

text \<open>The headers a request authenticates with: \<^verbatim>\<open>Authorization\<close>, and the cookies.\<close>

record credentials =
  cr_authorization :: "string option"
  cr_cookies :: "(string \<times> string) list option"

definition authentication_layer ::
  "jws_env \<Rightarrow> int \<Rightarrow> credentials \<Rightarrow> request_tenant option \<Rightarrow> cookie_state \<Rightarrow> grant_state \<Rightarrow> auth_session option" where
  "authentication_layer env now cred tenant ck gt =
     cookie_middleware (grant_middleware env now (cr_authorization cred) gt) (cr_cookies cred) tenant ck"

section \<open>Model: answers to errors\<close>

fun grant_error_message :: "grant_error \<Rightarrow> string" where
  "grant_error_message GrantInvalidFormat = ''invalid grant format''"
| "grant_error_message GrantInvalidHeaderType = ''invalid grant header type, expected pubky-grant''"
| "grant_error_message GrantInvalidSignature = ''invalid grant signature''"
| "grant_error_message GrantClaimExpired = ''grant has expired''"

fun pop_error_message :: "pop_error \<Rightarrow> string" where
  "pop_error_message PopInvalidFormat = ''invalid PoP format''"
| "pop_error_message PopInvalidHeaderType = ''invalid PoP header type, expected pubky-pop''"
| "pop_error_message PopInvalidSignature = ''invalid PoP signature''"
| "pop_error_message AudienceMismatch = ''PoP audience mismatch''"
| "pop_error_message GrantIdMismatch = ''PoP grant ID mismatch''"
| "pop_error_message TimestampOutOfRange = ''PoP timestamp out of range''"
| "pop_error_message InvalidTimestamp = ''invalid timestamp in PoP proof''"

fun auth_service_http_error :: "auth_service_error \<Rightarrow> http_error" where
  "auth_service_http_error (InvalidGrant inner) =
     (let message = ''Invalid grant: '' @ grant_error_message inner in
      if inner = GrantInvalidSignature \<or> inner = GrantClaimExpired then unauthorized_with_message message
      else bad_request message)"
| "auth_service_http_error (InvalidPopProof inner) = unauthorized_with_message (''Invalid PoP proof: '' @ pop_error_message inner)"
| "auth_service_http_error Grant_Auth.UserNotFound = not_found"
| "auth_service_http_error GrantNotFound = not_found"
| "auth_service_http_error (GrantSignup e) = signup_http_error e"
| "auth_service_http_error NonceReplay = unauthorized_with_message ''PoP nonce already used''"
| "auth_service_http_error GrantRevoked = unauthorized_with_message ''Grant has been revoked''"
| "auth_service_http_error GrantExpired = unauthorized_with_message ''Grant has expired''"
| "auth_service_http_error (InvalidSignupGrant message) = bad_request message"
| "auth_service_http_error SessionNotFound = unauthorized_with_message ''Session not found''"
| "auth_service_http_error SessionExpired = unauthorized_with_message ''Session has expired''"
| "auth_service_http_error GrantOwnershipMismatch = forbidden_with_message ''Grant does not belong to authenticated user''"
| "auth_service_http_error GrantClaimsMismatch =
     forbidden_with_message ''Grant ID is already stored for another user or with different claims''"
| "auth_service_http_error RootCapabilityRequired = forbidden_with_message ''Root capability required''"
| "auth_service_http_error (AuthInternal e) = internal_server"

text \<open>The message of a token that does not parse comes from the binary codec.\<close>

fun auth_error_message :: "string \<Rightarrow> auth_error \<Rightarrow> string" where
  "auth_error_message parsing UnknownVersion = ''Unknown version''"
| "auth_error_message parsing TooFarInTheFuture = ''AuthToken has a timestamp that is more than 3 minutes in the future''"
| "auth_error_message parsing Expired = ''AuthToken has a timestamp that is more than 3 minutes in the past''"
| "auth_error_message parsing InvalidSignature = ''Invalid Signature''"
| "auth_error_message parsing AlreadyUsed = ''AuthToken already used''"
| "auth_error_message parsing Parsing = parsing"
| "auth_error_message parsing Unreachable = parsing"

fun cookie_http_error :: "string \<Rightarrow> cookie_error \<Rightarrow> http_error" where
  "cookie_http_error parsing (CookieAuth e) = bad_request (auth_error_message parsing e)"
| "cookie_http_error parsing (CookieHttp e) = e"

section \<open>Model: cookie routes\<close>

record cookie_session_record =
  cs_version :: nat
  cs_public_key :: public_key
  cs_created_at :: nat
  cs_name :: string
  cs_user_agent :: string
  cs_capabilities :: capabilities

definition session_record_new :: "nat \<Rightarrow> public_key \<Rightarrow> capabilities \<Rightarrow> string option \<Rightarrow> cookie_session_record" where
  "session_record_new now pk caps user_agent =
     (let agent = (case user_agent of Some a \<Rightarrow> a | None \<Rightarrow> []) in
      \<lparr>cs_version = 0, cs_public_key = pk, cs_created_at = now, cs_name = agent, cs_user_agent = agent,
       cs_capabilities = caps\<rparr>)"

definition creation_to_record :: "nat \<Rightarrow> cookie_session_creation \<Rightarrow> cookie_session_record" where
  "creation_to_record now c = session_record_new now (cc_public_key c) (cc_capabilities c) None"

definition to_legacy :: "session_entity \<Rightarrow> cookie_session_record" where
  "to_legacy session =
     (session_record_new 0 (se_user_pubkey session) (se_capabilities session) None)\<lparr>cs_created_at := unix_secs (se_created_at session)\<rparr>"

record cookie =
  co_name :: string
  co_value :: string
  co_path :: "string option"
  co_secure :: bool
  co_same_site_none :: bool
  co_http_only :: bool
  co_max_age :: "int option"
  co_expires :: "int option"

definition cookie_new :: "string \<Rightarrow> string \<Rightarrow> cookie" where
  "cookie_new name val = \<lparr>co_name = name, co_value = val, co_path = None, co_secure = False, co_same_site_none = False,
     co_http_only = False, co_max_age = None, co_expires = None\<rparr>"

datatype url_host = Domain string | Ipv4 | Ipv6

record cookie_env =
  cv_key_parser :: key_parser
  cv_parse_host :: "string \<Rightarrow> url_host option"
  cv_make_removal :: "cookie \<Rightarrow> cookie"
  cv_serialize :: "cookie_session_record \<Rightarrow> string"
  cv_parsing_message :: string

definition is_secure :: "cookie_env \<Rightarrow> string \<Rightarrow> bool" where
  "is_secure env host =
     (if cv_key_parser env host \<noteq> None then True
      else case cv_parse_host env host of
             Some (Domain domain) \<Rightarrow> CHR ''.'' \<in> set domain
           | _ \<Rightarrow> False)"

definition configure_session_cookie :: "cookie_env \<Rightarrow> string \<Rightarrow> cookie \<Rightarrow> cookie" where
  "configure_session_cookie env host c =
     (let c = c\<lparr>co_path := Some ''/''\<rparr>;
          c = (if is_secure env host then c\<lparr>co_secure := True, co_same_site_none := True\<rparr> else c)
      in c\<lparr>co_http_only := True\<rparr>)"

definition ONE_YEAR :: int where "ONE_YEAR = 365 * 24 * 60 * 60"

definition create_session_cookie_response ::
  "cookie_env \<Rightarrow> int \<Rightarrow> string \<Rightarrow> cookie_session_creation \<Rightarrow> cookie \<times> response" where
  "create_session_cookie_response env now host session =
     ((configure_session_cookie env host (cookie_new (z32 (cc_public_key session)) (cc_session_secret session)))
        \<lparr>co_max_age := Some ONE_YEAR, co_expires := Some (int (unix_secs now) + ONE_YEAR)\<rparr>,
      \<lparr>resp_status = 200, resp_headers = [''content-type'' \<mapsto> ''application/octet-stream''],
       resp_body = cv_serialize env (creation_to_record (nat now) session)\<rparr>)"

definition parse_signup_token :: "(string \<Rightarrow> nat list option) \<Rightarrow> string option \<Rightarrow> (http_error, string option) result" where
  "parse_signup_token decode token =
     (case token of
        None \<Rightarrow> Ok None
      | Some t \<Rightarrow> map_ok Some (ok_or (bad_request ''Invalid signup token format: Invalid signup code id'') (signup_code_new decode t)))"

text \<open>The parts of the setup both kinds of signup use.\<close>

record signup_setup =
  sg_to_json :: "storage_path list \<Rightarrow> string"
  sg_from_json :: "string \<Rightarrow> storage_path list option"
  sg_mode :: signup_mode
  sg_decode :: "string \<Rightarrow> nat list option"

definition cookie_signup_route ::
  "auth_env \<Rightarrow> cookie_env \<Rightarrow> signup_setup \<Rightarrow> request_clock \<Rightarrow> string \<Rightarrow> string \<Rightarrow> string option \<Rightarrow> string \<Rightarrow> cookie_state \<Rightarrow>
   (http_error, cookie \<times> response) result \<times> cookie_state" where
  "cookie_signup_route env cenv sg clock secret host token_param body s =
     st_then (parse_signup_token (sg_decode sg) token_param, s) (\<lambda>signup_token s.
     (case cookie_signup env (sg_to_json sg) (sg_from_json sg) (sg_mode sg) clock secret body signup_token s of
        (r, s) \<Rightarrow> (map_ok (create_session_cookie_response cenv (rc_gc clock) host)
                      (map_err (cookie_http_error (cv_parsing_message cenv)) r), s)))"

definition cookie_signin_route ::
  "auth_env \<Rightarrow> cookie_env \<Rightarrow> request_clock \<Rightarrow> string \<Rightarrow> string \<Rightarrow> string \<Rightarrow> cookie_state \<Rightarrow>
   (http_error, cookie \<times> response) result \<times> cookie_state" where
  "cookie_signin_route env cenv clock secret host body s =
     (case cookie_signin env clock secret body s of
        (r, s) \<Rightarrow> (map_ok (create_session_cookie_response cenv (rc_gc clock) host)
                      (map_err (cookie_http_error (cv_parsing_message cenv)) r), s))"

definition cookie_get_session_route :: "cookie_env \<Rightarrow> auth_session option \<Rightarrow> (http_error, response) result" where
  "cookie_get_session_route cenv session =
     and_then (require_session session) (\<lambda>auth.
       case auth of
         CookieSession c \<Rightarrow> Ok \<lparr>resp_status = 200, resp_headers = [''content-type'' \<mapsto> ''application/octet-stream''],
           resp_body = cv_serialize cenv (to_legacy c)\<rparr>
       | GrantAuthSession _ \<Rightarrow> Err unauthorized)"

definition cookie_signout_route ::
  "cookie_env \<Rightarrow> auth_session option \<Rightarrow> string \<Rightarrow> request_tenant \<Rightarrow> cookie_state \<Rightarrow> (cookie \<times> response) \<times> cookie_state" where
  "cookie_signout_route cenv auth host tenant s =
     ((configure_session_cookie cenv host (cv_make_removal cenv (cookie_new (z32 (rt_public_key tenant)) [])), plain_response 200),
      cookie_signout auth s)"

section \<open>Model: grant routes\<close>

record grant_info =
  gi_grant_id :: string
  gi_client_id :: string
  gi_capabilities :: string
  gi_issued_at :: nat
  gi_expires_at :: nat

definition grant_info_from_entity :: "grant_entity \<Rightarrow> grant_info" where
  "grant_info_from_entity g =
     \<lparr>gi_grant_id = ge_id g, gi_client_id = ge_client_id g, gi_capabilities = capabilities_to_string (ge_capabilities g),
      gi_issued_at = nat (ge_issued_at g mod 2 ^ 64), gi_expires_at = nat (ge_expires_at g mod 2 ^ 64)\<rparr>"

record create_grant_session_request =
  cg_grant :: string
  cg_pop :: string

definition create_grant_session_route ::
  "jws_env \<Rightarrow> public_key \<Rightarrow> int \<Rightarrow> string \<Rightarrow> create_grant_session_request \<Rightarrow> grant_state \<Rightarrow>
   (http_error, grant_session_response) result \<times> grant_state" where
  "create_grant_session_route env homeserver now bearer req s =
     (case create_grant_session env homeserver now bearer (cg_grant req) (cg_pop req) s of
        (r, s) \<Rightarrow> (map_err auth_service_http_error r, s))"

definition grant_signup_route ::
  "jws_env \<Rightarrow> public_key \<Rightarrow> signup_setup \<Rightarrow> int \<Rightarrow> string option \<Rightarrow> create_grant_session_request \<Rightarrow> grant_state \<Rightarrow>
   (http_error, response) result \<times> grant_state" where
  "grant_signup_route env homeserver sg now token_param req s =
     st_then (parse_signup_token (sg_decode sg) token_param, s) (\<lambda>signup_token s.
     (case signup_grant_account env homeserver (sg_to_json sg) (sg_from_json sg) (sg_mode sg) now (cg_grant req) (cg_pop req)
         signup_token s of
        (r, s) \<Rightarrow> (map_ok (\<lambda>_. plain_response 204) (map_err auth_service_http_error r), s)))"

record grant_session_info =
  gn_homeserver :: public_key
  gn_pubky :: public_key
  gn_client_id :: string
  gn_capabilities :: capabilities
  gn_grant_id :: string
  gn_token_expires_at :: nat
  gn_grant_expires_at :: nat
  gn_created_at :: nat

definition get_grant_session_info ::
  "public_key \<Rightarrow> grant_session \<Rightarrow> grant_state \<Rightarrow> (auth_service_error, grant_session_info) result" where
  "get_grant_session_info homeserver session s =
     and_then (get_grant (gs_grant_id session) s) (\<lambda>grant.
     Ok \<lparr>gn_homeserver = homeserver, gn_pubky = gs_user_key session, gn_client_id = ge_client_id grant,
         gn_capabilities = gs_capabilities session, gn_grant_id = gs_grant_id session,
         gn_token_expires_at = gs_token_expires_at session, gn_grant_expires_at = nat (ge_expires_at grant mod 2 ^ 64),
         gn_created_at = unix_secs (ge_created_at grant)\<rparr>)"

definition grant_get_session_route ::
  "public_key \<Rightarrow> auth_session option \<Rightarrow> grant_state \<Rightarrow> (http_error, grant_session_info) result" where
  "grant_get_session_route homeserver session s =
     and_then (require_session session) (\<lambda>auth.
       case auth of
         GrantAuthSession g \<Rightarrow> map_err auth_service_http_error (get_grant_session_info homeserver g s)
       | CookieSession _ \<Rightarrow> Err unauthorized)"

definition signout_grant_session :: "int \<Rightarrow> grant_session \<Rightarrow> grant_state \<Rightarrow> grant_state" where
  "signout_grant_session now session s = revoke_grant now (gs_grant_id session) s"

definition grant_signout_route ::
  "jws_env \<Rightarrow> public_key \<Rightarrow> int \<Rightarrow> auth_session option \<Rightarrow> create_grant_session_request option \<Rightarrow> grant_state \<Rightarrow>
   (http_error, response) result \<times> grant_state" where
  "grant_signout_route env homeserver now auth proof_body s =
     (case proof_body of
        Some p \<Rightarrow>
          (case signout_with_proof env homeserver now (cg_grant p) (cg_pop p) s of
             (r, s) \<Rightarrow> (map_ok (\<lambda>_. plain_response 200) (map_err auth_service_http_error r), s))
      | None \<Rightarrow>
          (case auth of
             Some (GrantAuthSession g) \<Rightarrow> (Ok (plain_response 200), signout_grant_session now g s)
           | _ \<Rightarrow> (Ok (plain_response 200), s)))"

definition list_active_grants :: "int \<Rightarrow> int \<Rightarrow> grant_state \<Rightarrow> (auth_service_error, grant_entity list) result" where
  "list_active_grants now user_id s = map_err AuthInternal (list_active_for_user now user_id (gt_users s) (gt_grants s))"

definition list_grants_route ::
  "int \<Rightarrow> auth_session option \<Rightarrow> grant_state \<Rightarrow> (http_error, grant_info list) result" where
  "list_grants_route now session s =
     and_then (require_session session) (\<lambda>auth.
     map_err auth_service_http_error
       (and_then (require_root_capability auth) (\<lambda>_.
        and_then (resolve_user_id auth s) (\<lambda>user_id.
        map_ok (map grant_info_from_entity) (list_active_grants now user_id s)))))"

definition revoke_grant_route ::
  "int \<Rightarrow> auth_session option \<Rightarrow> string \<Rightarrow> grant_state \<Rightarrow> (http_error, response) result \<times> grant_state" where
  "revoke_grant_route now session grant_id s =
     st_then (require_session session, s) (\<lambda>auth s.
     st_then (map_err auth_service_http_error (require_root_capability auth), s) (\<lambda>_ s.
     st_then (ok_or (new_with_message 400 ''Invalid grant ID format'') (random_id_parse grant_id), s) (\<lambda>gid s.
     (case revoke_user_grant now gid auth s of
        (r, s) \<Rightarrow> (map_ok (\<lambda>_. plain_response 200) (map_err auth_service_http_error r), s)))))"

section \<open>Model: the account and the signup token\<close>

datatype signup_token_status = TokenValid | TokenUsed

definition signup_token_route ::
  "signup_setup \<Rightarrow> string \<Rightarrow> signup_table \<Rightarrow> (http_error, signup_token_status \<times> int) result" where
  "signup_token_route sg token codes =
     and_then (ensure (sg_mode sg = TokenRequired) (new_with_message 400 ''Signup tokens not required'')) (\<lambda>_.
     and_then (ok_or (new_with_message 400 ''Invalid signup token format: Invalid signup code id'') (signup_code_new (sg_decode sg) token)) (\<lambda>code_id.
     and_then (case signup_code_get code_id codes of
         Inr code \<Rightarrow> Ok code
       | Inl RowNotFound \<Rightarrow> Err (new_with_message 404 ''Token not found'')
       | Inl _ \<Rightarrow> Err internal_server) (\<lambda>code.
     Ok (if sc_used_by code \<noteq> None then TokenUsed else TokenValid, sc_created_at code))))"

record user_quota_response =
  qr_effective :: user_quota
  qr_overrides :: user_quota

definition user_quota_response_new ::
  "(string \<Rightarrow> storage_path list option) \<Rightarrow> user_entity \<Rightarrow> nat option \<Rightarrow> default_quotas \<Rightarrow> user_quota_response" where
  "user_quota_response_new from_json user default_quota_mb default_quotas =
     (let overrides = user_entity_quota from_json user in
      \<lparr>qr_effective = resolve_with_defaults overrides default_quota_mb default_quotas, qr_overrides = overrides\<rparr>)"

record user_item =
  ui_pubky :: string
  ui_created_at :: int
  ui_disabled :: bool
  ui_used_bytes :: nat
  ui_quota :: user_quota_response

definition user_item_new ::
  "(string \<Rightarrow> storage_path list option) \<Rightarrow> user_entity \<Rightarrow> nat option \<Rightarrow> default_quotas \<Rightarrow> user_item" where
  "user_item_new from_json user default_quota_mb default_quotas =
     \<lparr>ui_pubky = z32 (ue_public_key user), ui_created_at = ue_created_at user, ui_disabled = ue_disabled user,
      ui_used_bytes = ue_used_bytes user,
      ui_quota = user_quota_response_new from_json user default_quota_mb default_quotas\<rparr>"

definition account_route ::
  "(string \<Rightarrow> storage_path list option) \<Rightarrow> nat option \<Rightarrow> default_quotas \<Rightarrow> auth_session option \<Rightarrow> user_table \<Rightarrow>
   (http_error, (string \<rightharpoonup> string) \<times> user_item) result" where
  "account_route from_json default_quota_mb default_quotas session users =
     and_then (require_session session) (\<lambda>auth.
     and_then (case auth of GrantAuthSession _ \<Rightarrow> Ok () | CookieSession _ \<Rightarrow> Err unauthorized) (\<lambda>_.
     and_then (ensure (permits (session_capabilities auth) storage_path_root Read)
       (forbidden_with_message ''Read access to all storage required'')) (\<lambda>_.
     and_then (get_or_http_error (session_user_key auth) False users) (\<lambda>user.
     Ok ([''cache-control'' \<mapsto> CACHE_CONTROL_NO_STORE, ''vary'' \<mapsto> ''Authorization''],
         user_item_new from_json user default_quota_mb default_quotas)))))"

section \<open>The two records of one session\<close>

text \<open>The record answered when a session is created counts microseconds, the one answered
  for the same session afterwards counts seconds.\<close>

lemma session_created_at_units:
  assumes "1000000 \<le> se_created_at session"
  shows "cs_created_at (to_legacy session) < cs_created_at (creation_to_record (nat (se_created_at session)) c)"
  using assms by (simp add: to_legacy_def creation_to_record_def session_record_new_def Let_def unix_secs_def)

end
