(* ===== verification/Storage_Requests.thy ===== *)
theory Storage_Requests
  imports Tenant_Routes Auth_Routes
begin

text \<open>
  What every request to a storage route keeps: the paths the request line yields are well
  formed (\<^verbatim>\<open>client_server/middleware/request_tenant.rs\<close>, \<^verbatim>\<open>shared/webdav/path.rs\<close>), and the
  handlers of \<^verbatim>\<open>client_server/routes/tenants\<close> keep the invariant of the file store, the
  coherence of the quota cache, every account and the invariant of the lock table.
\<close>

section \<open>The paths of requests\<close>

lemma valid_utf8_append: "valid_utf8 q \<Longrightarrow> valid_utf8 (q @ r) = valid_utf8 r"
proof (induction q rule: valid_utf8.induct)
  case (2 b bs)
  then have "utf8_width b - 1 \<le> length bs" using utf8_chunk_length [of b "take (utf8_width b - 1) bs"] by simp
  with 2 show ?case by simp
qed simp

lemma valid_utf8_ascii: "(of_char c :: nat) < 128 \<Longrightarrow> valid_utf8 (c # s) = valid_utf8 s"
  by (auto simp: utf8_chunk_def utf8_width_def Let_def)

lemma valid_utf8_split:
  assumes "valid_utf8 s" and c: "(of_char c :: nat) < 128"
  shows "\<forall>p \<in> set (split_on c s). valid_utf8 p"
  using assms(1)
proof (induction "length s" arbitrary: s rule: less_induct)
  case less
  show ?case
  proof (cases "c \<in> set s")
    case True
    then obtain a b where s: "s = a @ c # b" "c \<notin> set a" by (meson split_list_first)
    have "valid_utf8 a" using valid_utf8_before_ascii less.prems c s(1) by blast
    moreover have "valid_utf8 b" using less.prems s(1) valid_utf8_append [OF calculation] valid_utf8_ascii [OF c] by simp
    ultimately show ?thesis using less.hyps [of b] s by (simp add: split_on_append)
  qed (use less.prems in \<open>simp add: split_on_no_sep\<close>)
qed

lemma valid_utf8_join: "\<forall>p \<in> set ps. valid_utf8 p \<Longrightarrow> valid_utf8 (join ''/'' ps)"
  by (induction "''/''" ps rule: join.induct) (auto simp: valid_utf8_append valid_utf8_ascii simp del: valid_utf8.simps(2))

lemma normalize_segments_utf8:
  "normalize_segments acc segs = Ok out \<Longrightarrow> \<forall>p \<in> set acc \<union> set segs. valid_utf8 p \<Longrightarrow> \<forall>p \<in> set out. valid_utf8 p"
proof (induction acc segs rule: normalize_segments.induct)
  case (2 acc seg rest)
  then show ?case by (auto simp: and_then_ok_iff split: if_splits dest: in_set_butlastD)
qed auto

lemma storage_path_normalize_utf8:
  assumes "storage_path_normalize s = Ok p" and "valid_utf8 s"
  shows "valid_utf8 (as_str p)"
proof -
  obtain segs d where segs: "normalize_segments [] (tl (split_on (CHR ''/'') s)) = Ok segs" and p: "as_str p = canonical_string d segs"
    using assms(1) by (auto simp: storage_path_normalize_def and_then_ok_iff Let_def split: if_splits)
  have "\<forall>q \<in> set (split_on (CHR ''/'') s). valid_utf8 q" by (rule valid_utf8_split [OF assms(2)]) simp
  then have "\<forall>q \<in> set segs. valid_utf8 q"
    using normalize_segments_utf8 [OF segs] by (cases "split_on (CHR ''/'') s") auto
  then have "valid_utf8 (join ''/'' segs)" by (rule valid_utf8_join)
  then show ?thesis
    unfolding p canonical_string_def by (simp add: valid_utf8_append valid_utf8_ascii Let_def del: valid_utf8.simps(2))
qed

text \<open>What the storage routes use of the keys (52 characters of z-base-32, printed and
  parsed back) and of percent decoding (UTF-8).\<close>

definition keys_print :: "key_parser \<Rightarrow> bool" where
  "keys_print parser \<longleftrightarrow> (\<forall>s pk. parser s = Some pk \<longrightarrow>
     length (z32 pk) = 52 \<and> CHR ''/'' \<notin> set (z32 pk) \<and> parser (z32 pk) = Some pk)"

definition decodes_utf8 :: "percent_decoder \<Rightarrow> bool" where
  "decodes_utf8 decode \<longleftrightarrow> (\<forall>s d. decode s = Some d \<longrightarrow> valid_utf8 d)"

lemma routed_path_wf:
  assumes "keys_print (se_key_parser env)" and "se_key_parser env raw = Some pk"
    and "storage_path_normalize (''/'' @ s) = Ok p" and "valid_utf8 s"
  shows "path_wf (entry_path_new pk p)"
    and "parse_opendal (se_key_parser env) (ep_key (entry_path_new pk p)) = Ok (entry_path_new pk p)"
proof -
  have p: "canonical p" by (rule storage_path_normalize_canonical [OF assms(3)])
  have "valid_utf8 (''/'' @ s)" using assms(4) by (simp add: valid_utf8_ascii del: valid_utf8.simps(2))
  from storage_path_normalize_utf8 [OF assms(3) this] p
  show "path_wf (entry_path_new pk p)" by (simp add: path_wf_def)
  have "length (z32 pk) = 52" "CHR ''/'' \<notin> set (z32 pk)" "se_key_parser env (z32 pk) = Some pk"
    using assms(1,2) unfolding keys_print_def by blast+
  from entry_key_parses [of pk "se_key_parser env" p, OF this p]
  show "parse_opendal (se_key_parser env) (ep_key (entry_path_new pk p)) = Ok (entry_path_new pk p)"
    by (simp add: parse_opendal_def del: entry_path_new_sel(3))
qed

section \<open>What a handler keeps\<close>

text \<open>The accounts of a store as the authentication services see them: no user vanishes,
  changes its id or is switched on or off, and the cache stays coherent.\<close>

definition keeps :: "'b store_env \<Rightarrow> nat \<Rightarrow> nat \<Rightarrow> 'b store \<Rightarrow> 'b store \<Rightarrow> bool" where
  "keeps env volume volume' s s' \<longleftrightarrow>
     (store_invar volume s \<longrightarrow> store_invar volume' s') \<and>
     (store_invar volume s \<longrightarrow> flags_kept (us_db (fs_users s)) (us_db (fs_users s'))) \<and>
     (store_invar volume s \<longrightarrow> cache_coherent (se_from_json env) (fs_users s) \<longrightarrow> cache_coherent (se_from_json env) (fs_users s')) \<and>
     (lock_invar (fs_locks s) \<longrightarrow> lock_invar (fs_locks s'))"

lemma keeps_trans: "keeps env a b s s' \<Longrightarrow> keeps env b c s' s'' \<Longrightarrow> keeps env a c s s''"
  unfolding keeps_def by (blast intro: flags_kept_trans)

lemma store_invar_mono: "store_invar a s \<Longrightarrow> a \<le> b \<Longrightarrow> store_invar b s"
  by (auto simp: store_invar_def intro: order_trans)

lemma keepsI:
  assumes "store_invar a s \<Longrightarrow> store_invar b s'" and "store_invar a s \<Longrightarrow> flags_kept (us_db (fs_users s)) (us_db (fs_users s'))"
    and "store_invar a s \<Longrightarrow> cache_coherent (se_from_json env) (fs_users s) \<Longrightarrow> cache_coherent (se_from_json env) (fs_users s')"
    and "lock_invar (fs_locks s) \<Longrightarrow> lock_invar (fs_locks s')"
  shows "keeps env a b s s'"
  unfolding keeps_def using assms by blast

lemma keeps_same:
  assumes "same_tables env s s'" and "a \<le> b"
  shows "keeps env a b s s'"
proof (rule keepsI)
  show "store_invar a s \<Longrightarrow> store_invar b s'" using store_invar_same [OF assms(1)] store_invar_mono assms(2) by blast
  show "flags_kept (us_db (fs_users s)) (us_db (fs_users s'))" using same_tables_sel [OF assms(1)] by simp
qed (use assms(1) in \<open>simp_all add: same_tables_def\<close>)

lemma keeps_refl [simp]: "a \<le> b \<Longrightarrow> keeps env a b s s"
  by (rule keeps_same [OF same_tables_refl])

lemma keeps_blobs [simp]: "keeps env a b s (s'\<lparr>fs_blobs := x\<rparr>) = keeps env a b s s'"
  by (simp add: keeps_def store_invar_def)

lemma keeps_locks:
  "(lock_invar (fs_locks s) \<Longrightarrow> lock_invar locks) \<Longrightarrow> a \<le> b \<Longrightarrow> keeps env a b s (s\<lparr>fs_locks := locks\<rparr>)"
  using store_invar_mono [of a s b] by (intro keepsI) (simp_all add: store_invar_def tables_of_def)

lemma resolve_query_used: "user_get q t' = (if q = pk then Ok (u\<lparr>ue_used_bytes := n\<rparr>) else user_get q t) \<Longrightarrow>
  user_get pk t = Ok u \<Longrightarrow> resolve_query fj q t' = resolve_query fj q t"
  by (auto simp: resolve_query_def user_entity_quota_def split: sum.splits)

text \<open>A committed change of one file keeps all of them.\<close>

lemma keeps_change:
  assumes u: "user_get pk (us_db (fs_users s)) = Ok u" and change: "changes_file pk u p new (tables_of s) (tables_of s')"
    and cache: "us_cache (fs_users s') = us_cache (fs_users s)" and locks: "fs_locks s' = fs_locks s"
    and inv: "store_invar a s \<Longrightarrow> store_invar b s'"
  shows "keeps env a b s s'"
proof -
  obtain n where n: "\<And>q. user_get q (us_db (fs_users s')) = (if q = pk then Ok (u\<lparr>ue_used_bytes := n\<rparr>) else user_get q (us_db (fs_users s)))"
    using change unfolding changes_file_def tables_of_sel by blast
  have "fs_users s' = (fs_users s)\<lparr>us_db := us_db (fs_users s')\<rparr>" using cache by simp
  then have "cache_coherent (se_from_json env) (fs_users s')" if "cache_coherent (se_from_json env) (fs_users s)"
    using coherent_db [OF that, of "us_db (fs_users s')"] resolve_query_used [OF n u] by metis
  moreover have "flags_kept (us_db (fs_users s)) (us_db (fs_users s'))" using n u by (auto simp: flags_kept_def)
  ultimately show ?thesis using inv locks by (auto simp: keeps_def)
qed

lemma close_keeps_rest:
  assumes "fin_writer_close env policy db token w s = (r, w', s')"
  shows "us_cache (fs_users s') = us_cache (fs_users s)" and "fs_locks s' = fs_locks s"
  using assms
  by (auto simp: fin_writer_close_def finalize_write_def write_in_transaction_def finish_transaction_def commit_tables_def
      split: option.splits prod.splits sum.splits if_splits write_failure.splits commit_outcome.splits)

lemma keeps_tables:
  assumes "tables_of s' = tables_of s" and "us_cache (fs_users s') = us_cache (fs_users s)" and "fs_locks s' = fs_locks s" and "a \<le> b"
  shows "keeps env a b s s'"
proof (rule keeps_same [OF _ assms(4)])
  have "us_db (fs_users s') = us_db (fs_users s)" using assms(1) by (metis tables_of_sel(1))
  then have "fs_users s' = fs_users s" using assms(2) by simp
  then show "same_tables env s s'" using assms(1,3) by (simp add: same_tables_def)
qed

lemma write_stream_keeps:
  assumes inv: "store_invar volume s" and path: "path_wf path"
    and parses: "parse_opendal (se_key_parser env) (ep_key path) = Ok path"
    and hash: "\<And>c. length (cn_hash (se_content env) c) = 32"
    and small: "volume + length (body_bytes items) + FILE_METADATA_SIZE < 2 ^ 63"
    and stream: "opendal_write_stream env check_db db token uuid path items s = (r, s')"
  shows "keeps env volume (volume + (length (body_bytes items) + FILE_METADATA_SIZE)) s s'"
  using parses stream
proof (cases rule: write_stream_cases)
  case refused
  then show ?thesis by (simp add: keeps_same)
next
  case (closed w r' w' s2)
  note wf = close_wf [OF closed(1) path hash small] and rest = close_keeps_rest [OF closed(4)]
  have inv2: "store_invar volume s2" using inv store_invar_same [OF closed(3)] by simp
  have after: "store_invar (volume + (length (body_bytes items) + FILE_METADATA_SIZE)) s'"
    using store_invar_write [where op = AppOperator and db = db and token = token, OF inv2 wf(1,2)] closed(4) writer_metadata_written(2) [OF closed(1)] by simp
  from inv2 wf(1,2) closed(4) have "keeps env volume (volume + (length (body_bytes items) + FILE_METADATA_SIZE)) s2 s'"
  proof (cases rule: close_effects)
    case same
    then show ?thesis using rest by (intro keeps_tables) simp_all
  next
    case (changed u)
    from keeps_change [OF changed(1,4) rest after] show ?thesis .
  qed
  with keeps_same [OF closed(3)] show ?thesis by (blast intro: keeps_trans)
qed

lemma finalize_delete_keeps:
  assumes inv: "store_invar volume s" and path: "path_wf path" and small: "volume < 2 ^ 63"
    and del: "finalize_delete db token path s = (r, s')"
  shows "keeps env volume volume s s'"
proof -
  have rest: "us_cache (fs_users s') = us_cache (fs_users s)" "fs_locks s' = fs_locks s"
    using del by (auto simp: finalize_delete_def finish_transaction_def commit_tables_def
      split: sum.splits option.splits commit_outcome.splits if_splits)
  have after: "store_invar volume s'"
    using store_invar_step [OF inv, of undefined "FinalizeDelete db token path"] path small del by simp
  from finalize_delete_tables [OF del] show ?thesis
  proof
    assume "tables_of s' = tables_of s"
    then show ?thesis using rest by (intro keeps_tables) simp_all
  next
    assume "\<exists>tb'. delete_in_transaction db token path (fs_locks s) (tables_of s) = Ok (Some tb') \<and> tables_of s' = tb'"
    then have tx: "delete_in_transaction db token path (fs_locks s) (tables_of s) = Ok (Some (tables_of s'))" by blast
    have "tables_invar (tables_of s)" and "\<And>i. entries_size i (tb_entries (tables_of s)) < 2 ^ 63"
      using inv small le_less_trans by (fastforce simp: store_invar_def)+
    from delete_effects [OF this(1) path tx this(2)]
    obtain u where "user_get (ep_pubkey path) (us_db (fs_users s)) = Ok u"
      "changes_file (ep_pubkey path) u (as_str (ep_path path)) None (tables_of s) (tables_of s')" by auto
    from keeps_change [OF this rest after] show ?thesis .
  qed
qed

lemma remove_blob_keeps: "keeps env a a s (snd (remove_blob_if_unreferenced env db pending s))"
  by (simp add: remove_blob_if_unreferenced_def split: prod.splits)

lemma delete_with_keeps:
  assumes inv: "store_invar volume s" and path: "path_wf path" and small: "volume < 2 ^ 63"
    and parses: "parse_opendal (se_key_parser env) (ep_key path) = Ok path"
    and del: "delete_with op env now dbs token path s = (r, s')"
  shows "keeps env volume volume s s'"
proof -
  define s1 where "s1 = snd (ensure_passed (op = AdminOperator) (check_write_path_allowed env now (ep_key path)) s)"
  have s1: "same_tables env s s1" unfolding s1_def by (rule ensure_passed_same)
  obtain r2 s2 where f: "finalize_delete (fst dbs) token path s1 = (r2, s2)" by (metis prod.exhaust)
  let ?pending = "\<lparr>pd_path = path, pd_args = op_delete_default\<rparr>"
  have "store_invar volume s1" using inv store_invar_same [OF s1] by simp
  from finalize_delete_keeps [OF this path small f] have "keeps env volume volume s1 s2" .
  then have "keeps env volume volume s1 (snd (finalize_and_remove_blob env dbs token ?pending s1))"
    using f keeps_trans [OF _ remove_blob_keeps [of env volume s2 "snd dbs" ?pending]]
    by (cases r2) (auto simp: finalize_and_remove_blob_def st_then_def split: prod.splits sum.splits)
  moreover have "s' = s \<or> s' = s1 \<or> s' = snd (finalize_and_remove_blob env dbs token ?pending s1)"
    unfolding s1_def by (rule delete_with_cases [OF del parses])
  ultimately show ?thesis using keeps_same [OF s1, of volume volume] by (auto intro: keeps_trans)
qed

lemma check_lock_invar:
  assumes "lock_invar t"
  shows "lock_invar (snd (check_lock now key headers t))"
proof -
  let ?kept = "keep_alive now key (if_header_tokens headers) WRITE_LOCK_HORIZON_SECS t"
  have "snd (check_lock now key headers t) \<in> {t, snd ?kept}"
    by (auto simp: check_lock_def Let_def split: option.splits prod.splits)
  moreover have "lock_invar (snd ?kept)" unfolding keep_alive_def by (rule set_expiry_invar [OF assms])
  ultimately show ?thesis using assms by auto
qed

lemma checked_locks_keeps: "keeps env a a s (checked_locks run path headers s)"
  unfolding checked_locks_def by (rule keeps_locks) (auto intro: check_lock_invar)

lemma put_route_keeps:
  assumes inv: "store_invar volume s" and path: "path_wf path"
    and parses: "parse_opendal (se_key_parser env) (ep_key path) = Ok path"
    and hash: "\<And>c. length (cn_hash (se_content env) c) = 32"
    and small: "volume + length (body_bytes body) + FILE_METADATA_SIZE < 2 ^ 63"
  shows "keeps env volume (volume + (length (body_bytes body) + FILE_METADATA_SIZE)) s
    (snd (put_route env run (\<lambda>s. s) session path headers body s))"
proof -
  let ?s1 = "checked_locks run path (sh_lock headers) s" and ?b = "volume + (length (body_bytes body) + FILE_METADATA_SIZE)"
  have k1: "keeps env volume volume s ?s1" by (rule checked_locks_keeps)
  then have inv1: "store_invar volume ?s1" using inv by (simp add: keeps_def)
  have k2: "keeps env volume ?b ?s1 (snd (opendal_write_stream env (rr_check_db run) (rr_db run) token (rr_uuid run) path body ?s1))" for token
    using write_stream_keeps [OF inv1 path parses hash small] by (metis prod.collapse)
  note k = keeps_trans [OF k1 k2] keeps_trans [OF k1 keeps_refl [of volume ?b]] keeps_refl [of volume ?b env s]
  show ?thesis
  proof (cases "authorize_write (us_db (fs_users s)) session path True")
    case (Inr owner)
    show ?thesis
    proof (cases "fail_if_size_hint_exceeds_quota env (content_length_from_headers headers) owner path s")
      case hint: (Inr x)
      show ?thesis
      proof (cases "fst (check_lock (rr_lock_now run) (ep_key path) (sh_lock headers) (fs_locks s))")
        case token: (Inr token)
        have "snd (put_route env run (\<lambda>s. s) session path headers body s) =
            snd (opendal_write_stream env (rr_check_db run) (rr_db run) token (rr_uuid run) path body ?s1)"
          using Inr hint token
          by (simp add: put_route_def with_write_lock_def file_write_stream_def st_then_def split: prod.splits sum.splits)
        then show ?thesis using k(1) by simp
      qed (use Inr hint k in \<open>simp add: put_route_def with_write_lock_def\<close>)
    qed (use Inr k in \<open>simp add: put_route_def\<close>)
  qed (use k in \<open>simp add: put_route_def\<close>)
qed

lemma delete_route_keeps:
  assumes inv: "store_invar volume s" and path: "path_wf path" and small: "volume < 2 ^ 63"
    and parses: "parse_opendal (se_key_parser env) (ep_key path) = Ok path"
  shows "keeps env volume volume s (snd (delete_route env run (\<lambda>s. s) session path headers s))"
proof -
  let ?s1 = "checked_locks run path (sh_lock headers) s"
  have k1: "keeps env volume volume s ?s1" by (rule checked_locks_keeps)
  then have inv1: "store_invar volume ?s1" using inv by (simp add: keeps_def)
  have k2: "keeps env volume volume ?s1
      (snd (file_delete env (db_now (rr_check_db run)) (rr_db run, rr_blob_db run) token path ?s1))" for token
    using delete_with_keeps [OF inv1 path small parses] unfolding file_delete_def by (metis prod.collapse)
  show ?thesis
  proof (cases "authorize_write (us_db (fs_users s)) session path False")
    case (Inr owner)
    show ?thesis
    proof (cases "fst (check_lock (rr_lock_now run) (ep_key path) (sh_lock headers) (fs_locks s))")
      case token: (Inr token)
      have "snd (delete_route env run (\<lambda>s. s) session path headers s) =
          snd (file_delete env (db_now (rr_check_db run)) (rr_db run, rr_blob_db run) token path ?s1)"
        using Inr token
        by (simp add: delete_route_def with_write_lock_def st_then_def split: prod.splits sum.splits)
      then show ?thesis using keeps_trans [OF k1 k2] by simp
    qed (use Inr k1 in \<open>simp add: delete_route_def with_write_lock_def\<close>)
  qed (simp add: delete_route_def)
qed

lemma create_lock_invar: "lock_invar t \<Longrightarrow> lock_invar (snd (create_lock now now' uuid key secs t))"
  using acquire_invar [OF lock_step_invar [of t now DeleteExpired], of now' key uuid secs]
  by (cases "acquire now' key uuid secs (snd (delete_expired now t))") (simp add: create_lock_def)

lemma refresh_invar: "lock_invar t \<Longrightarrow> lock_invar (snd (refresh now key tokens secs t))"
  using lock_step_invar [of t now "Refresh key tokens secs"] by simp

lemma release_invar: "lock_invar t \<Longrightarrow> lock_invar (snd (release key token t))"
  using lock_step_invar [of t 0 "Release key token"] by simp

lemma lock_route_keeps: "keeps env a a s (snd (lock_route run session path lock_root headers body s))"
  by (auto simp: lock_route_def st_then_def Let_def split: prod.splits sum.splits intro!: keeps_locks)
    (metis create_lock_invar refresh_invar snd_conv)+

lemma unlock_route_keeps: "keeps env a a s (snd (unlock_route session path headers s))"
  by (auto simp: unlock_route_def st_then_def split: prod.splits sum.splits intro!: keeps_locks)
    (metis release_invar snd_conv)+

text \<open>The volume a request may add: the bytes of its body and the charge of a file.\<close>

definition body_volume :: "stream_item list \<Rightarrow> nat" where
  "body_volume body = length (body_bytes body) + FILE_METADATA_SIZE"

lemma storage_route_keeps:
  assumes inv: "store_invar volume s" and path: "path_wf (sr_path req)"
    and parses: "parse_opendal (se_key_parser env) (ep_key (sr_path req)) = Ok (sr_path req)"
    and hash: "\<And>c. length (cn_hash (se_content env) c) = 32"
    and small: "volume + body_volume (sr_body req) < 2 ^ 63"
  shows "keeps env volume (volume + body_volume (sr_body req)) s (snd (storage_route env web run (\<lambda>s. s) req s))"
proof -
  let ?b = "volume + body_volume (sr_body req)" and ?keeps = "keeps env volume (volume + body_volume (sr_body req)) s"
  have "volume + length (body_bytes (sr_body req)) + FILE_METADATA_SIZE < 2 ^ 63" "volume < 2 ^ 63"
    using small by (simp_all add: body_volume_def)
  note put = put_route_keeps [OF inv path parses hash this(1), folded body_volume_def]
    and delete = keeps_trans [OF delete_route_keeps [OF inv path this(2) parses] keeps_refl [of volume ?b]]
  have "?keeps (snd (lock_dispatch run req s))"
    by (simp add: lock_dispatch_def keeps_trans [OF lock_route_keeps keeps_refl] keeps_trans [OF unlock_route_keeps keeps_refl])
  then show ?thesis
    using put delete by (auto simp: storage_route_def Let_def st_then_def case_prod_beta split: sum.splits)
qed

end
