(* ===== verification/Server.thy ===== *)
theory Server
  imports Storage_Requests
begin

text \<open>
  The homeserver as one state machine.  Its state joins the file store, the accounts with
  their signup codes, the cookie sessions with the guard against replayed tokens, and the
  grants with their sessions and nonces; the users table is the same one for all of them
  (\<^verbatim>\<open>client_server/app_state.rs\<close>, \<^verbatim>\<open>client_server/auth/state.rs\<close>).  Its operations are the
  requests of the client server (\<^verbatim>\<open>client_server/app.rs\<close>, \<^verbatim>\<open>client_server/auth/router.rs\<close>,
  \<^verbatim>\<open>client_server/routes/tenants/mod.rs\<close>), each with the layers in front of its handler: the
  resolution of the tenant and the authentication; the administrator's changes of accounts,
  and the keep-alive of locks.  Each operation runs to its end before the next one starts.
\<close>

section \<open>Model: the state\<close>

record 'b server =
  sv_store :: "'b store"
  sv_codes :: signup_table
  sv_cookies :: session_table
  sv_seen :: "token_id list"
  sv_grants :: "grant_row list"
  sv_sessions :: "grant_session_row list"
  sv_nonces :: nonce_table
  sv_notified :: "auth_revocation list"

definition accounts_of :: "'b server \<Rightarrow> signup_state" where
  "accounts_of sv = \<lparr>ss_service = fs_users (sv_store sv), ss_codes = sv_codes sv\<rparr>"

definition cookie_view :: "'b server \<Rightarrow> cookie_state" where
  "cookie_view sv = \<lparr>ck_accounts = accounts_of sv, ck_sessions = sv_cookies sv, ck_seen = sv_seen sv, ck_notified = sv_notified sv\<rparr>"

definition grant_view :: "'b server \<Rightarrow> grant_state" where
  "grant_view sv = \<lparr>gt_accounts = accounts_of sv, gt_grants = sv_grants sv, gt_sessions = sv_sessions sv,
     gt_nonces = sv_nonces sv, gt_notified = sv_notified sv\<rparr>"

definition put_accounts :: "signup_state \<Rightarrow> 'b server \<Rightarrow> 'b server" where
  "put_accounts a sv = sv\<lparr>sv_store := (sv_store sv)\<lparr>fs_users := ss_service a\<rparr>, sv_codes := ss_codes a\<rparr>"

definition put_cookie :: "cookie_state \<Rightarrow> 'b server \<Rightarrow> 'b server" where
  "put_cookie ck sv = (put_accounts (ck_accounts ck) sv)\<lparr>sv_cookies := ck_sessions ck, sv_seen := ck_seen ck,
     sv_notified := ck_notified ck\<rparr>"

definition put_grant :: "grant_state \<Rightarrow> 'b server \<Rightarrow> 'b server" where
  "put_grant gt sv = (put_accounts (gt_accounts gt) sv)\<lparr>sv_grants := gt_grants gt, sv_sessions := gt_sessions gt,
     sv_nonces := gt_nonces gt, sv_notified := gt_notified gt\<rparr>"

definition server_empty :: "'b \<Rightarrow> 'b server" where
  "server_empty b = \<lparr>sv_store = store_empty b, sv_codes = [], sv_cookies = \<lparr>st_rows = [], st_seq = 1\<rparr>, sv_seen = [],
     sv_grants = [], sv_sessions = [], sv_nonces = [], sv_notified = []\<rparr>"

text \<open>The configuration, and the third-party packages.\<close>

record 'b server_env =
  ve_store :: "'b store_env"
  ve_web :: web_env
  ve_decode :: percent_decoder
  ve_auth :: auth_env
  ve_cookie :: cookie_env
  ve_setup :: grant_setup
  ve_mode :: signup_mode
  ve_code_decode :: "string \<Rightarrow> nat list option"

definition signup_of :: "'b server_env \<Rightarrow> signup_setup" where
  "signup_of env = \<lparr>sg_to_json = su_to_json (ve_setup env), sg_from_json = su_from_json (ve_setup env),
     sg_mode = ve_mode env, sg_decode = ve_code_decode env\<rparr>"

section \<open>Model: a request to storage\<close>

text \<open>What the layers read of a request: the instant, its credentials, and its line with
  the headers that name a tenant.\<close>

record request_head =
  rq_now :: int
  rq_cred :: credentials
  rq_target :: tenant_request

fun storage_path_error_message :: "storage_path_error \<Rightarrow> string" where
  "storage_path_error_message NotAbsolute = ''path must be absolute''"
| "storage_path_error_message EmptySegment = ''path contains an empty segment''"
| "storage_path_error_message CurrentDirectorySegment = ''path contains a `.` segment''"
| "storage_path_error_message ParentDirectorySegment = ''path contains a `..` segment''"
| "storage_path_error_message TraversalAboveRoot = ''path traverses above root''"
| "storage_path_error_message ControlCharacter = ''path contains a control character''"
| "storage_path_error_message Backslash = ''path must not contain a backslash''"
| "storage_path_error_message TrailingWhitespace = ''path must not end in whitespace''"
| "storage_path_error_message (SegmentTooLong actual maximum) =
     ''path segment is '' @ show_nat actual @ '' bytes; maximum is '' @ show_nat maximum"
| "storage_path_error_message (PathTooLong actual maximum) =
     ''path is '' @ show_nat actual @ '' bytes; maximum is '' @ show_nat maximum"

fun tenant_error_message :: "tenant_error \<Rightarrow> string" where
  "tenant_error_message MissingOwnerOrPath = ''Missing storage owner or path''"
| "tenant_error_message MissingStoragePath = ''Missing storage path''"
| "tenant_error_message InvalidOwner = ''Invalid storage owner public key''"
| "tenant_error_message PathNotUtf8 = ''Storage path is not valid UTF-8''"
| "tenant_error_message (InvalidTenantPath e) = ''Invalid storage path: '' @ storage_path_error_message e"

definition request_session :: "'b server_env \<Rightarrow> request_head \<Rightarrow> request_tenant option \<Rightarrow> 'b server \<Rightarrow> auth_session option" where
  "request_session env rq tenant sv =
     authentication_layer (su_env (ve_setup env)) (rq_now rq) (rq_cred rq) tenant (cookie_view sv) (grant_view sv)"

text \<open>The owner-relative routes.  The extractor of the path rejects with status 400; its
  text is the framework's.\<close>

definition path_rejection :: http_error where
  "path_rejection = new_with_message 400 []"

definition legacy_route ::
  "'b server_env \<Rightarrow> request_run \<Rightarrow> string \<Rightarrow> auth_session option \<Rightarrow> request_tenant \<Rightarrow> string \<Rightarrow> storage_headers \<Rightarrow>
   (string \<rightharpoonup> string) \<Rightarrow> stream_item list \<Rightarrow> 'b store \<Rightarrow> response \<times> 'b store" where
  "legacy_route env run m session tenant uri_path headers params body s =
     (let raw = ok_or path_rejection (ve_decode env (drop 1 uri_path));
          any_path = and_then raw (\<lambda>p. map_err (\<lambda>_. path_rejection) (webdav_path_from_str p));
          file_path = and_then raw (\<lambda>p. map_err (\<lambda>_. path_rejection) (webdav_file_path_from_str p));
          (r, s') =
            (if m = ''GET'' then (and_then any_path (\<lambda>p. and_then (list_query_from_request params) (\<lambda>q.
               legacy_get (ve_store env) (ve_web env) headers session tenant p q s)), s)
             else if m = ''HEAD'' then (and_then any_path (\<lambda>p. legacy_head (ve_store env) (ve_web env) session tenant p s), s)
             else if m = ''PUT'' then st_then (require_session session, s) (\<lambda>session s. st_then (file_path, s) (\<lambda>p s.
               legacy_put (ve_store env) run (\<lambda>s. s) session tenant p headers body s))
             else if m = ''DELETE'' then st_then (require_session session, s) (\<lambda>session s. st_then (file_path, s) (\<lambda>p s.
               legacy_delete (ve_store env) run (\<lambda>s. s) session tenant p headers s))
             else (Ok (plain_response 405), s))
      in (respond r, s'))"

definition serve_storage ::
  "'b server_env \<Rightarrow> request_run \<Rightarrow> request_head \<Rightarrow> string \<Rightarrow> storage_headers \<Rightarrow> (string \<rightharpoonup> string) \<Rightarrow> stream_item list \<Rightarrow>
   'b server \<Rightarrow> response \<times> 'b server" where
  "serve_storage env run rq m headers params body sv =
     (case tenant_from_request (se_key_parser (ve_store env)) (ve_decode env) (rq_target rq) of
        Inl e \<Rightarrow> (error_into_response (bad_request (tenant_error_message e)), sv)
      | Inr None \<Rightarrow> (error_into_response (bad_request ''Missing request tenant''), sv)
      | Inr (Some tenant) \<Rightarrow>
          (let session = request_session env rq (Some tenant) sv; uri_path = req_path (rq_target rq);
               (r, st) = (case entry_path_from_parts (Some tenant) of
                  Inr path \<Rightarrow> storage_route (ve_store env) (ve_web env) run (\<lambda>s. s)
                    \<lparr>sr_method = m, sr_uri_path = uri_path, sr_session = session, sr_path = path, sr_headers = headers,
                     sr_params = params, sr_body = body\<rparr> (sv_store sv)
                | Inl _ \<Rightarrow> legacy_route env run m session tenant uri_path headers params body (sv_store sv))
           in (r, sv\<lparr>sv_store := st\<rparr>)))"

section \<open>Model: the operations\<close>

datatype server_op =
    StorageOp request_run request_head string storage_headers "string \<rightharpoonup> string" "stream_item list"
  | CookieSignupOp request_clock string string "string option" string
  | CookieSigninOp request_clock string string string
  | CookieSignoutOp request_head string
  | GrantSignupOp int "string option" create_grant_session_request
  | GrantSessionOp int string create_grant_session_request
  | GrantSignoutOp request_head "create_grant_session_request option"
  | RevokeGrantOp request_head string
  | AccountOp int account_op
  | LockOp int lock_op

definition with_tenant ::
  "'b server_env \<Rightarrow> request_head \<Rightarrow> (request_tenant option \<Rightarrow> 'b server \<Rightarrow> 'b server) \<Rightarrow> 'b server \<Rightarrow> 'b server" where
  "with_tenant env rq f sv =
     (case tenant_from_request (se_key_parser (ve_store env)) (ve_decode env) (rq_target rq) of
        Inl _ \<Rightarrow> sv | Inr tenant \<Rightarrow> f tenant sv)"

fun server_step :: "'b server_env \<Rightarrow> server_op \<Rightarrow> 'b server \<Rightarrow> 'b server" where
  "server_step env (StorageOp run rq m headers params body) sv = snd (serve_storage env run rq m headers params body sv)"
| "server_step env (CookieSignupOp clock secret host token body) sv =
     put_cookie (snd (cookie_signup_route (ve_auth env) (ve_cookie env) (signup_of env) clock secret host token body (cookie_view sv))) sv"
| "server_step env (CookieSigninOp clock secret host body) sv =
     put_cookie (snd (cookie_signin_route (ve_auth env) (ve_cookie env) clock secret host body (cookie_view sv))) sv"
| "server_step env (CookieSignoutOp rq host) sv = with_tenant env rq (\<lambda>tenant sv.
     case tenant of
       None \<Rightarrow> sv
     | Some t \<Rightarrow> put_cookie (snd (cookie_signout_route (ve_cookie env) (request_session env rq (Some t) sv) host t (cookie_view sv))) sv) sv"
| "server_step env (GrantSignupOp now token req) sv =
     put_grant (snd (grant_signup_route (su_env (ve_setup env)) (su_homeserver (ve_setup env)) (signup_of env) now token req (grant_view sv))) sv"
| "server_step env (GrantSessionOp now bearer req) sv =
     put_grant (snd (create_grant_session_route (su_env (ve_setup env)) (su_homeserver (ve_setup env)) now bearer req (grant_view sv))) sv"
| "server_step env (GrantSignoutOp rq body) sv = with_tenant env rq (\<lambda>tenant sv.
     put_grant (snd (grant_signout_route (su_env (ve_setup env)) (su_homeserver (ve_setup env)) (rq_now rq)
       (request_session env rq tenant sv) body (grant_view sv))) sv) sv"
| "server_step env (RevokeGrantOp rq grant_id) sv = with_tenant env rq (\<lambda>tenant sv.
     put_grant (snd (revoke_grant_route (rq_now rq) (request_session env rq tenant sv) grant_id (grant_view sv))) sv) sv"
| "server_step env (AccountOp now op) sv =
     put_accounts (account_step (su_to_json (ve_setup env)) (su_from_json (ve_setup env)) now op (accounts_of sv)) sv"
| "server_step env (LockOp now op) sv =
     sv\<lparr>sv_store := (sv_store sv)\<lparr>fs_locks := lock_step (fs_locks (sv_store sv)) now op\<rparr>\<rparr>"

definition server_run :: "'b server_env \<Rightarrow> server_op list \<Rightarrow> 'b server \<Rightarrow> 'b server" where
  "server_run env ops sv = fold (server_step env) ops sv"

lemma server_run_simps [simp]:
  "server_run env [] sv = sv"
  "server_run env (op # ops) sv = server_run env ops (server_step env op sv)"
  by (simp_all add: server_run_def)

section \<open>Views\<close>

lemma accounts_sel [simp]:
  "ss_service (accounts_of sv) = fs_users (sv_store sv)" "ss_codes (accounts_of sv) = sv_codes sv"
  by (simp_all add: accounts_of_def)

lemma view_sel [simp]:
  "ck_accounts (cookie_view sv) = accounts_of sv" "ck_sessions (cookie_view sv) = sv_cookies sv"
  "ck_seen (cookie_view sv) = sv_seen sv" "ck_notified (cookie_view sv) = sv_notified sv"
  "gt_accounts (grant_view sv) = accounts_of sv" "gt_grants (grant_view sv) = sv_grants sv"
  "gt_sessions (grant_view sv) = sv_sessions sv" "gt_nonces (grant_view sv) = sv_nonces sv"
  by (simp_all add: cookie_view_def grant_view_def)

lemma put_accounts_sel [simp]:
  "accounts_of (put_accounts a sv) = a" "sv_cookies (put_accounts a sv) = sv_cookies sv"
  "sv_store (put_accounts a sv) = (sv_store sv)\<lparr>fs_users := ss_service a\<rparr>"
  "sv_grants (put_accounts a sv) = sv_grants sv" "sv_sessions (put_accounts a sv) = sv_sessions sv"
  "sv_nonces (put_accounts a sv) = sv_nonces sv"
  by (simp_all add: put_accounts_def accounts_of_def)

lemma put_cookie_sel [simp]:
  "accounts_of (put_cookie ck sv) = ck_accounts ck" "sv_cookies (put_cookie ck sv) = ck_sessions ck"
  "sv_store (put_cookie ck sv) = (sv_store sv)\<lparr>fs_users := ss_service (ck_accounts ck)\<rparr>"
  "sv_grants (put_cookie ck sv) = sv_grants sv" "sv_sessions (put_cookie ck sv) = sv_sessions sv"
  "sv_nonces (put_cookie ck sv) = sv_nonces sv"
  by (simp_all add: put_cookie_def put_accounts_def accounts_of_def)

lemma put_grant_sel [simp]:
  "accounts_of (put_grant gt sv) = gt_accounts gt" "sv_cookies (put_grant gt sv) = sv_cookies sv"
  "sv_store (put_grant gt sv) = (sv_store sv)\<lparr>fs_users := ss_service (gt_accounts gt)\<rparr>" "grant_view (put_grant gt sv) = gt"
  by (simp_all add: put_grant_def put_accounts_def accounts_of_def grant_view_def)

section \<open>What account operations keep of the tables\<close>

lemma create_user_tables:
  assumes "tables_invar tb" and "create_user_in_tx tj fj now mode pk token seen (tb_users tb) codes = Ok (u, users', codes')"
  shows "tables_invar (tb\<lparr>tb_users := users'\<rparr>)"
proof -
  obtain quota v mid where v: "user_create now pk (tb_users tb) = Ok (v, mid)"
    and q: "user_set_quota tj (ue_id v) quota mid = Ok (u, users')"
    using assms(2) by (rule create_user_in_txD)
  let ?mid = "tb\<lparr>tb_users := mid\<rparr>"
  have mid: "tables_invar ?mid" by (rule tables_invar_create [OF assms(1) v])
  then have inv: "user_invar mid" by (simp add: tables_invar_def)
  have get: "user_get pk mid = Ok v" using user_create_get [OF v] by simp
  have "user_quota_validate quota = Ok ()" using q by (auto simp: user_set_quota_def and_then_ok_iff)
  from user_set_quota_ok [OF inv get this, of tj] q get have "tables_invar (?mid\<lparr>tb_users := users'\<rparr>)"
    by (intro tables_invar_users [OF mid]) auto
  then show ?thesis by simp
qed

lemma account_step_tables:
  assumes "tables_invar (tables_of s)" and "ss_service a = fs_users s"
  shows "tables_invar (tables_of (s\<lparr>fs_users := ss_service (account_step tj fj now op a)\<rparr>))"
proof -
  have users: "tables_of (s\<lparr>fs_users := us\<rparr>) = (tables_of s)\<lparr>tb_users := us_db us\<rparr>" for us by (simp add: tables_of_def)
  have same: "tables_invar (tables_of (s\<lparr>fs_users := us\<rparr>))" if "us_db us = us_db (fs_users s)" for us
    using assms(1) that unfolding users by (simp add: tables_of_def)
  show ?thesis
  proof (cases op)
    case (SignupUser mode pk token seen)
    show ?thesis
    proof (cases "create_user_in_tx tj fj now mode pk token seen (us_db (fs_users s)) (ss_codes a)")
      case (Inl e)
      then show ?thesis using SignupUser assms by (simp add: create_new_user_def or_unchanged_def)
    next
      case (Inr x)
      obtain u users codes where x: "x = (u, users, codes)" by (cases x) auto
      have "tables_invar ((tables_of s)\<lparr>tb_users := users\<rparr>)" using create_user_tables [OF assms(1)] Inr x by simp
      then show ?thesis using SignupUser Inr x assms(2) by (simp add: create_new_user_def or_unchanged_def users)
    qed
  next
    case (PatchQuota pk patch)
    then show ?thesis using assms same patch_quota_keeps [OF assms(1)]
      by (auto simp: or_unchanged_def split: sum.splits)
  next
    case (SetDisabled pk d)
    then show ?thesis using assms same set_disabled_keeps [OF assms(1)]
      by (auto simp: or_unchanged_def users split: sum.splits)
  qed (use assms same resolve_quota_db in \<open>auto simp: or_unchanged_def split: sum.splits\<close>)
qed

lemma account_run_tables:
  assumes "tables_invar (tables_of s)" and "ss_service a = fs_users s"
  shows "tables_invar (tables_of (s\<lparr>fs_users := ss_service (account_run tj fj aops a)\<rparr>))"
  using assms
proof (induction aops arbitrary: s a)
  case (Cons x aops)
  obtain now op where x: "x = (now, op)" by (cases x)
  from Cons.IH [OF account_step_tables [OF Cons.prems, of tj fj now op]] show ?case
    by (simp add: account_run_def x)
qed (simp add: account_run_def)

lemma account_run_grow:
  "signup_invar fj a \<Longrightarrow> users_grow (us_db (ss_service a)) (us_db (ss_service (account_run tj fj aops a)))"
proof (induction aops arbitrary: a)
  case (Cons x aops)
  obtain now op where x: "x = (now, op)" by (cases x)
  have "signup_invar fj (account_step tj fj now op a)" using account_step_ok [OF Cons.prems] by blast
  from Cons.IH [OF this] account_step_grow [OF Cons.prems, of tj now op] show ?case
    unfolding users_grow_def by (simp add: account_run_def x) metis
qed (simp add: account_run_def)

lemma grant_run_accounts:
  "\<exists>aops. gt_accounts (grant_run su txs s) = account_run (su_to_json su) (su_from_json su) aops (gt_accounts s)"
proof (induction txs arbitrary: s)
  case Nil
  have "gt_accounts (grant_run su [] s) = account_run (su_to_json su) (su_from_json su) [] (gt_accounts s)"
    by (simp add: account_run_def)
  then show ?case by blast
next
  case (Cons x txs)
  obtain now tx where x: "x = (now, tx)" by (cases x)
  obtain aops where a: "gt_accounts (grant_run su txs (grant_tx_step su now tx s)) =
      account_run (su_to_json su) (su_from_json su) aops (gt_accounts (grant_tx_step su now tx s))" using Cons.IH by blast
  show ?case
  proof (cases "\<exists>op. tx = AccountTx op")
    case True
    then obtain op where "tx = AccountTx op" by blast
    with a have "gt_accounts (grant_run su (x # txs) s) =
        account_run (su_to_json su) (su_from_json su) ((now, op) # aops) (gt_accounts s)" by (simp add: x account_run_def)
    then show ?thesis by blast
  next
    case False
    then have "gt_accounts (grant_tx_step su now tx s) = gt_accounts s"
      by (cases tx) (auto simp: store_grant_def mint_session_def revoke_grant_def check_nonce_replay_state Let_def split: sum.splits)
    then show ?thesis using a by (auto simp: x)
  qed
qed

section \<open>The invariant of the server\<close>

text \<open>What is used of the third-party packages.\<close>

definition server_env_wf :: "'b server_env \<Rightarrow> bool" where
  "server_env_wf env \<longleftrightarrow> se_from_json (ve_store env) = su_from_json (ve_setup env) \<and>
     (\<forall>c. length (cn_hash (se_content (ve_store env)) c) = 32) \<and> jws_sound (su_env (ve_setup env)) \<and>
     postcard_layout (ve_auth env) \<and> keys_print (se_key_parser (ve_store env)) \<and> decodes_utf8 (ve_decode env)"

text \<open>A cookie session stands for an auth token that was presented and verified.\<close>

definition presented :: "server_op \<Rightarrow> (int \<times> string) list" where
  "presented op = (case op of
     CookieSignupOp clock secret host token body \<Rightarrow> [(rc_now clock, body)]
   | CookieSigninOp clock secret host body \<Rightarrow> [(rc_now clock, body)]
   | _ \<Rightarrow> [])"

definition token_backs :: "'b server_env \<Rightarrow> (int \<times> string) list \<Rightarrow> user_table \<Rightarrow> session_row \<Rightarrow> bool" where
  "token_backs env tokens users r \<longleftrightarrow> (\<exists>now bytes token u. (now, bytes) \<in> set tokens \<and>
     auth_token_verify (ve_auth env) now bytes = Ok token \<and> user_get (at_public_key token) users = Ok u \<and>
     sr_user r = ue_id u \<and> sr_capabilities r = capabilities_to_string (at_capabilities token))"

definition server_invar :: "'b server_env \<Rightarrow> (int \<times> string) list \<Rightarrow> nat \<Rightarrow> 'b server \<Rightarrow> bool" where
  "server_invar env tokens volume sv \<longleftrightarrow> store_invar volume (sv_store sv) \<and> lock_invar (fs_locks (sv_store sv)) \<and>
     grant_invar (ve_setup env) (grant_view sv) \<and>
     (\<forall>r \<in> set (st_rows (sv_cookies sv)). token_backs env tokens (us_db (fs_users (sv_store sv))) r)"

definition op_bytes :: "server_op \<Rightarrow> nat" where
  "op_bytes op = (case op of StorageOp run rq m headers params body \<Rightarrow> body_volume body | _ \<Rightarrow> 0)"

lemma token_backs_grow:
  "users_grow t t' \<Longrightarrow> set tokens \<subseteq> set tokens' \<Longrightarrow> token_backs env tokens t r \<Longrightarrow> token_backs env tokens' t' r"
  unfolding token_backs_def users_grow_def by (metis subsetD)

lemma grant_invar_accounts:
  assumes "grant_invar su s" and "signup_invar (su_from_json su) a" and "users_grow (gt_users s) (us_db (ss_service a))"
    and "gt_accounts s' = a" "gt_grants s' = gt_grants s" "gt_sessions s' = gt_sessions s" "gt_nonces s' = gt_nonces s"
  shows "grant_invar su s'"
  using assms backed_by_grow [OF assms(3)] unfolding grant_invar_def by metis

text \<open>The three ways an operation moves the state.\<close>

lemma server_invar_store:
  assumes inv: "server_invar env tokens volume sv" and env: "server_env_wf env"
    and keeps: "keeps (ve_store env) volume volume' (sv_store sv) st"
  shows "server_invar env tokens volume' (sv\<lparr>sv_store := st\<rparr>)"
proof -
  have grow: "users_grow (us_db (fs_users (sv_store sv))) (us_db (fs_users st))" and st: "store_invar volume' st"
    and coh: "cache_coherent (su_from_json (ve_setup env)) (fs_users st)" and locks: "lock_invar (fs_locks st)"
    using inv keeps env by (auto simp: keeps_def server_invar_def flags_kept_grow grant_invar_def signup_invar_def server_env_wf_def)
  have users: "user_invar (us_db (fs_users st))" using st by (simp add: store_invar_def tables_invar_def)
  have "keyed sc_id (sv_codes sv)" using inv by (simp add: server_invar_def grant_invar_def signup_invar_def)
  then have "signup_invar (su_from_json (ve_setup env)) (accounts_of (sv\<lparr>sv_store := st\<rparr>))"
    using coh users by (simp add: signup_invar_def)
  then have "grant_invar (ve_setup env) (grant_view (sv\<lparr>sv_store := st\<rparr>))"
    by (rule grant_invar_accounts [of "ve_setup env" "grant_view sv", rotated])
      (use inv grow in \<open>simp_all add: server_invar_def\<close>)
  then show ?thesis using st locks inv token_backs_grow [OF grow, of tokens tokens env] by (auto simp: server_invar_def)
qed

lemma server_invar_moved:
  assumes inv: "server_invar env tokens volume sv" and sub: "set tokens \<subseteq> set tokens'"
    and a: "a = account_run (su_to_json (ve_setup env)) (su_from_json (ve_setup env)) aops (accounts_of sv)"
    and sv': "sv_store sv' = (sv_store sv)\<lparr>fs_users := ss_service a\<rparr>"
    and grants: "grant_invar (ve_setup env) (grant_view sv')"
    and cookies: "\<And>r. r \<in> set (st_rows (sv_cookies sv')) \<Longrightarrow>
      r \<in> set (st_rows (sv_cookies sv)) \<or> token_backs env tokens' (us_db (ss_service a)) r"
  shows "server_invar env tokens' volume sv'"
proof -
  have sg: "signup_invar (su_from_json (ve_setup env)) (accounts_of sv)" using inv by (simp add: server_invar_def grant_invar_def)
  have grow: "users_grow (us_db (fs_users (sv_store sv))) (us_db (ss_service a))"
    using account_run_grow [OF sg] by (simp add: a)
  have "store_invar volume (sv_store sv')"
    using inv account_run_tables [of "sv_store sv" "accounts_of sv"] by (simp add: server_invar_def store_invar_def sv' a)
  moreover have "token_backs env tokens' (us_db (fs_users (sv_store sv'))) r" if "r \<in> set (st_rows (sv_cookies sv'))" for r
    using cookies [OF that] inv token_backs_grow [OF grow sub, of env] by (auto simp: server_invar_def sv')
  ultimately show ?thesis using inv grants by (auto simp: server_invar_def sv')
qed

section \<open>Storage requests keep the invariant\<close>

lemma legacy_header_key_parsed: "legacy_header_key parser header pubky = Some pk \<Longrightarrow> pubky = Some pk \<or> (\<exists>s. parser s = Some pk)"
  by (auto simp: legacy_header_key_def split: option.splits if_splits)

lemma find_map_Some: "find_map f xs = Some y \<Longrightarrow> \<exists>x \<in> set xs. f x = Some y"
  by (induction xs) (auto split: option.splits)

lemma extract_legacy_parsed:
  assumes "extract_legacy_pubky parser req = Some pk"
  shows "\<exists>s. parser s = Some pk"
proof -
  let ?header = "legacy_header_key parser (req_pubky_host req) (legacy_header_key parser (req_host req) None)"
  consider "?header = Some pk" | x where "legacy_query_pair parser x = Some pk"
    using assms
    by (auto simp: extract_legacy_pubky_def Let_def bind_eq_Some_conv split: option.splits dest!: find_map_Some)
  then show ?thesis
  proof cases
    case 1
    then show ?thesis using legacy_header_key_parsed by (metis option.distinct(1))
  next
    case 2
    then show ?thesis by (auto simp: legacy_query_pair_def split: option.splits if_splits prod.splits)
  qed
qed

lemma tenant_ok:
  assumes "tenant_from_request parser decode req = Ok (Some t)"
  shows "\<exists>s. parser s = Some (rt_public_key t)"
    and "rt_storage_path t = Some p \<Longrightarrow> \<exists>s d. decode s = Some d \<and> storage_path_normalize (''/'' @ d) = Ok p"
proof -
  obtain u where u: "from_storage_route parser decode (req_path req) = Ok u"
    and t: "(case u of Some tenant \<Rightarrow> Some tenant | None \<Rightarrow> map_option tenant_legacy (extract_legacy_pubky parser req)) = Some t"
    using assms by (auto simp: tenant_from_request_def and_then_ok_iff split: option.splits)
  have "(\<exists>s. parser s = Some (rt_public_key t)) \<and>
      (\<forall>p. rt_storage_path t = Some p \<longrightarrow> (\<exists>s d. decode s = Some d \<and> storage_path_normalize (''/'' @ d) = Ok p))"
  proof (cases u)
    case None
    then obtain pk where "extract_legacy_pubky parser req = Some pk" "t = tenant_legacy pk" using t by auto
    then show ?thesis using extract_legacy_parsed by (auto simp: tenant_legacy_def)
  next
    case (Some v)
    then show ?thesis using u t
      by (auto simp: from_storage_route_def and_then_ok_iff split: if_splits option.splits prod.splits) blast+
  qed
  then show "\<exists>s. parser s = Some (rt_public_key t)"
    "rt_storage_path t = Some p \<Longrightarrow> \<exists>s d. decode s = Some d \<and> storage_path_normalize (''/'' @ d) = Ok p" by blast+
qed

text \<open>The path of a request is well formed, whichever way it was found.\<close>

lemma tenant_path_wf:
  assumes "server_env_wf env" and "tenant_from_request (se_key_parser (ve_store env)) (ve_decode env) req = Ok (Some t)"
    and "ve_decode env s = Some d" and "storage_path_normalize (''/'' @ d) = Ok p"
  shows "path_wf (entry_path_new (rt_public_key t) p)"
    and "parse_opendal (se_key_parser (ve_store env)) (ep_key (entry_path_new (rt_public_key t) p)) =
      Ok (entry_path_new (rt_public_key t) p)"
proof -
  have keys: "keys_print (se_key_parser (ve_store env))" and d: "valid_utf8 d"
    using assms(1,3) by (auto simp: server_env_wf_def decodes_utf8_def)
  obtain raw where raw: "se_key_parser (ve_store env) raw = Some (rt_public_key t)" using tenant_ok(1) [OF assms(2)] by blast
  from routed_path_wf [OF keys raw assms(4) d]
  show "path_wf (entry_path_new (rt_public_key t) p)"
    and "parse_opendal (se_key_parser (ve_store env)) (ep_key (entry_path_new (rt_public_key t) p)) =
      Ok (entry_path_new (rt_public_key t) p)" by simp_all
qed

text \<open>What a request to storage runs on the store: nothing, a request to a storage route, or
  the same handlers behind an owner-relative route.\<close>

lemma legacy_route_cases:
  obtains (none) "snd (legacy_route env run m session tenant uri headers params body s) = s"
  | (routed) raw d p where "ve_decode env raw = Some d" "storage_path_normalize (''/'' @ d) = Ok p"
      "m \<in> {''PUT'', ''DELETE''}"
      "snd (storage_route (ve_store env) (ve_web env) run (\<lambda>s. s) \<lparr>sr_method = m, sr_uri_path = uri, sr_session = session,
         sr_path = entry_path_new (rt_public_key tenant) p, sr_headers = headers, sr_params = params, sr_body = body\<rparr> s) =
       snd (legacy_route env run m session tenant uri headers params body s)"
proof (cases "m \<in> {''PUT'', ''DELETE''}")
  case False
  then have "snd (legacy_route env run m session tenant uri headers params body s) = s"
    by (auto simp: legacy_route_def Let_def)
  then show thesis by (rule none)
next
  case True
  show thesis
  proof (cases "\<exists>auth d p. require_session session = Ok auth \<and> ve_decode env (drop 1 uri) = Some d \<and> webdav_file_path_from_str d = Ok p")
    case ok: True
    then obtain auth d p where r: "require_session session = Ok auth" "ve_decode env (drop 1 uri) = Some d"
      "webdav_file_path_from_str d = Ok p" by blast
    then have n: "storage_path_normalize (''/'' @ d) = Ok p"
      by (auto simp: webdav_file_path_from_str_def webdav_path_from_str_def and_then_ok_iff split: if_splits)
    show thesis
      by (rule routed [OF r(2) n True])
        (use True r in \<open>auto simp: legacy_route_def storage_route_def Let_def legacy_put_def legacy_delete_def case_prod_beta\<close>)
  next
    case fails: False
    have "snd (legacy_route env run m session tenant uri headers params body s) = s"
    proof (cases "require_session session")
      case auth: (Inr auth)
      show ?thesis
      proof (cases "ve_decode env (drop 1 uri)")
        case (Some d)
        then obtain e where "webdav_file_path_from_str d = Err e" using fails auth by (cases "webdav_file_path_from_str d") auto
        then show ?thesis using True auth Some by (auto simp: legacy_route_def Let_def)
      qed (use True auth in \<open>auto simp: legacy_route_def Let_def\<close>)
    qed (use True in \<open>auto simp: legacy_route_def Let_def\<close>)
    then show thesis by (rule none)
  qed
qed

lemma serve_storage_cases:
  assumes env: "server_env_wf env"
  obtains (none) "snd (serve_storage env run rq m headers params body sv) = sv"
  | (routed) tenant path answer st where
      "tenant_from_request (se_key_parser (ve_store env)) (ve_decode env) (rq_target rq) = Ok (Some tenant)"
      "ep_pubkey path = rt_public_key tenant" "path_wf path" "parse_opendal (se_key_parser (ve_store env)) (ep_key path) = Ok path"
      "storage_route (ve_store env) (ve_web env) run (\<lambda>s. s) \<lparr>sr_method = m, sr_uri_path = req_path (rq_target rq),
         sr_session = request_session env rq (Some tenant) sv, sr_path = path, sr_headers = headers, sr_params = params,
         sr_body = body\<rparr> (sv_store sv) = (answer, st)"
      "snd (serve_storage env run rq m headers params body sv) = sv\<lparr>sv_store := st\<rparr>"
proof (cases "\<exists>tenant. tenant_from_request (se_key_parser (ve_store env)) (ve_decode env) (rq_target rq) = Ok (Some tenant)")
  case False
  then have "snd (serve_storage env run rq m headers params body sv) = sv"
    by (auto simp: serve_storage_def split: sum.splits option.splits)
  then show thesis by (rule none)
next
  case True
  then obtain tenant where t: "tenant_from_request (se_key_parser (ve_store env)) (ve_decode env) (rq_target rq) = Ok (Some tenant)" by blast
  let ?session = "request_session env rq (Some tenant) sv" and ?uri = "req_path (rq_target rq)"
  show thesis
  proof (cases "rt_storage_path tenant")
    case (Some p)
    then obtain raw d where d: "ve_decode env raw = Some d" "storage_path_normalize (''/'' @ d) = Ok p" using tenant_ok(2) [OF t] by blast
    let ?path = "entry_path_new (rt_public_key tenant) p"
    let ?r = "storage_route (ve_store env) (ve_web env) run (\<lambda>s. s) \<lparr>sr_method = m, sr_uri_path = ?uri,
         sr_session = ?session, sr_path = ?path, sr_headers = headers, sr_params = params, sr_body = body\<rparr> (sv_store sv)"
    have "snd (serve_storage env run rq m headers params body sv) = sv\<lparr>sv_store := snd ?r\<rparr>"
      using t Some by (simp add: serve_storage_def entry_path_from_parts_def Let_def split: prod.splits)
    then show thesis using routed [OF t, of ?path "fst ?r" "snd ?r"] tenant_path_wf [OF env t d] by simp
  next
    case None
    let ?l = "legacy_route env run m ?session tenant ?uri headers params body (sv_store sv)"
    have l: "snd (serve_storage env run rq m headers params body sv) = sv\<lparr>sv_store := snd ?l\<rparr>"
      using t None by (simp add: serve_storage_def entry_path_from_parts_def Let_def split: prod.splits)
    show thesis
    proof (cases rule: legacy_route_cases [of env run m ?session tenant ?uri headers params body "sv_store sv"])
      case none
      with l have "snd (serve_storage env run rq m headers params body sv) = sv" by simp
      then show thesis by (rule that(1))
    next
      case (routed raw d p)
      let ?path = "entry_path_new (rt_public_key tenant) p"
      let ?r = "storage_route (ve_store env) (ve_web env) run (\<lambda>s. s) \<lparr>sr_method = m, sr_uri_path = ?uri,
         sr_session = ?session, sr_path = ?path, sr_headers = headers, sr_params = params, sr_body = body\<rparr> (sv_store sv)"
      show thesis
        using that(2) [OF t, of ?path "fst ?r" "snd ?r"] tenant_path_wf [OF env t routed(1,2)] l [folded routed(4)] by simp
    qed
  qed
qed

lemma storage_op_invar:
  assumes inv: "server_invar env tokens volume sv" and env: "server_env_wf env" and small: "volume + body_volume body < 2 ^ 63"
  shows "server_invar env tokens (volume + body_volume body) (snd (serve_storage env run rq m headers params body sv))"
  using env
proof (cases rule: serve_storage_cases [where run = run and rq = rq and m = m and headers = headers and params = params and body = body and sv = sv])
  case none
  have "sv = sv\<lparr>sv_store := sv_store sv\<rparr>" by simp
  then show ?thesis using server_invar_store [OF inv env keeps_refl] none by (metis le_add1)
next
  case (routed tenant path answer st)
  have hash: "\<And>c. length (cn_hash (se_content (ve_store env)) c) = 32" using env by (simp add: server_env_wf_def)
  have "store_invar volume (sv_store sv)" using inv by (simp add: server_invar_def)
  from storage_route_keeps [OF this _ _ hash, where req = "\<lparr>sr_method = m, sr_uri_path = req_path (rq_target rq),
         sr_session = request_session env rq (Some tenant) sv, sr_path = path, sr_headers = headers, sr_params = params,
         sr_body = body\<rparr>" and web = "ve_web env" and run = run] routed(3,4,5) small
  have "keeps (ve_store env) volume (volume + body_volume body) (sv_store sv) st" by simp
  from server_invar_store [OF inv env this] show ?thesis by (simp add: routed(6))
qed

section \<open>Every operation keeps the invariant\<close>

lemma grant_moved:
  assumes inv: "server_invar env tokens volume sv" and "\<exists>txs. gt = grant_run (ve_setup env) txs (grant_view sv)"
  shows "server_invar env tokens volume (put_grant gt sv)"
proof -
  obtain txs where run: "gt = grant_run (ve_setup env) txs (grant_view sv)" using assms(2) by blast
  have grants: "grant_invar (ve_setup env) (grant_view sv)" using inv by (simp add: server_invar_def)
  obtain aops where a: "gt_accounts gt = account_run (su_to_json (ve_setup env)) (su_from_json (ve_setup env)) aops (accounts_of sv)"
    using grant_run_accounts [of "ve_setup env" txs "grant_view sv"] by (auto simp: run)
  show ?thesis
    by (rule server_invar_moved [OF inv subset_refl a]) (simp_all add: run grant_run_invar [OF grants])
qed

lemma unmoved_accounts: "accounts_of sv = account_run tj fj [] (accounts_of sv)"
  by (simp add: account_run_def)

text \<open>A cookie operation that leaves the accounts alone, or signs a user up, and adds at most
  a session for the verified token.\<close>

lemma cookie_moved:
  assumes inv: "server_invar env tokens volume sv" and sub: "set tokens \<subseteq> set tokens'"
    and a: "ck_accounts ck = account_run (su_to_json (ve_setup env)) (su_from_json (ve_setup env)) aops (accounts_of sv)"
    and cookies: "\<And>r. r \<in> set (st_rows (ck_sessions ck)) \<Longrightarrow> r \<in> set (st_rows (sv_cookies sv)) \<or> token_backs env tokens' (ck_users ck) r"
  shows "server_invar env tokens' volume (put_cookie ck sv)"
proof -
  have grants: "grant_invar (ve_setup env) (grant_view sv)" using inv by (simp add: server_invar_def)
  then have sg: "signup_invar (su_from_json (ve_setup env)) (accounts_of sv)" by (simp add: grant_invar_def)
  have "signup_invar (su_from_json (ve_setup env)) (ck_accounts ck)" using account_run_ok [OF sg] a by simp
  moreover have "users_grow (gt_users (grant_view sv)) (ck_users ck)" using account_run_grow [OF sg] by (simp add: a)
  ultimately have g: "grant_invar (ve_setup env) (grant_view (put_cookie ck sv))"
    by (rule grant_invar_accounts [OF grants]) simp_all
  show ?thesis by (rule server_invar_moved [OF inv sub a _ g]) (use cookies in simp_all)
qed

lemma session_create_backed:
  assumes "cookie_create_session now secret user token ck = (r, ck')"
    and "auth_token_verify (ve_auth env) checked body = Ok token" and "(checked, body) \<in> set tokens"
    and "user_get (at_public_key token) (ck_users ck) = Ok user"
  shows "ck_accounts ck' = ck_accounts ck"
    and "r0 \<in> set (st_rows (ck_sessions ck')) \<Longrightarrow> r0 \<in> set (st_rows (ck_sessions ck)) \<or> token_backs env tokens (ck_users ck) r0"
proof -
  have "token_backs env tokens (ck_users ck) row" if "sr_user row = ue_id user"
    "sr_capabilities row = capabilities_to_string (at_capabilities token)" for row
    unfolding token_backs_def using assms(2-4) that by blast
  then show "ck_accounts ck' = ck_accounts ck"
    and "r0 \<in> set (st_rows (ck_sessions ck')) \<Longrightarrow> r0 \<in> set (st_rows (ck_sessions ck)) \<or> token_backs env tokens (ck_users ck) r0"
    using assms(1) by (auto simp: cookie_create_session_def session_create_def and_then_ok_iff split: sum.splits)
qed

lemma cookie_verify_ok: "cookie_verify env now gc_now bytes seen = (Ok token, seen') \<Longrightarrow> auth_token_verify env now bytes = Ok token"
  by (auto simp: cookie_verify_def split: sum.splits prod.splits)

lemma signup_op_invar:
  assumes inv: "server_invar env tokens volume sv"
  shows "server_invar env ((rc_now clock, body) # tokens) volume (server_step env (CookieSignupOp clock secret host code body) sv)"
proof -
  let ?tj = "su_to_json (ve_setup env)" and ?fj = "su_from_json (ve_setup env)" and ?tokens = "(rc_now clock, body) # tokens"
  have sg: "signup_invar ?fj (accounts_of sv)" using inv by (simp add: server_invar_def grant_invar_def)
  have idle: "server_invar env ?tokens volume (put_cookie ck sv)"
    if "ck_accounts ck = accounts_of sv" "ck_sessions ck = sv_cookies sv" for ck
    by (rule cookie_moved [OF inv _ trans [OF that(1) unmoved_accounts]]) (use that(2) in auto)
  let ?signup = "\<lambda>token. cookie_signup (ve_auth env) ?tj ?fj (ve_mode env) clock secret body token (cookie_view sv)"
  have moved: "server_invar env ?tokens volume (put_cookie (snd (?signup token)) sv)" for token
  proof -
    obtain r seen where v: "cookie_verify (ve_auth env) (rc_now clock) (rc_gc clock) body (sv_seen sv) = (r, seen)" by (metis prod.collapse)
    show ?thesis
    proof (cases r)
      case (Inl e)
      then show ?thesis using v by (intro idle) (auto simp: cookie_signup_def)
    next
      case (Inr t)
      note t = cookie_verify_ok [OF v [unfolded Inr]]
      show ?thesis
      proof (cases "create_new_user ?tj ?fj (rc_gc clock) (ve_mode env) (at_public_key t) token (accounts_of sv) (accounts_of sv)")
        case (Inl e)
        then show ?thesis using v \<open>r = Inr t\<close> by (intro idle) (auto simp: cookie_signup_def)
      next
        case created: (Inr x)
        obtain user a where x: "x = (user, a)" by (cases x)
        let ?mid = "(cookie_view sv)\<lparr>ck_seen := seen, ck_accounts := a\<rparr>"
        have c: "cookie_create_session (rc_gc clock) secret user t ?mid = (fst (?signup token), snd (?signup token))"
          using v Inr created x by (simp add: cookie_signup_def)
        have user: "user_get (at_public_key t) (us_db (ss_service a)) = Ok user"
          using create_new_user_ok(4) [OF sg] created x by simp
        have a: "a = account_run ?tj ?fj [(rc_gc clock, SignupUser (ve_mode env) (at_public_key t) token (accounts_of sv))] (accounts_of sv)"
          using created x by (simp add: account_run_def or_unchanged_def)
        note b = session_create_backed [where tokens = ?tokens and env = env, OF c t]
        show ?thesis
          by (rule cookie_moved [OF inv _ trans [OF b(1) _]]) (use a user b in auto)
      qed
    qed
  qed
  show ?thesis
    by (cases "parse_signup_token (ve_code_decode env) code")
      (use moved idle [of "cookie_view sv"] in \<open>auto simp: cookie_signup_route_def signup_of_def case_prod_beta\<close>)
qed

lemma signin_op_invar:
  assumes inv: "server_invar env tokens volume sv"
  shows "server_invar env ((rc_now clock, body) # tokens) volume (server_step env (CookieSigninOp clock secret host body) sv)"
proof -
  let ?tokens = "(rc_now clock, body) # tokens" and ?signin = "cookie_signin (ve_auth env) clock secret body (cookie_view sv)"
  have idle: "server_invar env ?tokens volume (put_cookie ck sv)"
    if "ck_accounts ck = accounts_of sv" "ck_sessions ck = sv_cookies sv" for ck
    by (rule cookie_moved [OF inv _ trans [OF that(1) unmoved_accounts]]) (use that(2) in auto)
  obtain r seen where v: "cookie_verify (ve_auth env) (rc_now clock) (rc_gc clock) body (sv_seen sv) = (r, seen)" by (metis prod.collapse)
  have "server_invar env ?tokens volume (put_cookie (snd ?signin) sv)"
  proof (cases "\<exists>t user. r = Ok t \<and> user_get (at_public_key t) (us_db (fs_users (sv_store sv))) = Ok user")
    case True
    then obtain t user where t: "r = Ok t" "user_get (at_public_key t) (us_db (fs_users (sv_store sv))) = Ok user" by blast
    let ?mid = "(cookie_view sv)\<lparr>ck_seen := seen\<rparr>"
    have c: "cookie_create_session (rc_gc clock) secret user t ?mid = (fst ?signin, snd ?signin)"
      using v t by (simp add: cookie_signin_def)
    note b = session_create_backed [where tokens = ?tokens and env = env, OF c cookie_verify_ok [OF v [unfolded t(1)]]]
    show ?thesis
      by (rule cookie_moved [OF inv _ trans [OF b(1) trans [OF _ unmoved_accounts]]]) (use t(2) b in auto)
  next
    case False
    then show ?thesis using v by (intro idle) (auto simp: cookie_signin_def split: sum.splits sql_error.splits)
  qed
  then show ?thesis by (simp add: cookie_signin_route_def case_prod_beta)
qed

lemma signout_op_invar:
  assumes inv: "server_invar env tokens volume sv"
  shows "server_invar env tokens volume (server_step env (CookieSignoutOp rq host) sv)"
proof -
  have "server_invar env tokens volume (put_cookie (cookie_signout auth (cookie_view sv)) sv)" for auth
  proof (rule cookie_moved [OF inv subset_refl trans [OF _ unmoved_accounts]])
    show "ck_accounts (cookie_signout auth (cookie_view sv)) = accounts_of sv"
      by (auto simp: cookie_signout_def split: option.splits auth_session.splits)
    show "r \<in> set (st_rows (ck_sessions (cookie_signout auth (cookie_view sv)))) \<Longrightarrow>
        r \<in> set (st_rows (sv_cookies sv)) \<or> token_backs env tokens (ck_users (cookie_signout auth (cookie_view sv))) r" for r
      by (auto simp: cookie_signout_def session_delete_def delete_where_def split: option.splits auth_session.splits)
  qed
  then show ?thesis using inv by (auto simp: with_tenant_def cookie_signout_route_def split: sum.splits option.splits)
qed

text \<open>The grant routes are runs of grant transactions.\<close>

lemma grant_routes_run:
  shows "\<exists>txs. snd (grant_signup_route (su_env (ve_setup env)) (su_homeserver (ve_setup env)) (signup_of env) now code req gt) =
      grant_run (ve_setup env) txs gt"
    and "\<exists>txs. snd (create_grant_session_route (su_env (ve_setup env)) (su_homeserver (ve_setup env)) now bearer req gt) =
      grant_run (ve_setup env) txs gt"
    and "\<exists>txs. snd (grant_signout_route (su_env (ve_setup env)) (su_homeserver (ve_setup env)) now auth body gt) =
      grant_run (ve_setup env) txs gt"
    and "\<exists>txs. snd (revoke_grant_route now auth gid gt) = grant_run (ve_setup env) txs gt"
proof -
  have nil: "\<exists>txs. gt = grant_run su txs gt" for su by (metis grant_run_simps(1))
  show "\<exists>txs. snd (grant_signup_route (su_env (ve_setup env)) (su_homeserver (ve_setup env)) (signup_of env) now code req gt) =
      grant_run (ve_setup env) txs gt"
    using nil signup_grant_account_run [of "ve_setup env" _ _ _ _ "ve_mode env" now "cg_grant req" "cg_pop req" _ gt]
    by (cases "parse_signup_token (ve_code_decode env) code") (auto simp: grant_signup_route_def signup_of_def case_prod_beta)
  show "\<exists>txs. snd (create_grant_session_route (su_env (ve_setup env)) (su_homeserver (ve_setup env)) now bearer req gt) =
      grant_run (ve_setup env) txs gt"
    using create_grant_session_run by (simp add: create_grant_session_route_def case_prod_beta)
  have "\<exists>txs. revoke_grant now g gt = grant_run (ve_setup env) txs gt" for g
    by (rule exI [of _ "[(now, RevokeTx g)]"]) simp
  then show "\<exists>txs. snd (grant_signout_route (su_env (ve_setup env)) (su_homeserver (ve_setup env)) now auth body gt) =
      grant_run (ve_setup env) txs gt"
    using nil signout_with_proof_run
    by (auto simp: grant_signout_route_def signout_grant_session_def case_prod_beta split: option.splits auth_session.splits)
  show "\<exists>txs. snd (revoke_grant_route now auth gid gt) = grant_run (ve_setup env) txs gt"
    using nil revoke_user_grant_run [of now _ _ gt "ve_setup env"]
    by (auto simp: revoke_grant_route_def st_then_def case_prod_beta split: sum.splits)
qed

lemma server_invar_step:
  assumes inv: "server_invar env tokens volume sv" and env: "server_env_wf env" and small: "volume + op_bytes op < 2 ^ 63"
  shows "server_invar env (presented op @ tokens) (volume + op_bytes op) (server_step env op sv)"
proof (cases op)
  case (StorageOp run rq m headers params body)
  then show ?thesis using storage_op_invar [OF inv env] small by (simp add: op_bytes_def presented_def)
next
  case (AccountOp now aop)
  let ?tj = "su_to_json (ve_setup env)" and ?fj = "su_from_json (ve_setup env)"
  have a: "account_step ?tj ?fj now aop (accounts_of sv) = account_run ?tj ?fj [(now, aop)] (accounts_of sv)"
    by (simp add: account_run_def)
  have "put_accounts (account_step ?tj ?fj now aop (accounts_of sv)) sv =
      put_cookie ((cookie_view sv)\<lparr>ck_accounts := account_step ?tj ?fj now aop (accounts_of sv)\<rparr>) sv"
    by (simp add: put_cookie_def put_accounts_def cookie_view_def)
  moreover have "server_invar env tokens volume \<dots>" by (rule cookie_moved [OF inv subset_refl]) (use a in auto)
  ultimately show ?thesis using AccountOp by (simp add: op_bytes_def presented_def)
next
  case (LockOp now lop)
  let ?st = "sv_store sv"
  have "keeps (ve_store env) volume volume ?st (?st\<lparr>fs_locks := lock_step (fs_locks ?st) now lop\<rparr>)"
    by (rule keeps_locks) (auto intro: lock_step_invar)
  from server_invar_store [OF inv env this] LockOp show ?thesis by (simp add: op_bytes_def presented_def)
next
  case (CookieSignoutOp rq host)
  then show ?thesis using signout_op_invar [OF inv, of rq host] by (simp add: op_bytes_def presented_def)
qed (use inv signup_op_invar [OF inv] signin_op_invar [OF inv] grant_moved [OF inv grant_routes_run(1)]
    grant_moved [OF inv grant_routes_run(2)] grant_moved [OF inv grant_routes_run(3)] grant_moved [OF inv grant_routes_run(4)] in
  \<open>auto simp: op_bytes_def presented_def with_tenant_def split: sum.splits\<close>)

lemma server_invar_tokens:
  "server_invar env tokens volume sv \<Longrightarrow> set tokens \<subseteq> set tokens' \<Longrightarrow> server_invar env tokens' volume sv"
  using token_backs_grow [OF users_grow_refl] unfolding server_invar_def by blast

lemma server_invar_run:
  assumes "server_invar env tokens volume sv" and env: "server_env_wf env" and "volume + sum_list (map op_bytes ops) < 2 ^ 63"
  shows "server_invar env (concat (map presented ops) @ tokens) (volume + sum_list (map op_bytes ops)) (server_run env ops sv)"
  using assms(1,3)
proof (induction ops arbitrary: tokens volume sv)
  case (Cons op ops)
  have "server_invar env (presented op @ tokens) (volume + op_bytes op) (server_step env op sv)"
    using Cons.prems by (intro server_invar_step env) simp_all
  from Cons.IH [OF this] Cons.prems(2)
  have "server_invar env (concat (map presented ops) @ presented op @ tokens)
      (volume + op_bytes op + sum_list (map op_bytes ops)) (server_run env (op # ops) sv)" by (simp add: add.assoc)
  then have "server_invar env (concat (map presented (op # ops)) @ tokens)
      (volume + op_bytes op + sum_list (map op_bytes ops)) (server_run env (op # ops) sv)"
    by (rule server_invar_tokens) auto
  then show ?case by (simp add: add.assoc)
qed simp

lemma server_invar_empty: "server_invar env [] 0 (server_empty b)"
  using store_invar_empty [of b]
  by (simp add: server_invar_def grant_invar_def signup_invar_def server_empty_def store_empty_def
      store_invar_def tables_invar_def tables_of_def cache_coherent_def grant_view_def accounts_of_def)

section \<open>What an authenticated request has behind it\<close>

definition signed_grant :: "'b server_env \<Rightarrow> int \<Rightarrow> public_key \<Rightarrow> storage_path \<Rightarrow> 'b server \<Rightarrow> bool" where
  "signed_grant env now pk path sv \<longleftrightarrow> (\<exists>jws claims. js_verify_grant (su_env (ve_setup env)) pk jws = Some claims \<and>
     permits (gc_caps claims) path Write \<and> unix_secs now < gc_exp claims \<and> \<not> revoked_in (gc_jti claims) (grant_view sv))"

definition signed_token :: "'b server_env \<Rightarrow> (int \<times> string) list \<Rightarrow> public_key \<Rightarrow> storage_path \<Rightarrow> bool" where
  "signed_token env tokens pk path \<longleftrightarrow> (\<exists>now bytes token. (now, bytes) \<in> set tokens \<and>
     auth_token_verify (ve_auth env) now bytes = Ok token \<and> at_public_key token = pk \<and> permits (at_capabilities token) path Write)"

lemma auth_token_verify_wf:
  "postcard_layout env \<Longrightarrow> auth_token_verify env now bytes = Ok token \<Longrightarrow> list_all wf_capability (at_capabilities token)"
  by (auto simp: auth_token_verify_def postcard_layout_def Let_def split: if_splits option.splits)

lemma cookie_session_signed:
  assumes inv: "server_invar env tokens volume sv" and env: "server_env_wf env"
    and found: "session_get_by_secret secret (sv_cookies sv) (us_db (fs_users (sv_store sv))) = Ok sess"
    and permits: "permits (se_capabilities sess) path Write"
  shows "signed_token env tokens (se_user_pubkey sess) path"
proof -
  let ?users = "us_db (fs_users (sv_store sv))"
  obtain r where r: "r \<in> set (st_rows (sv_cookies sv))" "session_from_row r ?users = Ok sess"
    using found by (auto simp: session_get_by_secret_def and_then_ok_iff dest: row_of_SomeD)
  then obtain now bytes token u where b: "(now, bytes) \<in> set tokens" "auth_token_verify (ve_auth env) now bytes = Ok token"
    "user_get (at_public_key token) ?users = Ok u" "sr_user r = ue_id u" "sr_capabilities r = capabilities_to_string (at_capabilities token)"
    using inv unfolding server_invar_def token_backs_def by blast
  have "user_invar ?users" using inv by (simp add: server_invar_def store_invar_def tables_invar_def)
  from user_row_by_id [OF this b(3)] have row: "row_of ue_id (ut_rows ?users) (sr_user r) = Some u" by (simp add: b(4))
  have "list_all wf_capability (at_capabilities token)" using auth_token_verify_wf b(2) env by (auto simp: server_env_wf_def)
  then have "se_capabilities sess = at_capabilities token" "se_user_pubkey sess = at_public_key token"
    using r(2) row b(5) user_getD [OF b(3)] by (auto simp: session_from_row_def and_then_ok_iff capabilities_round_trip)
  then show ?thesis using b(1,2) permits unfolding signed_token_def by auto
qed

lemma cookie_resolved:
  assumes "resolve_session_from_cookie cookie_value pk s = Some session"
  shows "\<exists>secret sess. session_get_by_secret secret (ck_sessions s) (ck_users s) = Ok sess \<and> session = CookieSession sess"
proof -
  obtain secret where "(case resolve_active_session_for_user secret pk s of Inr (Some c) \<Rightarrow> Some (CookieSession c) | _ \<Rightarrow> None) = Some session"
    using assms by (auto simp: resolve_session_from_cookie_def bind_eq_Some_conv)
  then show ?thesis
    by (cases "session_get_by_secret secret (ck_sessions s) (ck_users s)")
      (auto simp: resolve_active_session_for_user_def split: if_splits)
qed

lemma request_session_signed:
  assumes inv: "server_invar env tokens volume sv" and env: "server_env_wf env"
    and session: "request_session env rq tenant sv = Some session"
    and permits: "permits (session_capabilities session) path Write"
  shows "signed_grant env (rq_now rq) (session_user_key session) path sv \<or> signed_token env tokens (session_user_key session) path"
proof (cases "grant_middleware (su_env (ve_setup env)) (rq_now rq) (cr_authorization (rq_cred rq)) (grant_view sv)")
  case (Some g)
  then obtain bearer sess where b: "resolve_grant_session_by_bearer (su_env (ve_setup env)) (rq_now rq) bearer (grant_view sv) = Ok sess"
    and s: "session = GrantAuthSession sess"
    using session by (auto simp: request_session_def authentication_layer_def cookie_middleware_def grant_middleware_def
        split: bearer_extraction.splits sum.splits)
  have "jws_sound (su_env (ve_setup env))" and "grant_invar (ve_setup env) (grant_view sv)"
    using env inv by (simp_all add: server_env_wf_def server_invar_def)
  from resolved_grant_signed [OF this b] permits have "signed_grant env (rq_now rq) (gs_user_key sess) path sv"
    unfolding signed_grant_def s by (metis session_capabilities.simps(2))
  then show ?thesis by (simp add: s)
next
  case None
  then obtain secret sess where "session_get_by_secret secret (sv_cookies sv) (us_db (fs_users (sv_store sv))) = Ok sess"
    and "session = CookieSession sess"
    using session cookie_resolved [where s = "cookie_view sv"]
    by (fastforce simp: request_session_def authentication_layer_def cookie_middleware_def extract_session_from_cookie_def
        split: option.splits)
  with cookie_session_signed [OF inv env] permits show ?thesis by simp
qed

lemma other_ops_keep_files:
  assumes "\<forall>run rq m headers params body. op \<noteq> StorageOp run rq m headers params body"
  shows "files_of (tables_of (sv_store (server_step env op sv))) = files_of (tables_of (sv_store sv))"
  using assms by (cases op) (auto simp: with_tenant_def files_of_def fun_eq_iff split: sum.splits option.splits)

text \<open>The change a request makes on its own, with no other request in between.\<close>

lemma storage_route_alone:
  assumes inv: "store_invar volume s" and path: "path_wf (sr_path req)"
    and parses: "parse_opendal (se_key_parser env) (ep_key (sr_path req)) = Ok (sr_path req)"
    and hash: "\<And>c. length (cn_hash (se_content env) c) = 32" and small: "volume + body_volume (sr_body req) < 2 ^ 63"
    and route: "storage_route env web run (\<lambda>s. s) req s = (answer, s')"
    and diff: "files_of (tables_of s') k \<noteq> files_of (tables_of s) k"
  shows "\<exists>session owner. sr_method req \<in> {''PUT'', ''DELETE''} \<and> sr_session req = Some session \<and>
    session_user_key session = ep_pubkey (sr_path req) \<and> permits (session_capabilities session) (ep_path (sr_path req)) Write \<and>
    user_get (ep_pubkey (sr_path req)) (us_db (fs_users s)) = Ok owner \<and> (sr_method req = ''PUT'' \<longrightarrow> \<not> ue_disabled owner) \<and>
    (sr_method req = ''DELETE'' \<longrightarrow> files_of (tables_of s') k = None) \<and>
    k = (ue_id owner, as_str (ep_path (sr_path req)))"
proof -
  let ?s1 = "checked_locks run (sr_path req) (sh_lock (sr_headers req)) s"
  have inv1: "store_invar volume ?s1" using inv checked_locks_keeps [of env volume s] by (simp add: keeps_def)
  have same: "files_of (tables_of ?s1) k = files_of (tables_of s) k" "us_db (fs_users ?s1) = us_db (fs_users s)"
    by (simp_all add: checked_locks_def tables_of_def)
  have fits: "volume + length (body_bytes (sr_body req)) + FILE_METADATA_SIZE < 2 ^ 63" "volume < 2 ^ 63"
    using small by (simp_all add: body_volume_def)
  have "tables_of s' \<noteq> tables_of s" using diff by auto
  with route show ?thesis
  proof (cases rule: storage_route_writes)
    case (put session r)
    from put_route_changes [where others = "\<lambda>s. s", OF refl inv1 path parses hash fits(1) same(1) put(3) diff] put(1,2) same(2)
    show ?thesis by (auto simp: authorize_write_ok has_write_permission_ok)
  next
    case (delete session r)
    from delete_route_changes [where others = "\<lambda>s. s", OF refl inv1 path parses fits(2) same(1) delete(3) diff] delete(1,2) same(2)
    show ?thesis by (auto simp: authorize_write_ok has_write_permission_ok)
  qed
qed

section \<open>Examples\<close>

text \<open>One owner, who signs up, presents a grant on the public folder, and uploads a file with
  the bearer of the grant.\<close>

definition demo_owner :: public_key where
  "demo_owner = PublicKey (replicate 52 (CHR ''y''))"

definition demo_claims :: grant_claims where
  "demo_claims = example_claims\<lparr>gc_iss := demo_owner, gc_caps := [\<lparr>scope = StoragePath ''/pub/'', actions = [Read, Write]\<rparr>]\<rparr>"

definition demo_jws :: jws_env where
  "demo_jws = example_env\<lparr>js_grant_json := (\<lambda>p. if p = ''p'' then Some demo_claims else None),
     js_verify_grant := (\<lambda>k j. if k = demo_owner \<and> j = ''h.p.s'' then Some demo_claims else None)\<rparr>"

definition demo_env :: "memory_store server_env" where
  "demo_env = \<lparr>ve_store = (example_store_env True)\<lparr>se_key_parser := (\<lambda>s. if s = z32 demo_owner then Some demo_owner else None)\<rparr>,
     ve_web = example_web, ve_decode = (\<lambda>s. if valid_utf8 s then Some s else None),
     ve_auth = \<lparr>env_serialize = (\<lambda>_. []), env_deserialize = (\<lambda>_. None), env_verify = (\<lambda>_ _ _. False), env_key_bytes = z32\<rparr>,
     ve_cookie = \<lparr>cv_key_parser = (\<lambda>_. None), cv_parse_host = (\<lambda>_. None), cv_make_removal = (\<lambda>c. c), cv_serialize = (\<lambda>_. []),
       cv_parsing_message = []\<rparr>,
     ve_setup = example_setup\<lparr>su_env := demo_jws\<rparr>, ve_mode = Open, ve_code_decode = (\<lambda>_. None)\<rparr>"

definition demo_bearer :: string where
  "demo_bearer = replicate 43 (CHR ''b'')"

definition demo_ops :: "server_op list" where
  "demo_ops = [AccountOp 0 (SignupUser Open demo_owner None \<lparr>ss_service = \<lparr>us_db = \<lparr>ut_rows = [], ut_seq = 1\<rparr>, us_cache = []\<rparr>, ss_codes = []\<rparr>),
     GrantSessionOp 1180000000 demo_bearer \<lparr>cg_grant = ''h.p.s'', cg_pop = ''h.q.s''\<rparr>]"

definition demo_put :: server_op where
  "demo_put = StorageOp example_run \<lparr>rq_now = 1200000000,
     rq_cred = \<lparr>cr_authorization = Some (''Bearer '' @ demo_bearer), cr_cookies = None\<rparr>,
     rq_target = \<lparr>req_path = ''/storage/'' @ z32 demo_owner @ ''/pub/z'', req_query = None, req_host = None, req_pubky_host = None\<rparr>\<rparr>
     ''PUT'' example_headers Map.empty [Chunk ''hello'']"

abbreviation demo_start :: "memory_store server" where
  "demo_start \<equiv> server_empty \<lparr>ms_objects = [], ms_next = 1\<rparr>"

lemma demo_jws_sound: "jws_sound demo_jws"
proof -
  have "random_id_parse (gc_jti demo_claims) = Some (gc_jti demo_claims)"
    "client_id_new (gc_client_id demo_claims) = Some (gc_client_id demo_claims)"
    "list_all wf_capability (gc_caps demo_claims)" "gc_exp demo_claims < 2 ^ 64"
    "decode_grant_payload demo_jws ''h.p.s'' = Some demo_claims"
    by (code_simp, code_simp, code_simp, code_simp, code_simp)
  then show ?thesis by (auto simp: jws_sound_def demo_jws_def split: if_splits)
qed

lemma demo_env_wf: "server_env_wf demo_env"
  using demo_jws_sound example_content [of True]
  by (auto simp: server_env_wf_def demo_env_def example_setup_def example_store_env_def postcard_layout_def keys_print_def
      decodes_utf8_def demo_owner_def split: if_splits)

section \<open>Properties\<close>



end
