(* ===== verification/Revocation.thy ===== *)
theory Revocation
  imports Server
begin

text \<open>
  How a revocation reaches the private event streams that are already open: the listener
  for committed revocations with its supervisor (\<^verbatim>\<open>client_server/auth/revocation/listener.rs\<close>),
  the check of a credential against the database (\<^verbatim>\<open>client_server/auth/state.rs\<close>), and the
  guard a stream asks before it sends an event (\<^verbatim>\<open>client_server/auth/stream_auth.rs\<close>).
  Requests to the homeserver, the forwarding of notifications and the guard interleave in
  any order.  The broadcast channel may drop its oldest messages for a slow receiver and then
  reports a lag; it reports that it is closed once the listener is gone.
\<close>

section \<open>Model: the supervisor of the listener\<close>

definition REPLACEMENT_COOLDOWN :: int where "REPLACEMENT_COOLDOWN = 1000000"

definition try_start :: "int \<Rightarrow> int option \<Rightarrow> bool \<times> int option" where
  "try_start now last_attempt =
     (if (case last_attempt of Some started \<Rightarrow> now - started < REPLACEMENT_COOLDOWN | None \<Rightarrow> False)
      then (False, last_attempt) else (True, Some now))"

text \<open>The supervisor knows whether it holds an actor, and when it last tried to replace one.
  Each turn of the loop in \<^verbatim>\<open>subscribe\<close> takes from its surroundings whether that actor still
  lives, the instant, and whether a new listener could connect.\<close>

record supervisor =
  sp_actor :: bool
  sp_last_attempt :: "int option"

record subscribe_turn =
  tn_alive :: bool
  tn_now :: int
  tn_connects :: bool

datatype subscription = Subscribed | RevocationUnavailable

definition supervisor_replace :: "subscribe_turn \<Rightarrow> supervisor \<Rightarrow> bool \<times> supervisor" where
  "supervisor_replace turn v =
     (case try_start (tn_now turn) (sp_last_attempt v) of
        (False, last_attempt) \<Rightarrow> (False, v\<lparr>sp_last_attempt := last_attempt\<rparr>)
      | (True, last_attempt) \<Rightarrow>
          if tn_connects turn then (True, v\<lparr>sp_actor := True, sp_last_attempt := last_attempt\<rparr>)
          else (False, v\<lparr>sp_last_attempt := last_attempt\<rparr>))"

fun supervisor_subscribe :: "subscribe_turn list \<Rightarrow> supervisor \<Rightarrow> (subscription \<times> supervisor) option" where
  "supervisor_subscribe [] v = None"
| "supervisor_subscribe (turn # turns) v =
     (if sp_actor v \<and> tn_alive turn then Some (Subscribed, v)
      else case supervisor_replace turn (v\<lparr>sp_actor := False\<rparr>) of
             (True, v) \<Rightarrow> supervisor_subscribe turns v
           | (False, v) \<Rightarrow> Some (RevocationUnavailable, v))"

section \<open>Model: the receiver of a stream and the listener actor\<close>

record revocation_rx =
  rv_buffer :: "auth_revocation list"
  rv_lagged :: bool
  rv_closed :: bool

definition resubscribe :: "revocation_rx \<Rightarrow> revocation_rx" where
  "resubscribe rx = rx\<lparr>rv_buffer := [], rv_lagged := False\<rparr>"

text \<open>What the actor gets from its database connection.  The JSON codec of the payload is a
  parameter.\<close>

datatype listener_input = Notification string | ConnectionLost | ListenerFailed

definition actor_step ::
  "(string \<Rightarrow> auth_revocation option) \<Rightarrow> listener_input \<Rightarrow> revocation_rx \<Rightarrow> revocation_rx" where
  "actor_step from_json input rx =
     (if rv_closed rx then rx
      else case input of
             Notification payload \<Rightarrow>
               (case from_json payload of
                  Some revocation \<Rightarrow> rx\<lparr>rv_buffer := rv_buffer rx @ [revocation]\<rparr>
                | None \<Rightarrow> rx\<lparr>rv_closed := True\<rparr>)
           | ConnectionLost \<Rightarrow> rx\<lparr>rv_closed := True\<rparr>
           | ListenerFailed \<Rightarrow> rx\<lparr>rv_closed := True\<rparr>)"

section \<open>Model: the state a stream lives in\<close>

text \<open>The homeserver, the payloads of the notifications its transactions have committed and
  the actor has not received yet, and the receiver of the stream.\<close>

record 'b stream_world =
  sw_server :: "'b server"
  sw_flight :: "string list"
  sw_rx :: revocation_rx

record notify_codec =
  nc_to_json :: "auth_revocation \<Rightarrow> string"
  nc_from_json :: "string \<Rightarrow> auth_revocation option"

datatype world_op =
    Request server_op
  | Deliver
  | LoseConnection
  | FailListener
  | Overrun nat

fun world_step :: "notify_codec \<Rightarrow> 'b server_env \<Rightarrow> world_op \<Rightarrow> 'b stream_world \<Rightarrow> 'b stream_world" where
  "world_step nc env (Request op) w =
     (let sv = server_step env op (sw_server w);
          committed = drop (length (sv_notified (sw_server w))) (sv_notified sv)
      in w\<lparr>sw_server := sv, sw_flight := sw_flight w @ map (nc_to_json nc) committed\<rparr>)"
| "world_step nc env Deliver w =
     (case sw_flight w of
        [] \<Rightarrow> w
      | payload # rest \<Rightarrow> w\<lparr>sw_flight := rest, sw_rx := actor_step (nc_from_json nc) (Notification payload) (sw_rx w)\<rparr>)"
| "world_step nc env LoseConnection w = w\<lparr>sw_rx := actor_step (nc_from_json nc) ConnectionLost (sw_rx w)\<rparr>"
| "world_step nc env FailListener w = w\<lparr>sw_rx := actor_step (nc_from_json nc) ListenerFailed (sw_rx w)\<rparr>"
| "world_step nc env (Overrun n) w =
     (let rx = sw_rx w in
      if n = 0 then w else w\<lparr>sw_rx := rx\<lparr>rv_buffer := drop n (rv_buffer rx), rv_lagged := True\<rparr>\<rparr>)"

definition world_run :: "notify_codec \<Rightarrow> 'b server_env \<Rightarrow> world_op list \<Rightarrow> 'b stream_world \<Rightarrow> 'b stream_world" where
  "world_run nc env ops w = fold (world_step nc env) ops w"

section \<open>Model: the guard of a stream\<close>

definition validate_private_stream_session :: "int \<Rightarrow> auth_session \<Rightarrow> 'b server \<Rightarrow> (http_error, unit) result" where
  "validate_private_stream_session now session sv =
     (case session of
        CookieSession c \<Rightarrow> validate_active_session c (cookie_view sv)
      | GrantAuthSession g \<Rightarrow> map_err auth_service_http_error (map_ok (\<lambda>_. ()) (validate_active_grant_session now g (grant_view sv))))"

datatype revocation_signal = Continue | Close | Revalidate

fun drain_revocations :: "auth_session \<Rightarrow> auth_revocation list \<Rightarrow> auth_revocation list option" where
  "drain_revocations session [] = Some []"
| "drain_revocations session (r # rs) = (if revocation_matches r session then None else drain_revocations session rs)"

definition pending_revocation :: "auth_session \<Rightarrow> revocation_rx \<Rightarrow> revocation_signal \<times> revocation_rx" where
  "pending_revocation session rx =
     (if rv_lagged rx then (Revalidate, resubscribe rx)
      else case drain_revocations session (rv_buffer rx) of
             None \<Rightarrow> (Close, rx)
           | Some _ \<Rightarrow> (if rv_closed rx then Close else Continue, rx\<lparr>rv_buffer := []\<rparr>))"

definition session_valid :: "int \<Rightarrow> auth_session \<Rightarrow> 'b stream_world \<Rightarrow> bool" where
  "session_valid now session w = is_ok (validate_private_stream_session now session (sw_server w))"

text \<open>\<^verbatim>\<open>is_valid\<close>: whatever happens while the credential is looked up in the database happens
  after the receiver was renewed; \<^verbatim>\<open>steps\<close> lists, for each lookup, what happens before it and
  its instant.\<close>

function is_valid ::
  "notify_codec \<Rightarrow> 'b server_env \<Rightarrow> int \<Rightarrow> auth_session \<Rightarrow> (world_op list \<times> int) list \<Rightarrow> 'b stream_world \<Rightarrow> bool \<times> 'b stream_world" where
  "is_valid nc env now session steps w =
     (case pending_revocation session (sw_rx w) of
        (Continue, rx) \<Rightarrow> (True, w\<lparr>sw_rx := rx\<rparr>)
      | (Close, rx) \<Rightarrow> (False, w\<lparr>sw_rx := rx\<rparr>)
      | (Revalidate, rx) \<Rightarrow>
          (case steps of
             [] \<Rightarrow> if session_valid now session (w\<lparr>sw_rx := rx\<rparr>) then is_valid nc env now session [] (w\<lparr>sw_rx := rx\<rparr>)
                   else (False, w\<lparr>sw_rx := rx\<rparr>)
           | (ops, n) # rest \<Rightarrow>
               let w = world_run nc env ops (w\<lparr>sw_rx := rx\<rparr>)
               in if session_valid n session w then is_valid nc env now session rest w else (False, w)))"
  by pat_completeness auto

termination is_valid
  by (relation "measure (\<lambda>(nc, env, now, session, steps, w). 2 * length steps + (if rv_lagged (sw_rx w) then 1 else 0))")
    (auto simp: pending_revocation_def resubscribe_def split: if_splits option.splits)

text \<open>\<^verbatim>\<open>next_check\<close> waits for one signal; in the live tail it is polled first, so an event is
  received only while it has nothing to report.\<close>

definition next_check_ready :: "revocation_rx \<Rightarrow> bool" where
  "next_check_ready rx \<longleftrightarrow> rv_lagged rx \<or> rv_buffer rx \<noteq> [] \<or> rv_closed rx"

definition next_check_signal :: "auth_session \<Rightarrow> revocation_rx \<Rightarrow> revocation_signal \<times> revocation_rx" where
  "next_check_signal session rx =
     (if rv_lagged rx then (Revalidate, resubscribe rx)
      else case rv_buffer rx of
             r # rest \<Rightarrow> (if revocation_matches r session then Close else Continue, rx\<lparr>rv_buffer := rest\<rparr>)
           | [] \<Rightarrow> (Close, rx))"

definition next_check ::
  "notify_codec \<Rightarrow> 'b server_env \<Rightarrow> auth_session \<Rightarrow> world_op list \<times> int \<Rightarrow> 'b stream_world \<Rightarrow> bool \<times> 'b stream_world" where
  "next_check nc env session step w =
     (case next_check_signal session (sw_rx w) of
        (Continue, rx) \<Rightarrow> (True, w\<lparr>sw_rx := rx\<rparr>)
      | (Close, rx) \<Rightarrow> (False, w\<lparr>sw_rx := rx\<rparr>)
      | (Revalidate, rx) \<Rightarrow>
          (let w = world_run nc env (fst step) (w\<lparr>sw_rx := rx\<rparr>) in (session_valid (snd step) session w, w)))"

text \<open>\<^verbatim>\<open>PendingStreamAuth\<close>: the receiver is taken first, the credential is validated afterwards.
  The first step of the list is what happens before that validation.\<close>

definition stream_authorize ::
  "notify_codec \<Rightarrow> 'b server_env \<Rightarrow> auth_session option \<Rightarrow> world_op list \<times> int \<Rightarrow> (world_op list \<times> int) list \<Rightarrow>
   'b stream_world \<Rightarrow> (http_error, auth_session) result \<times> 'b stream_world" where
  "stream_authorize nc env session step steps w =
     (case session of
        None \<Rightarrow> (Err unauthorized, w)
      | Some session \<Rightarrow>
          let w = world_run nc env (fst step) w in
          (case validate_private_stream_session (snd step) session (sw_server w) of
             Inl e \<Rightarrow> (Err e, w)
           | Inr _ \<Rightarrow>
               (case is_valid nc env (snd step) session steps w of
                  (True, w) \<Rightarrow> (Ok session, w)
                | (False, w) \<Rightarrow> (Err unauthorized, w))))"

section \<open>The supervisor\<close>

text \<open>A subscription does not loop: after one replacement a second one within the cooldown is
  refused.\<close>

lemma subscribe_returns:
  assumes "tn_now second - tn_now first < REPLACEMENT_COOLDOWN"
  shows "\<exists>answer v'. supervisor_subscribe (first # second # turns) v = Some (answer, v')"
  using assms by (auto simp: supervisor_replace_def try_start_def split: prod.splits bool.splits option.splits if_splits)

text \<open>Attempts to connect lie a cooldown apart, whatever the requests ask for.\<close>

lemma attempts_spaced:
  assumes "supervisor_replace turn v = (answer, v')" and "sp_last_attempt v' \<noteq> sp_last_attempt v"
  shows "sp_last_attempt v' = Some (tn_now turn) \<and>
    (case sp_last_attempt v of None \<Rightarrow> True | Some started \<Rightarrow> REPLACEMENT_COOLDOWN \<le> tn_now turn - started)"
  using assms by (auto simp: supervisor_replace_def try_start_def split: prod.splits bool.splits option.splits if_splits)

section \<open>Every revocation is notified\<close>

fun credential_live :: "auth_session \<Rightarrow> 'b server \<Rightarrow> bool" where
  "credential_live (CookieSession c) sv \<longleftrightarrow> (\<exists>r \<in> set (st_rows (sv_cookies sv)). sr_id r = se_id c)"
| "credential_live (GrantAuthSession g) sv \<longleftrightarrow> \<not> revoked_in (gs_grant_id g) (grant_view sv)"

definition secrets_unique :: "'b server \<Rightarrow> bool" where
  "secrets_unique sv \<longleftrightarrow> keyed sr_secret (st_rows (sv_cookies sv))"

text \<open>What a step may do to the credentials: it notifies of each one it revokes.\<close>

definition notifies :: "'b server \<Rightarrow> 'b server \<Rightarrow> bool" where
  "notifies sv sv' \<longleftrightarrow> secrets_unique sv' \<and> (\<exists>sent. sv_notified sv' = sv_notified sv @ sent \<and>
     (\<forall>session. credential_live session sv \<longrightarrow>
        credential_live session sv' \<or> (\<exists>r \<in> set sent. revocation_matches r session)))"

lemma notifies_same:
  assumes "secrets_unique sv" and "sv_cookies sv' = sv_cookies sv" "sv_grants sv' = sv_grants sv" "sv_notified sv' = sv_notified sv"
  shows "notifies sv sv'"
proof -
  have "credential_live session sv' = credential_live session sv" for session
    using assms(2,3) by (cases session) (simp_all add: revoked_in_def)
  then show ?thesis using assms by (auto simp: notifies_def secrets_unique_def)
qed

lemma grant_tx_notifies:
  "\<exists>sent. gt_notified (grant_tx_step su now tx s) = gt_notified s @ sent \<and>
     (\<forall>gid. revoked_in gid (grant_tx_step su now tx s) \<longrightarrow> revoked_in gid s \<or> RevokeGrant gid \<in> set sent)"
proof (cases tx)
  case (StoreGrantTx jws)
  have "revoked_in gid (store_grant now claims user s) \<longrightarrow> revoked_in gid s" for gid claims user
    by (auto simp: revoked_in_def store_grant_def grant_create_def row_of_append row_of_Cons split: option.splits if_splits)
  moreover have "gt_notified (store_grant now claims user s) = gt_notified s" for claims user by (simp add: store_grant_def)
  ultimately show ?thesis using StoreGrantTx by (auto split: sum.splits)
next
  case (MintTx jws bearer)
  have "gt_notified (snd (mint_session e h now bearer claims s)) = gt_notified s" for e h claims
    by (auto simp: mint_session_def Let_def split: sum.splits)
  then show ?thesis using MintTx by (auto simp: revoked_in_def gt_grants_mint split: sum.splits)
next
  case (RevokeTx gid)
  have "gt_notified (grant_tx_step su now tx s) = gt_notified s @ [RevokeGrant gid] \<and>
      (\<forall>g. revoked_in g (grant_tx_step su now tx s) \<longrightarrow> revoked_in g s \<or> RevokeGrant g \<in> set [RevokeGrant gid])"
    using RevokeTx by (auto simp: revoke_grant_def revoked_in_def row_of_revoke split: option.splits if_splits)
  then show ?thesis by blast
qed (auto simp: check_nonce_replay_state revoked_in_def)

lemma grant_run_notifies:
  "\<exists>sent. gt_notified (grant_run su txs s) = gt_notified s @ sent \<and>
     (\<forall>gid. revoked_in gid (grant_run su txs s) \<longrightarrow> revoked_in gid s \<or> RevokeGrant gid \<in> set sent)"
proof (induction txs arbitrary: s)
  case (Cons x txs)
  obtain now tx where x: "x = (now, tx)" by (cases x)
  obtain sent where a: "gt_notified (grant_tx_step su now tx s) = gt_notified s @ sent"
    "\<forall>gid. revoked_in gid (grant_tx_step su now tx s) \<longrightarrow> revoked_in gid s \<or> RevokeGrant gid \<in> set sent"
    using grant_tx_notifies by blast
  obtain more where b: "gt_notified (grant_run su txs (grant_tx_step su now tx s)) = gt_notified (grant_tx_step su now tx s) @ more"
    "\<forall>gid. revoked_in gid (grant_run su txs (grant_tx_step su now tx s)) \<longrightarrow>
      revoked_in gid (grant_tx_step su now tx s) \<or> RevokeGrant gid \<in> set more"
    using Cons.IH by blast
  show ?case by (rule exI [of _ "sent @ more"]) (use a b in \<open>auto simp: x\<close>)
qed simp

lemma put_grant_notifies:
  assumes "secrets_unique sv" and "\<exists>txs. gt = grant_run su txs (grant_view sv)"
  shows "notifies sv (put_grant gt sv)"
proof -
  obtain sent where sent: "gt_notified gt = sv_notified sv @ sent"
    "\<And>gid. revoked_in gid gt \<Longrightarrow> revoked_in gid (grant_view sv) \<or> RevokeGrant gid \<in> set sent"
    using assms(2) grant_run_notifies [of su _ "grant_view sv"] by (auto simp: grant_view_def)
  have "credential_live session (put_grant gt sv) \<or> (\<exists>r \<in> set sent. revocation_matches r session)"
    if "credential_live session sv" for session
  proof (cases session)
    case (GrantAuthSession g)
    have "revocation_matches (RevokeGrant (gs_grant_id g)) session" using GrantAuthSession by (simp add: revocation_matches_def)
    then show ?thesis using that sent(2) [of "gs_grant_id g"] GrantAuthSession by auto
  qed (use that in simp)
  then show ?thesis using assms(1) sent(1) by (auto simp: notifies_def secrets_unique_def put_grant_def put_accounts_def)
qed

text \<open>A sign-in or sign-up only adds sessions.\<close>

definition adds_sessions :: "string \<Rightarrow> cookie_state \<Rightarrow> cookie_state \<Rightarrow> bool" where
  "adds_sessions secret ck ck' \<longleftrightarrow> ck_notified ck' = ck_notified ck \<and> set (st_rows (ck_sessions ck)) \<subseteq> set (st_rows (ck_sessions ck')) \<and>
     (\<forall>r \<in> set (st_rows (ck_sessions ck')). r \<in> set (st_rows (ck_sessions ck)) \<or> sr_secret r = secret) \<and>
     (keyed sr_secret (st_rows (ck_sessions ck)) \<longrightarrow> keyed sr_secret (st_rows (ck_sessions ck')))"

lemma cookie_create_adds: "adds_sessions secret ck (snd (cookie_create_session now secret user token ck))"
  by (auto simp: adds_sessions_def cookie_create_session_def session_create_def and_then_ok_iff keyed_snoc split: sum.splits)

lemma cookie_signin_adds: "adds_sessions secret ck (snd (cookie_signin env clock secret body ck))"
proof -
  have "adds_sessions secret ck (snd (cookie_create_session now secret user token (ck\<lparr>ck_seen := seen\<rparr>)))" for now user token seen
    using cookie_create_adds [where ck = "ck\<lparr>ck_seen := seen\<rparr>"] by (simp add: adds_sessions_def)
  moreover have "adds_sessions secret ck (ck\<lparr>ck_seen := seen\<rparr>)" for seen by (simp add: adds_sessions_def)
  ultimately show ?thesis by (auto simp: cookie_signin_def split: prod.splits sum.splits sql_error.splits)
qed

lemma cookie_signup_adds: "adds_sessions secret ck (snd (cookie_signup env tj fj mode clock secret body code ck))"
proof -
  have "adds_sessions secret ck (snd (cookie_create_session now secret user token (ck\<lparr>ck_seen := seen, ck_accounts := a\<rparr>)))" for now user token seen a
    using cookie_create_adds [where ck = "ck\<lparr>ck_seen := seen, ck_accounts := a\<rparr>"] by (simp add: adds_sessions_def)
  moreover have "adds_sessions secret ck (ck\<lparr>ck_seen := seen\<rparr>)" for seen by (simp add: adds_sessions_def)
  ultimately show ?thesis by (auto simp: cookie_signup_def split: prod.splits sum.splits)
qed

lemma cookie_routes_add:
  "adds_sessions secret ck (snd (cookie_signup_route env cenv sg clock secret host token body ck))"
  "adds_sessions secret ck (snd (cookie_signin_route env cenv clock secret host body ck))"
proof -
  have "adds_sessions secret ck ck" by (simp add: adds_sessions_def)
  then show "adds_sessions secret ck (snd (cookie_signup_route env cenv sg clock secret host token body ck))"
    by (simp add: cookie_signup_route_def case_prod_beta cookie_signup_adds st_then_def split: sum.split)
qed (simp add: cookie_signin_route_def case_prod_beta cookie_signin_adds)

lemma put_cookie_notifies:
  assumes "secrets_unique sv" and "adds_sessions secret (cookie_view sv) ck"
  shows "notifies sv (put_cookie ck sv)"
proof -
  have "credential_live session (put_cookie ck sv)" if "credential_live session sv" for session
    using that assms(2) by (cases session) (auto simp: adds_sessions_def revoked_in_def)
  then show ?thesis using assms by (auto simp: notifies_def secrets_unique_def adds_sessions_def put_cookie_def)
qed

lemma session_row:
  assumes "session_get_by_secret secret (sv_cookies sv) users = Ok c"
  shows "\<exists>r \<in> set (st_rows (sv_cookies sv)). sr_secret r = se_secret c \<and> sr_id r = se_id c"
  using assms by (auto simp: session_get_by_secret_def session_from_row_def and_then_ok_iff session_secret_new_def
      dest: row_of_SomeD split: if_splits)

lemma request_session_row:
  assumes "request_session env rq tenant sv = Some (CookieSession c)"
  shows "\<exists>r \<in> set (st_rows (sv_cookies sv)). sr_secret r = se_secret c \<and> sr_id r = se_id c"
proof -
  obtain secret where "session_get_by_secret secret (sv_cookies sv) (us_db (fs_users (sv_store sv))) = Ok c"
    using assms cookie_resolved [where s = "cookie_view sv"]
    by (fastforce simp: request_session_def authentication_layer_def cookie_middleware_def extract_session_from_cookie_def grant_middleware_def
        split: option.splits bearer_extraction.splits sum.splits)
  then show ?thesis by (rule session_row)
qed

lemma cookie_signout_notifies:
  assumes unique: "secrets_unique sv" and auth: "request_session env rq tenant sv = auth"
  shows "notifies sv (put_cookie (cookie_signout auth (cookie_view sv)) sv)"
proof (cases "\<exists>c. auth = Some (CookieSession c)")
  case True
  then obtain c where c: "auth = Some (CookieSession c)" by blast
  let ?rows = "st_rows (sv_cookies sv)" and ?sv = "put_cookie (cookie_signout auth (cookie_view sv)) sv"
  obtain r where r: "r \<in> set ?rows" "sr_secret r = se_secret c" "sr_id r = se_id c"
    using request_session_row auth c by blast
  have "x = r" if "x \<in> set ?rows" "sr_secret x = se_secret c" for x
    using that r unique row_of_Some_iff [of sr_secret ?rows "se_secret c"] by (metis option.inject secrets_unique_def)
  then have left: "x \<in> set (st_rows (sv_cookies ?sv)) \<or> sr_id x = se_id c" if "x \<in> set ?rows" for x
    using that r(3) by (auto simp: c cookie_signout_def session_delete_def delete_where_def)
  have "credential_live session ?sv \<or> revocation_matches (RevokeCookieSession (se_id c)) session" if "credential_live session sv" for session
    using that by (cases session) (auto simp: revocation_matches_def revoked_in_def dest!: left)
  then show ?thesis
    using unique by (auto simp: c notifies_def secrets_unique_def put_cookie_def put_accounts_def cookie_signout_def session_delete_def)
next
  case False
  then have "cookie_signout auth (cookie_view sv) = cookie_view sv"
    by (auto simp: cookie_signout_def split: option.splits auth_session.splits)
  then show ?thesis using put_cookie_notifies [OF unique, of undefined "cookie_view sv"] by (simp add: adds_sessions_def)
qed

lemma server_step_notifies:
  assumes "secrets_unique sv"
  shows "notifies sv (server_step env op sv)"
proof (cases op)
  case (StorageOp run rq m headers params body)
  then show ?thesis
    using assms by (intro notifies_same) (auto simp: serve_storage_def Let_def split: sum.splits option.splits prod.splits)
next
  case (CookieSignupOp clock secret host token body)
  then show ?thesis using put_cookie_notifies [OF assms cookie_routes_add(1)] by simp
next
  case (CookieSigninOp clock secret host body)
  then show ?thesis using put_cookie_notifies [OF assms cookie_routes_add(2)] by simp
next
  case (CookieSignoutOp rq host)
  then show ?thesis using cookie_signout_notifies [OF assms refl] notifies_same [OF assms]
    by (auto simp: with_tenant_def cookie_signout_route_def split: sum.splits option.splits)
next
  case (AccountOp now aop)
  then show ?thesis using assms by (intro notifies_same) (auto simp: put_accounts_def)
next
  case (LockOp now lop)
  then show ?thesis using assms by (intro notifies_same) auto
qed (use notifies_same [OF assms] put_grant_notifies [OF assms grant_routes_run(1)] put_grant_notifies [OF assms grant_routes_run(2)]
    put_grant_notifies [OF assms grant_routes_run(3)] put_grant_notifies [OF assms grant_routes_run(4)] in
  \<open>auto simp: with_tenant_def split: sum.splits\<close>)

section \<open>A revocation is covered until the guard acts on it\<close>

text \<open>A cookie session is found again by its secret; the rows with that secret are its own as
  long as no sign-in draws the same random secret.\<close>

fun owns_secret :: "auth_session \<Rightarrow> 'b server \<Rightarrow> bool" where
  "owns_secret (CookieSession c) sv \<longleftrightarrow> (\<forall>r \<in> set (st_rows (sv_cookies sv)). sr_secret r = se_secret c \<longrightarrow> sr_id r = se_id c)"
| "owns_secret (GrantAuthSession g) sv \<longleftrightarrow> True"

fun draws_secret :: "auth_session \<Rightarrow> world_op \<Rightarrow> bool" where
  "draws_secret (CookieSession c) (Request (CookieSignupOp clock secret host token body)) \<longleftrightarrow> secret = se_secret c"
| "draws_secret (CookieSession c) (Request (CookieSigninOp clock secret host body)) \<longleftrightarrow> secret = se_secret c"
| "draws_secret session op \<longleftrightarrow> False"

definition in_flight :: "notify_codec \<Rightarrow> auth_session \<Rightarrow> 'b stream_world \<Rightarrow> bool" where
  "in_flight nc session w \<longleftrightarrow> (\<exists>payload \<in> set (sw_flight w). \<exists>r. payload = nc_to_json nc r \<and> revocation_matches r session)"

definition covered :: "notify_codec \<Rightarrow> auth_session \<Rightarrow> 'b stream_world \<Rightarrow> bool" where
  "covered nc session w \<longleftrightarrow> rv_lagged (sw_rx w) \<or> rv_closed (sw_rx w) \<or> credential_live session (sw_server w) \<or>
     (\<exists>r \<in> set (rv_buffer (sw_rx w)). revocation_matches r session) \<or> in_flight nc session w"

definition sound_world :: "auth_session \<Rightarrow> 'b stream_world \<Rightarrow> bool" where
  "sound_world session w \<longleftrightarrow> secrets_unique (sw_server w) \<and> owns_secret session (sw_server w)"

lemma row_owns:
  assumes "secrets_unique sv" and "\<exists>r \<in> set (st_rows (sv_cookies sv)). sr_secret r = se_secret c \<and> sr_id r = se_id c"
  shows "owns_secret (CookieSession c) sv"
  using assms row_of_Some_iff [of sr_secret "st_rows (sv_cookies sv)" "se_secret c"] by (metis option.inject owns_secret.simps(1) secrets_unique_def)

lemma secrets_unique_run: "secrets_unique sv \<Longrightarrow> secrets_unique (server_run env ops sv)"
proof (induction ops arbitrary: sv)
  case (Cons op ops)
  then show ?case using server_step_notifies [of sv env op] by (simp add: notifies_def)
qed simp

lemma server_step_owns:
  assumes "owns_secret session sv" and "\<not> draws_secret session (Request op)"
  shows "owns_secret session (server_step env op sv)"
proof (cases session)
  case (CookieSession c)
  let ?kept = "\<lambda>sv'. \<forall>r \<in> set (st_rows (sv_cookies sv')). r \<in> set (st_rows (sv_cookies sv)) \<or> sr_secret r \<noteq> se_secret c"
  have "?kept (server_step env op sv)"
  proof (cases op)
    case (StorageOp run rq m headers params body)
    then show ?thesis by (auto simp: serve_storage_def Let_def split: sum.splits option.splits prod.splits)
  next
    case (CookieSignupOp clock secret host token body)
    then show ?thesis using assms(2) CookieSession cookie_routes_add(1) [of secret "cookie_view sv"]
      by (fastforce simp: put_cookie_def put_accounts_def adds_sessions_def)
  next
    case (CookieSigninOp clock secret host body)
    then show ?thesis using assms(2) CookieSession cookie_routes_add(2) [of secret "cookie_view sv"]
      by (fastforce simp: put_cookie_def put_accounts_def adds_sessions_def)
  next
    case (CookieSignoutOp rq host)
    then show ?thesis
      by (auto simp: with_tenant_def cookie_signout_route_def put_cookie_def put_accounts_def cookie_signout_def session_delete_def delete_where_def
          split: sum.splits option.splits auth_session.splits)
  qed (auto simp: with_tenant_def put_grant_def put_accounts_def split: sum.splits)
  then show ?thesis using assms(1) CookieSession by auto
qed simp

lemma sound_world_step:
  assumes "sound_world session w" and "\<not> draws_secret session op"
  shows "sound_world session (world_step nc env op w)"
  using assms server_step_owns [of session "sw_server w"] server_step_notifies [of "sw_server w"]
  by (cases op) (auto simp: sound_world_def Let_def notifies_def split: list.splits)

text \<open>The law of the JSON codec: a payload the server wrote reads back.\<close>

definition codec_ok :: "notify_codec \<Rightarrow> bool" where
  "codec_ok nc \<longleftrightarrow> (\<forall>r. nc_from_json nc (nc_to_json nc r) = Some r)"

lemma covered_request:
  assumes "sound_world session w" and "covered nc session w"
  shows "covered nc session (world_step nc env (Request op) w)"
proof -
  let ?sv = "server_step env op (sw_server w)"
  obtain sent where sent: "sv_notified ?sv = sv_notified (sw_server w) @ sent"
    and live: "credential_live session (sw_server w) \<Longrightarrow> credential_live session ?sv \<or> (\<exists>r \<in> set sent. revocation_matches r session)"
    using server_step_notifies [of "sw_server w" env op] assms(1) by (auto simp: notifies_def sound_world_def)
  have "in_flight nc session (world_step nc env (Request op) w) \<longleftrightarrow> in_flight nc session w \<or>
      (\<exists>p \<in> nc_to_json nc ` set sent. \<exists>r. p = nc_to_json nc r \<and> revocation_matches r session)"
    by (auto simp: in_flight_def Let_def sent)
  then show ?thesis using assms(2) live by (auto simp: covered_def Let_def)
qed

lemma covered_step:
  assumes "codec_ok nc" and "sound_world session w" and "covered nc session w"
  shows "covered nc session (world_step nc env op w)"
proof (cases op)
  case (Request op')
  then show ?thesis using covered_request assms by blast
next
  case Deliver
  then show ?thesis
    using assms(1,3) by (auto simp: covered_def in_flight_def actor_step_def codec_ok_def split: list.splits option.splits)
qed (use assms(3) in \<open>auto simp: covered_def in_flight_def actor_step_def Let_def\<close>)

definition calm :: "auth_session \<Rightarrow> world_op list \<Rightarrow> bool" where
  "calm session ops \<longleftrightarrow> (\<forall>op \<in> set ops. \<not> draws_secret session op)"

lemma world_run_simps [simp]:
  "world_run nc env [] w = w"
  "world_run nc env (op # ops) w = world_run nc env ops (world_step nc env op w)"
  by (simp_all add: world_run_def)

lemma sound_world_run: "sound_world session w \<Longrightarrow> calm session ops \<Longrightarrow> sound_world session (world_run nc env ops w)"
  by (induction ops arbitrary: w) (simp_all add: calm_def sound_world_step)

lemma covered_run:
  "codec_ok nc \<Longrightarrow> sound_world session w \<Longrightarrow> calm session ops \<Longrightarrow> covered nc session w \<Longrightarrow> covered nc session (world_run nc env ops w)"
  by (induction ops arbitrary: w) (simp_all add: calm_def sound_world_step covered_step)

lemma valid_live:
  assumes "session_valid now session w" and "sound_world session w"
  shows "credential_live session (sw_server w)"
proof (cases session)
  case (CookieSession c)
  then obtain r where "r \<in> set (st_rows (sv_cookies (sw_server w)))" "sr_secret r = se_secret c"
    using assms(1) by (auto simp: session_valid_def validate_private_stream_session_def validate_active_session_def
        resolve_active_session_for_user_def session_get_by_secret_def and_then_ok_iff map_ok_def
        dest: row_of_SomeD split: sum.splits sql_error.splits option.splits if_splits)
  then show ?thesis using assms(2) CookieSession by (auto simp: sound_world_def)
next
  case (GrantAuthSession g)
  then obtain r e where "row_of gr_id (sv_grants (sw_server w)) (gs_grant_id g) = Some r"
    "grant_from_row (us_db (fs_users (sv_store (sw_server w)))) r = Ok e" "ge_revoked_at e = None"
    using assms(1) by (auto simp: session_valid_def validate_private_stream_session_def validate_active_grant_session_def
        is_ok_iff and_then_ok_iff validate_entity_ok get_grant_ok)
  then show ?thesis using GrantAuthSession by (auto simp: revoked_in_def grant_from_row_def and_then_ok_iff)
qed

lemma pending_revocation_covered:
  assumes "covered nc session w" and "pending_revocation session (sw_rx w) = (signal, rx)" and "signal \<noteq> Revalidate"
  shows "covered nc session (w\<lparr>sw_rx := rx\<rparr>)"
    and "signal = Continue \<Longrightarrow> credential_live session (sw_server w) \<or> in_flight nc session w"
proof -
  have drained: "drain_revocations session rs = Some [] \<or> drain_revocations session rs = None" for rs
    by (induction rs) simp_all
  have none: "drain_revocations session rs = None \<longleftrightarrow> (\<exists>r \<in> set rs. revocation_matches r session)" for rs
    by (induction rs) simp_all
  show "covered nc session (w\<lparr>sw_rx := rx\<rparr>)"
    using assms none [of "rv_buffer (sw_rx w)"]
    by (auto simp: pending_revocation_def covered_def in_flight_def split: if_splits option.splits)
  show "credential_live session (sw_server w) \<or> in_flight nc session w" if "signal = Continue"
    using assms that none [of "rv_buffer (sw_rx w)"]
    by (auto simp: pending_revocation_def covered_def in_flight_def split: if_splits option.splits)
qed

text \<open>When the guard answers that the stream may go on, the credential is live or its
  revocation has not reached the homeserver's listener yet.\<close>

lemma is_valid_covered:
  assumes "codec_ok nc" and "sound_world session w" and "covered nc session w" and "\<forall>(ops, n) \<in> set steps. calm session ops"
    and "is_valid nc env now session steps w = (valid, w')"
  shows "sound_world session w' \<and>
    (valid \<longrightarrow> covered nc session w' \<and> (credential_live session (sw_server w') \<or> in_flight nc session w'))"
  using assms
proof (induction nc env now session steps w rule: is_valid.induct)
  case (1 nc env now session steps w)
  obtain signal rx where p: "pending_revocation session (sw_rx w) = (signal, rx)" by (cases "pending_revocation session (sw_rx w)")
  have s: "sound_world session (w\<lparr>sw_rx := rx\<rparr>)" using 1(4) by (simp add: sound_world_def)
  show ?case
  proof (cases signal)
    case Revalidate
    obtain ops n rest where st: "(steps = [] \<and> ops = [] \<and> n = now \<and> rest = []) \<or> steps = (ops, n) # rest"
      by (cases steps) auto
    let ?w = "world_run nc env ops (w\<lparr>sw_rx := rx\<rparr>)"
    have s': "sound_world session ?w" using sound_world_run [OF s] s st 1(6) by auto
    show ?thesis
    proof (cases "session_valid n session ?w")
      case True
      then have "covered nc session ?w" using valid_live [OF _ s'] by (auto simp: covered_def)
      then show ?thesis using "1.IH" 1(3,6,7) p Revalidate st s' True by (auto simp: Let_def)
    next
      case False
      then show ?thesis using 1(7) p Revalidate st s' by (auto simp: Let_def)
    qed
  qed (use pending_revocation_covered [OF 1(5) p] 1(7) p s in \<open>auto simp: in_flight_def\<close>)
qed

lemma next_check_covered:
  assumes "codec_ok nc" and "sound_world session w" and "covered nc session w" and "calm session (fst step)"
    and "next_check nc env session step w = (valid, w')"
  shows "sound_world session w' \<and> (valid \<longrightarrow> covered nc session w')"
proof -
  obtain signal rx where p: "next_check_signal session (sw_rx w) = (signal, rx)" by (cases "next_check_signal session (sw_rx w)")
  have s: "sound_world session (w\<lparr>sw_rx := rx\<rparr>)" using assms(2) by (simp add: sound_world_def)
  have run: "sound_world session (world_run nc env (fst step) (w\<lparr>sw_rx := rx\<rparr>))" by (rule sound_world_run [OF s assms(4)])
  show ?thesis
  proof (cases signal)
    case Revalidate
    then show ?thesis using assms(5) p run valid_live [OF _ run] by (auto simp: next_check_def Let_def covered_def)
  next
    case Continue
    then have "covered nc session (w\<lparr>sw_rx := rx\<rparr>)"
      using assms(3) p by (auto simp: next_check_signal_def covered_def in_flight_def split: if_splits list.splits)
    then show ?thesis using assms(5) p s Continue by (auto simp: next_check_def)
  qed (use assms(5) p s in \<open>auto simp: next_check_def\<close>)
qed

lemma stream_authorize_covered:
  assumes "codec_ok nc" and "sound_world session w" and "calm session (fst step)" and "\<forall>(ops, n) \<in> set steps. calm session ops"
    and "stream_authorize nc env (Some session) step steps w = (Ok session', w')"
  shows "session' = session \<and> sound_world session w' \<and> covered nc session w'"
proof -
  let ?w = "world_run nc env (fst step) w"
  have sound: "sound_world session ?w" by (rule sound_world_run [OF assms(2,3)])
  have valid: "session_valid (snd step) session ?w" and ok: "is_valid nc env (snd step) session steps ?w = (True, w')"
    and eq: "session' = session"
    using assms(5) by (auto simp: stream_authorize_def session_valid_def Let_def simp del: is_valid.simps split: sum.splits prod.splits bool.splits)
  then have "covered nc session ?w" using valid_live [OF _ sound] by (auto simp: covered_def)
  from is_valid_covered [OF assms(1) sound this assms(4) ok] show ?thesis using eq by simp
qed

end
