(* ===== verification/Event_Routes.thy ===== *)
theory Event_Routes
  imports Revocation Event_Stream
begin

text \<open>
  The routes of the event feeds: the public text feed and the event streams of the client
  server (\<^verbatim>\<open>client_server/routes/events.rs\<close>), the stream of the admin server
  (\<^verbatim>\<open>admin_server/routes/admin_events.rs\<close>), and the streams they start
  (\<^verbatim>\<open>services/events_service/service.rs\<close>).  A private stream composes the request's session,
  the guard against revocations and the two phases of the stream; all of them interleave with
  requests to the homeserver.
\<close>

section \<open>Model: answers to rejected queries\<close>

fun stream_http_error :: "event_stream_error \<Rightarrow> http_error" where
  "stream_http_error StreamUserNotFound = not_found"
| "stream_http_error (StreamDatabaseError e) = internal_server"
| "stream_http_error (InvalidPublicKey v) = bad_request (''Invalid public key: '' @ v)"
| "stream_http_error (InvalidCursor v) = bad_request (''Invalid cursor: '' @ v)"
| "stream_http_error (InvalidLimit v) = bad_request (''Invalid limit: '' @ v)"
| "stream_http_error ZeroLimit = bad_request ''limit must be at least 1''"
| "stream_http_error LiveWithReverse = bad_request ''Cannot use live mode with reverse ordering''"
| "stream_http_error TooManyUsers = bad_request (''Too many users. Maximum allowed: '' @ show_nat MAX_EVENT_STREAM_USERS)"
| "stream_http_error UserRequired = bad_request ''user parameter is required''"
| "stream_http_error (InvalidPath v) = bad_request (''Invalid path: '' @ v)"

section \<open>Model: the public feed\<close>

definition format_events_feed :: "event_entity list \<Rightarrow> string" where
  "format_events_feed events =
     join [CHR 0x0A] (map (\<lambda>e. event_type_as_str (vn_type e) @ '' '' @ pubky_uri e) events @
       (if events = [] then [] else [''cursor: '' @ cursor_to_string (vn_id (last events))]))"

definition get_public_by_cursor :: "nat option \<Rightarrow> nat option \<Rightarrow> 'b server \<Rightarrow> (sql_error, event_entity list) result" where
  "get_public_by_cursor cursor limit sv =
     get_by_cursor cursor limit PublicEvents (us_db (fs_users (sv_store sv))) (fs_events (sv_store sv))"

definition events_feed :: "list_query_params \<Rightarrow> 'b server \<Rightarrow> (http_error, string) result" where
  "events_feed params sv =
     (let cursor = (case lp_cursor params of Some c \<Rightarrow> c | None \<Rightarrow> ''0'')
      in and_then (ok_or (bad_request (''Invalid cursor: '' @ cursor)) (cursor_from_str cursor)) (\<lambda>cursor.
         and_then (map_err (\<lambda>_. internal_server) (get_public_by_cursor (Some cursor) (lp_limit params) sv)) (\<lambda>events.
           Ok (format_events_feed events))))"

section \<open>Model: the scope and the session of a stream\<close>

datatype tenant_scope = PublicOnly | PrivateSingleTenant public_key | PrivateUnsupported

definition scope_from_query :: "storage_path list \<Rightarrow> (public_key \<times> nat option) list \<Rightarrow> tenant_scope" where
  "scope_from_query paths user_cursors =
     (if \<not> list_ex (\<lambda>path. prefix PRIVATE_ROOT (as_str path)) paths then PublicOnly
      else case user_cursors of [(tenant, _)] \<Rightarrow> PrivateSingleTenant tenant | _ \<Rightarrow> PrivateUnsupported)"

fun scope_tenant :: "tenant_scope \<Rightarrow> public_key option" where
  "scope_tenant (PrivateSingleTenant tenant) = Some tenant"
| "scope_tenant _ = None"

definition has_bearer_auth :: "credentials \<Rightarrow> bool" where
  "has_bearer_auth cred =
     (case extract_bearer_token (cr_authorization cred) of BearerPresent _ \<Rightarrow> True | InvalidBearer \<Rightarrow> True | _ \<Rightarrow> False)"

definition resolve_tenant_cookie_session :: "credentials \<Rightarrow> tenant_scope \<Rightarrow> cookie_state \<Rightarrow> auth_session option" where
  "resolve_tenant_cookie_session cred tenant_sc s =
     (case tenant_sc of
        PrivateSingleTenant tenant \<Rightarrow>
          resolve_session_from_cookie (Option.bind (cr_cookies cred) (\<lambda>jar. map_of jar (z32 tenant))) tenant s
      | _ \<Rightarrow> None)"

text \<open>A presented bearer disables both kinds of cookie authentication.\<close>

definition stream_session :: "credentials \<Rightarrow> tenant_scope \<Rightarrow> auth_session option \<Rightarrow> cookie_state \<Rightarrow> auth_session option" where
  "stream_session cred tenant_sc session s =
     (case session of
        Some (CookieSession c) \<Rightarrow> if has_bearer_auth cred then None else Some (CookieSession c)
      | Some session \<Rightarrow> Some session
      | None \<Rightarrow> if \<not> has_bearer_auth cred then resolve_tenant_cookie_session cred tenant_sc s else None)"

definition authorized_paths ::
  "storage_path list \<Rightarrow> tenant_scope \<Rightarrow> auth_session option \<Rightarrow> (http_error, storage_path list) result" where
  "authorized_paths paths tenant_sc session =
     (if paths = [] then Ok [StoragePath PUBLIC_ROOT]
      else try_map (\<lambda>path. map_ok (\<lambda>_. path) (has_read_permission session (scope_tenant tenant_sc) path)) paths)"

definition resolve_user_ids ::
  "(public_key \<times> nat option) list \<Rightarrow> user_table \<Rightarrow> (event_stream_error, (int \<times> nat option) list) result" where
  "resolve_user_ids user_cursors users =
     map_ok (\<lambda>ids. zip ids (map snd user_cursors)) (map_err stream_sql_error (get_ids (map fst user_cursors) users))"

section \<open>Model: an open stream\<close>

text \<open>The state around the stream, the credential that guards it (none for a public stream
  or the administrator's), the last event the listener has broadcast, the receiver of events
  and the stream itself.\<close>

record 'b live_stream =
  lv_world :: "'b stream_world"
  lv_guard :: "auth_session option"
  lv_last :: nat
  lv_rx :: receiver
  lv_stream :: stream_state

definition stream_events :: "stream_cursor \<Rightarrow> auth_session option \<Rightarrow> nat \<Rightarrow> 'b stream_world \<Rightarrow> 'b live_stream" where
  "stream_events cursor guard last_id w =
     \<lparr>lv_world = w, lv_guard = guard, lv_last = last_id, lv_rx = \<lparr>rx_buffer = [], rx_lagged = False\<rparr>,
      lv_stream = stream_start cursor\<rparr>"

text \<open>The pairs are collected into a map: the last of several cursors of a user counts.\<close>

definition collect_cursors :: "(int \<times> nat option) list \<Rightarrow> (int \<times> nat option) list" where
  "collect_cursors pairs = fold (\<lambda>(user_id, cursor) m. AList.update user_id cursor m) pairs []"

definition user_events_stream ::
  "(int \<times> nat option) list \<Rightarrow> auth_session option \<Rightarrow> nat \<Rightarrow> 'b stream_world \<Rightarrow> 'b live_stream" where
  "user_events_stream user_cursors guard last_id w = stream_events (PerUser (collect_cursors user_cursors)) guard last_id w"

definition all_events_stream :: "nat option \<Rightarrow> int list option \<Rightarrow> nat \<Rightarrow> 'b stream_world \<Rightarrow> 'b live_stream" where
  "all_events_stream start_cursor user_ids last_id w = stream_events (Global start_cursor user_ids) None last_id w"

section \<open>Model: opening a stream\<close>

text \<open>What happens around the awaits of the handler: before the subscription, what the
  supervisor answers, before the validation (with its instant), before each further lookup,
  and before the ids of the users are read.\<close>

record stream_opening =
  og_before_subscribe :: "world_op list"
  og_subscription :: subscription
  og_validation :: "world_op list \<times> int"
  og_checks :: "(world_op list \<times> int) list"
  og_before_lookup :: "world_op list"

definition streams_unavailable :: http_error where
  "streams_unavailable = new_with_message 503 ''Private event streams are temporarily unavailable''"

definition authorize_stream ::
  "notify_codec \<Rightarrow> 'b server_env \<Rightarrow> stream_opening \<Rightarrow> tenant_scope \<Rightarrow> auth_session option \<Rightarrow> 'b stream_world \<Rightarrow>
   (http_error, auth_session option \<times> 'b stream_world) result" where
  "authorize_stream nc env og tenant_sc session w =
     (case tenant_sc of
        PrivateSingleTenant _ \<Rightarrow>
          (case og_subscription og of
             RevocationUnavailable \<Rightarrow> Err streams_unavailable
           | Subscribed \<Rightarrow>
               (case stream_authorize nc env session (og_validation og) (og_checks og)
                   (w\<lparr>sw_rx := \<lparr>rv_buffer = [], rv_lagged = False, rv_closed = False\<rparr>\<rparr>) of
                  (Inl e, _) \<Rightarrow> Err e
                | (Inr session, w) \<Rightarrow> Ok (Some session, w)))
      | _ \<Rightarrow> Ok (None, w))"

definition feed_stream ::
  "notify_codec \<Rightarrow> 'b server_env \<Rightarrow> stream_opening \<Rightarrow> request_head \<Rightarrow> request_tenant option \<Rightarrow> (string \<times> string) list \<Rightarrow> nat \<Rightarrow>
   'b stream_world \<Rightarrow> (http_error, stream_options \<times> 'b live_stream) result" where
  "feed_stream nc env og rq tenant pairs last_id w =
     and_then (map_err stream_http_error (client_stream_query_parse (se_key_parser (ve_store env)) pairs)) (\<lambda>query.
     let tenant_sc = scope_from_query (cq_paths query) (cq_user_cursors query);
         session = stream_session (rq_cred rq) tenant_sc (request_session env rq tenant (sw_server w)) (cookie_view (sw_server w))
     in and_then (authorized_paths (cq_paths query) tenant_sc session) (\<lambda>allowed_paths.
        and_then (authorize_stream nc env og tenant_sc session (world_run nc env (og_before_subscribe og) w)) (\<lambda>(guard, w).
        let w = world_run nc env (og_before_lookup og) w
        in and_then (map_err stream_http_error
             (resolve_user_ids (cq_user_cursors query) (us_db (fs_users (sv_store (sw_server w)))))) (\<lambda>user_cursors.
           Ok (\<lparr>so_paths = allowed_paths, so_mode = cq_mode query, so_limit = client_stream_query.cq_limit query\<rparr>,
               user_events_stream user_cursors guard last_id w)))))"

definition admin_feed_stream ::
  "'b server_env \<Rightarrow> (string \<times> string) list \<Rightarrow> nat \<Rightarrow> 'b stream_world \<Rightarrow> (http_error, stream_options \<times> 'b live_stream) result" where
  "admin_feed_stream env pairs last_id w =
     map_err stream_http_error
       (and_then (admin_stream_query_parse (se_key_parser (ve_store env)) pairs) (\<lambda>query.
        and_then (if aq_users query = [] then Ok None
                  else map_ok Some (map_err stream_sql_error (get_ids (aq_users query) (us_db (fs_users (sv_store (sw_server w))))))) (\<lambda>user_ids.
          Ok (\<lparr>so_paths = aq_paths query, so_mode = aq_mode query, so_limit = aq_limit query\<rparr>,
              all_events_stream (aq_cursor query) user_ids last_id w))))"

section \<open>Model: the run of a stream\<close>

datatype live_op =
    WorldOp world_op
  | BroadcastOp
  | LagOp nat
  | DrainOp int "(world_op list \<times> int) list"
  | FetchOp
  | FetchErrorOp
  | SendOp int "(world_op list \<times> int) list"
  | ReceiveOp
  | NextCheckOp "world_op list \<times> int"
  | ChannelClosedOp

definition guard_is_valid ::
  "notify_codec \<Rightarrow> 'b server_env \<Rightarrow> int \<Rightarrow> (world_op list \<times> int) list \<Rightarrow> 'b live_stream \<Rightarrow> bool \<times> 'b stream_world" where
  "guard_is_valid nc env now steps lv =
     (case lv_guard lv of None \<Rightarrow> (True, lv_world lv) | Some session \<Rightarrow> is_valid nc env now session steps (lv_world lv))"

text \<open>The select of the live tail is biased: an event is received only while the guard has
  nothing to report.\<close>

definition check_first :: "'b live_stream \<Rightarrow> bool" where
  "check_first lv \<longleftrightarrow> lv_guard lv \<noteq> None \<and> next_check_ready (sw_rx (lv_world lv))"

fun live_step :: "notify_codec \<Rightarrow> 'b server_env \<Rightarrow> stream_options \<Rightarrow> live_op \<Rightarrow> 'b live_stream \<Rightarrow> 'b live_stream" where
  "live_step nc env opts (WorldOp op) lv = lv\<lparr>lv_world := world_step nc env op (lv_world lv)\<rparr>"
| "live_step nc env opts BroadcastOp lv =
     (let st = sv_store (sw_server (lv_world lv))
      in case broadcast_new_events (us_db (fs_users st)) (fs_events st) (lv_last lv) of
           (es, last_id, _) \<Rightarrow> lv\<lparr>lv_last := last_id, lv_rx := push_messages es (lv_rx lv)\<rparr>)"
| "live_step nc env opts (LagOp n) lv = lv\<lparr>lv_rx := \<lparr>rx_buffer = drop n (rx_buffer (lv_rx lv)), rx_lagged = True\<rparr>\<rparr>"
| "live_step nc env opts (DrainOp now steps) lv =
     (if st_phase (lv_stream lv) \<noteq> Draining then lv
      else case guard_is_valid nc env now steps lv of
             (valid, w) \<Rightarrow> (case stream_drain valid (lv_stream lv, lv_rx lv) of
               (s, rx) \<Rightarrow> lv\<lparr>lv_world := w, lv_rx := rx, lv_stream := s\<rparr>))"
| "live_step nc env opts FetchOp lv =
     (let st = sv_store (sw_server (lv_world lv))
      in lv\<lparr>lv_stream := stream_fetch opts (us_db (fs_users st)) (fs_events st) (lv_stream lv)\<rparr>)"
| "live_step nc env opts FetchErrorOp lv = lv\<lparr>lv_stream := stream_fetch_error opts (lv_stream lv)\<rparr>"
| "live_step nc env opts (SendOp now steps) lv =
     (case st_phase (lv_stream lv) of
        Sending (_ # _) \<Rightarrow>
          (case guard_is_valid nc env now steps lv of
             (valid, w) \<Rightarrow> lv\<lparr>lv_world := w, lv_stream := stream_send opts valid (lv_stream lv)\<rparr>)
      | _ \<Rightarrow> lv)"
| "live_step nc env opts ReceiveOp lv =
     (if check_first lv then lv
      else case stream_receive opts (lv_stream lv, lv_rx lv) of (s, rx) \<Rightarrow> lv\<lparr>lv_stream := s, lv_rx := rx\<rparr>)"
| "live_step nc env opts (NextCheckOp step) lv =
     (case lv_guard lv of
        Some session \<Rightarrow>
          if st_phase (lv_stream lv) = Tailing \<and> check_first lv
          then (case next_check nc env session step (lv_world lv) of
                  (valid, w) \<Rightarrow> lv\<lparr>lv_world := w, lv_stream := stream_next_check valid (lv_stream lv)\<rparr>)
          else lv
      | None \<Rightarrow> lv)"
| "live_step nc env opts ChannelClosedOp lv =
     (if check_first lv then lv else lv\<lparr>lv_stream := stream_channel_closed (lv_stream lv)\<rparr>)"

definition live_run :: "notify_codec \<Rightarrow> 'b server_env \<Rightarrow> stream_options \<Rightarrow> live_op list \<Rightarrow> 'b live_stream \<Rightarrow> 'b live_stream" where
  "live_run nc env opts ops lv = fold (live_step nc env opts) ops lv"

lemma live_run_simps [simp]:
  "live_run nc env opts [] lv = lv"
  "live_run nc env opts (op # ops) lv = live_run nc env opts ops (live_step nc env opts op lv)"
  by (simp_all add: live_run_def)

section \<open>What a stream may send\<close>

lemma list_all2_setD2: "list_all2 P xs ys \<Longrightarrow> y \<in> set ys \<Longrightarrow> \<exists>x \<in> set xs. P x y"
  by (induction rule: list_all2_induct) auto

lemma event_from_row_ok:
  "event_from_row users r = Ok e \<Longrightarrow> vn_user_id e = ev_user r \<and> as_str (ep_path (vn_path e)) = ev_path r"
  by (auto simp: event_from_row_def and_then_ok_iff Let_def storage_path_new_def split: if_splits)

lemma fetched_events:
  assumes "get_by_user_cursors cursors limit rv paths users t = Ok es" and "e \<in> set es"
  shows "vn_user_id e \<in> fst ` set cursors \<and> any_match paths e"
proof (cases "cursors = []")
  case False
  let ?rows = "take (effective_list_limit limit) (by_id rv (concat (map (\<lambda>(user_id, cursor).
      filter (\<lambda>r. ev_user r = user_id \<and> any_filter paths r \<and> beyond_cursor rv cursor r) (vt_rows t)) cursors)))"
  have "list_all2 (\<lambda>r e. event_from_row users r = Ok e) ?rows es"
    using assms(1) False by (simp add: get_by_user_cursors_def try_map_ok_iff)
  from list_all2_setD2 [OF this assms(2)] obtain r where r: "r \<in> set ?rows" "event_from_row users r = Ok e" by blast
  have "ev_user r \<in> fst ` set cursors" "any_filter paths r"
    using in_set_takeD [OF r(1)] by (force simp: by_id_def split: if_splits)+
  then show ?thesis using event_from_row_ok [OF r(2)] by (simp add: any_match_def any_filter_def)
qed (use assms in \<open>simp add: get_by_user_cursors_def\<close>)

definition sendable :: "stream_options \<Rightarrow> int set \<Rightarrow> event_entity \<Rightarrow> bool" where
  "sendable opts ids e \<longleftrightarrow> vn_user_id e \<in> ids \<and> any_match (so_paths opts) e"

fun pending_events :: "stream_phase \<Rightarrow> event_entity list" where
  "pending_events (Sending es) = es"
| "pending_events _ = []"

definition confined :: "stream_options \<Rightarrow> int set \<Rightarrow> stream_state \<Rightarrow> bool" where
  "confined opts ids s \<longleftrightarrow> (\<exists>cursors. st_cursor s = PerUser cursors \<and> fst ` set cursors = ids) \<and>
     (\<forall>e \<in> set (st_out s) \<union> set (pending_events (st_phase s)). sendable opts ids e)"

lemma confined_yield:
  assumes "confined opts ids s" and "sendable opts ids e" and "\<forall>x \<in> set (pending_events phase). sendable opts ids x"
  shows "confined opts ids (stream_yield opts phase e s)"
proof -
  obtain cursors where "st_cursor s = PerUser cursors" "fst ` set cursors = ids" using assms(1) by (auto simp: confined_def)
  moreover have "fst ` set (AList.update (vn_user_id e) c cursors) = insert (vn_user_id e) (fst ` set cursors)" for c
    using dom_update [of "vn_user_id e" c cursors] by (simp add: dom_map_of_conv_image_fst)
  ultimately show ?thesis
    using assms by (auto simp: confined_def stream_yield_def Let_def sendable_def insert_absorb split: if_splits)
qed

lemma confined_close: "confined opts ids s \<Longrightarrow> confined opts ids (s\<lparr>st_phase := Closed\<rparr>)"
  by (simp add: confined_def)

lemma confined_drain: "confined opts ids s \<Longrightarrow> confined opts ids (fst (stream_drain valid (s, rx)))"
  by (auto simp: confined_def stream_drain_def split: if_splits)

lemma confined_fetch: "confined opts ids s \<Longrightarrow> confined opts ids (stream_fetch opts users t s)"
proof -
  assume c: "confined opts ids s"
  then obtain cursors where cur: "st_cursor s = PerUser cursors" "fst ` set cursors = ids" by (auto simp: confined_def)
  have "pending_events (after_replay opts) = []" by (simp add: after_replay_def)
  then show ?thesis
    using c cur fetched_events [of cursors _ "mode_reverse (so_mode opts)" "so_paths opts" users t]
    by (fastforce simp: stream_fetch_def Let_def confined_def sendable_def split: sum.splits if_splits)
qed

lemma confined_fetch_error: "confined opts ids s \<Longrightarrow> confined opts ids (stream_fetch_error opts s)"
  by (auto simp: confined_def stream_fetch_error_def after_replay_def)

lemma confined_send:
  assumes "confined opts ids s"
  shows "confined opts ids (stream_send opts valid s)"
proof (cases "\<exists>e rest. st_phase s = Sending (e # rest) \<and> valid")
  case True
  then obtain e rest where e: "st_phase s = Sending (e # rest)" "valid" by blast
  then have "sendable opts ids e" "\<forall>x \<in> set rest. sendable opts ids x" using assms by (simp_all add: confined_def)
  then show ?thesis using confined_yield [OF assms] e by (simp add: stream_send_def)
qed (use assms in \<open>auto simp: stream_send_def confined_def split: stream_phase.splits list.splits\<close>)

lemma confined_receive:
  assumes "confined opts ids s"
  shows "confined opts ids (fst (stream_receive opts (s, rx)))"
proof -
  have "sendable opts ids e" if "accepts_live (st_cursor s) (so_paths opts) e" for e
    using assms that by (auto simp: confined_def sendable_def image_iff dest!: map_of_SomeD split: option.splits) force
  then show ?thesis
    using assms confined_yield [OF assms, of _ Tailing] confined_close [OF assms] by (simp add: stream_receive_def split: list.splits)
qed

lemma confined_step:
  assumes "confined opts ids (lv_stream lv)"
  shows "confined opts ids (lv_stream (live_step nc env opts op lv))"
proof (cases op)
  case (NextCheckOp step)
  then show ?thesis
    using assms by (auto simp: confined_def stream_next_check_def split: option.splits prod.splits)
next
  case (SendOp now steps)
  then show ?thesis using assms confined_send [OF assms]
    by (simp split: stream_phase.split list.split prod.split)
next
  case (DrainOp now steps)
  then show ?thesis using assms confined_drain [OF assms]
    by (auto simp: case_prod_beta)
next
  case ReceiveOp
  then show ?thesis using assms confined_receive [OF assms] by (simp add: case_prod_beta)
next
  case ChannelClosedOp
  then show ?thesis using assms by (simp add: confined_def stream_channel_closed_def)
qed (use assms confined_fetch confined_fetch_error in \<open>simp_all add: Let_def case_prod_beta\<close>)

lemma confined_run:
  "confined opts ids (lv_stream lv) \<Longrightarrow> confined opts ids (lv_stream (live_run nc env opts ops lv))"
  by (induction ops arbitrary: lv) (simp_all add: confined_step)

lemma collect_cursors_keys: "fst ` set (collect_cursors pairs) = fst ` set pairs"
proof -
  have "fst ` set (fold (\<lambda>(user_id, cursor) m. AList.update user_id cursor m) pairs m) = fst ` set m \<union> fst ` set pairs" for m
  proof (induction pairs arbitrary: m)
    case (Cons x pairs)
    have "fst ` set (AList.update k v m) = insert k (fst ` set m)" for k :: int and v :: "nat option"
      using dom_update [of k v m] by (simp add: dom_map_of_conv_image_fst)
    then show ?case using Cons.IH by (cases x) simp
  qed simp
  from this [of "[]"] show ?thesis by (simp add: collect_cursors_def)
qed

section \<open>Opening a stream\<close>

lemma feed_streamD:
  assumes "feed_stream nc env og rq tenant pairs last_id w = Ok (opts, lv)"
  obtains query :: client_stream_query and session w1 ids where
    "session = stream_session (rq_cred rq) (scope_from_query (cq_paths query) (cq_user_cursors query))
       (request_session env rq tenant (sw_server w)) (cookie_view (sw_server w))"
    "authorized_paths (cq_paths query) (scope_from_query (cq_paths query) (cq_user_cursors query)) session = Ok (so_paths opts)"
    "authorize_stream nc env og (scope_from_query (cq_paths query) (cq_user_cursors query)) session
       (world_run nc env (og_before_subscribe og) w) = Ok (lv_guard lv, w1)"
    "lv_world lv = world_run nc env (og_before_lookup og) w1"
    "resolve_user_ids (cq_user_cursors query) (us_db (fs_users (sv_store (sw_server (lv_world lv))))) = Ok ids"
    "lv_stream lv = stream_start (PerUser (collect_cursors ids))"
proof -
  from assms obtain query where q: "client_stream_query_parse (se_key_parser (ve_store env)) pairs = Ok query"
    by (auto simp: feed_stream_def and_then_ok_iff)
  let ?sc = "scope_from_query (cq_paths query) (cq_user_cursors query)"
  let ?session = "stream_session (rq_cred rq) ?sc (request_session env rq tenant (sw_server w)) (cookie_view (sw_server w))"
  obtain allowed where a: "authorized_paths (cq_paths query) ?sc ?session = Ok allowed"
    using assms q by (auto simp: feed_stream_def and_then_ok_iff Let_def)
  obtain guard w1 where g: "authorize_stream nc env og ?sc ?session (world_run nc env (og_before_subscribe og) w) = Ok (guard, w1)"
    using assms q a by (auto simp: feed_stream_def and_then_ok_iff Let_def)
  obtain ids where i: "resolve_user_ids (cq_user_cursors query)
      (us_db (fs_users (sv_store (sw_server (world_run nc env (og_before_lookup og) w1))))) = Ok ids"
    using assms q a g by (auto simp: feed_stream_def and_then_ok_iff Let_def)
  have "opts = \<lparr>so_paths = allowed, so_mode = cq_mode query, so_limit = client_stream_query.cq_limit query\<rparr>"
    "lv = user_events_stream ids guard last_id (world_run nc env (og_before_lookup og) w1)"
    using assms q a g i by (simp_all add: feed_stream_def Let_def)
  then show thesis using that [where query = query and ids = ids, OF refl] a g i by (simp add: user_events_stream_def stream_events_def)
qed

lemma authorize_stream_guard:
  assumes "authorize_stream nc env og (PrivateSingleTenant pk) (Some session) w = Ok (guard, w')"
  shows "guard = Some session"
  using assms
  by (auto simp: authorize_stream_def stream_authorize_def Let_def simp del: is_valid.simps
      split: subscription.splits sum.splits prod.splits bool.splits)

lemma single_scope: "scope_tenant (scope_from_query paths cursors) = Some pk \<Longrightarrow>
    scope_from_query paths cursors = PrivateSingleTenant pk \<and> (\<exists>c. cursors = [(pk, c)])"
  by (auto simp: scope_from_query_def split: if_splits list.splits)

lemma filter_matches_covers: "filter_matches f p \<Longrightarrow> covers_path f (StoragePath p)"
  by (cases f) (simp add: filter_matches_def covers_path_def split: if_splits)

lemma filter_matches_prefix: "filter_matches f p \<Longrightarrow> prefix root (as_str f) \<Longrightarrow> prefix root p"
  by (auto simp: filter_matches_def split: if_splits intro: prefix_order.trans)

lemma permits_below: "permits caps f a \<Longrightarrow> covers_path f p \<Longrightarrow> permits caps p a"
  unfolding permits_def list_ex_iff scope_covers_path_def using covers_path_trans by blast

lemma authorized_pathD:
  assumes "authorized_paths paths tenant_sc session = Ok allowed" and "f \<in> set allowed" and "prefix PRIVATE_ROOT (as_str f)"
  shows "\<exists>s. session = Some s \<and> scope_tenant tenant_sc = Some (session_user_key s) \<and> permits (session_capabilities s) f Read"
proof -
  have "paths \<noteq> []" using assms roots_disjoint [of PUBLIC_ROOT] by (auto simp: authorized_paths_def)
  then have "\<exists>p \<in> set paths. map_ok (\<lambda>_. p) (has_read_permission session (scope_tenant tenant_sc) p) = Ok f"
    using assms(1) by (intro list_all2_setD2 [OF _ assms(2)]) (simp add: authorized_paths_def try_map_ok_iff)
  then show ?thesis using assms(3) roots_disjoint [of "as_str f"] by (auto simp: has_read_permission_ok)
qed

lemma authorized_public_or_private:
  assumes "authorized_paths paths tenant_sc session = Ok allowed" and "f \<in> set allowed"
  shows "prefix PUBLIC_ROOT (as_str f) \<or> prefix PRIVATE_ROOT (as_str f)"
proof (cases "paths = []")
  case False
  then have "\<exists>p \<in> set paths. map_ok (\<lambda>_. p) (has_read_permission session (scope_tenant tenant_sc) p) = Ok f"
    using assms(1) by (intro list_all2_setD2 [OF _ assms(2)]) (simp add: authorized_paths_def try_map_ok_iff)
  then show ?thesis by (auto simp: has_read_permission_ok)
qed (use assms in \<open>auto simp: authorized_paths_def\<close>)

section \<open>A revoked stream sends nothing more\<close>

fun quiet :: "auth_session \<Rightarrow> live_op \<Rightarrow> bool" where
  "quiet session (WorldOp op) \<longleftrightarrow> \<not> draws_secret session op"
| "quiet session (DrainOp now steps) \<longleftrightarrow> (\<forall>(ops, n) \<in> set steps. calm session ops)"
| "quiet session (SendOp now steps) \<longleftrightarrow> (\<forall>(ops, n) \<in> set steps. calm session ops)"
| "quiet session (NextCheckOp step) \<longleftrightarrow> calm session (fst step)"
| "quiet session op \<longleftrightarrow> True"

definition quiet_opening :: "auth_session \<Rightarrow> stream_opening \<Rightarrow> bool" where
  "quiet_opening session og \<longleftrightarrow> calm session (og_before_subscribe og) \<and> calm session (fst (og_validation og)) \<and>
     (\<forall>(ops, n) \<in> set (og_checks og). calm session ops) \<and> calm session (og_before_lookup og)"

definition guarded :: "notify_codec \<Rightarrow> auth_session \<Rightarrow> 'b live_stream \<Rightarrow> bool" where
  "guarded nc session lv \<longleftrightarrow> lv_guard lv = Some session \<and> sound_world session (lv_world lv) \<and>
     (st_phase (lv_stream lv) = Closed \<or> covered nc session (lv_world lv))"

text \<open>A closed stream stays closed.\<close>

lemma closed_simps:
  "st_phase s = Closed \<Longrightarrow> stream_drain valid (s, rx) = (s, rx)"
  "st_phase s = Closed \<Longrightarrow> stream_fetch opts users t s = s"
  "st_phase s = Closed \<Longrightarrow> stream_fetch_error opts s = s"
  "st_phase s = Closed \<Longrightarrow> stream_send opts valid s = s"
  "st_phase s = Closed \<Longrightarrow> stream_receive opts (s, rx) = (s, rx)"
  "st_phase s = Closed \<Longrightarrow> stream_next_check valid s = s"
  "st_phase s = Closed \<Longrightarrow> stream_channel_closed s = s"
  by (simp_all add: stream_drain_def stream_fetch_def stream_fetch_error_def stream_send_def stream_receive_def
      stream_next_check_def stream_channel_closed_def)

text \<open>A stream that goes on was found valid.\<close>

lemma invalid_closes:
  "\<not> valid \<Longrightarrow> st_phase s = Draining \<Longrightarrow> st_phase (fst (stream_drain valid (s, rx))) = Closed"
  "\<not> valid \<Longrightarrow> st_phase s = Sending (e # rest) \<Longrightarrow> st_phase (stream_send opts valid s) = Closed"
  "\<not> valid \<Longrightarrow> st_phase s = Tailing \<Longrightarrow> st_phase (stream_next_check valid s) = Closed"
  by (simp_all add: stream_drain_def stream_send_def stream_next_check_def)

lemma guarded_check:
  assumes "codec_ok nc" and "guarded nc session lv" and "st_phase (lv_stream lv) \<noteq> Closed"
    and "\<forall>(ops, n) \<in> set steps. calm session ops" and "guard_is_valid nc env now steps lv = (valid, w)"
  shows "sound_world session w \<and> (valid \<longrightarrow> covered nc session w \<and> (credential_live session (sw_server w) \<or> in_flight nc session w))"
  using is_valid_covered [of nc session "lv_world lv" steps env now valid w] assms
  by (simp add: guarded_def guard_is_valid_def del: is_valid.simps)

lemma guarded_step:
  assumes "codec_ok nc" and "guarded nc session lv" and "quiet session op"
  shows "guarded nc session (live_step nc env opts op lv)"
proof (cases "st_phase (lv_stream lv) = Closed")
  case True
  then show ?thesis
    using assms by (cases op) (auto simp: guarded_def closed_simps sound_world_step Let_def case_prod_beta split: option.splits)
next
  case False
  note check = guarded_check [OF assms(1,2) False]
  show ?thesis
  proof (cases op)
    case (WorldOp op')
    then show ?thesis using assms False by (auto simp: guarded_def sound_world_step covered_step)
  next
    case (DrainOp now steps)
    obtain valid w where v: "guard_is_valid nc env now steps lv = (valid, w)" by fastforce
    show ?thesis using DrainOp assms False v check [OF _ v] invalid_closes(1) [of valid "lv_stream lv" "lv_rx lv"]
      by (auto simp: guarded_def case_prod_beta)
  next
    case (SendOp now steps)
    obtain valid w where v: "guard_is_valid nc env now steps lv = (valid, w)" by fastforce
    show ?thesis using SendOp assms False v check [OF _ v] invalid_closes(2) [of valid "lv_stream lv"]
      by (auto simp: guarded_def split: stream_phase.split list.split)
  next
    case (NextCheckOp step)
    obtain valid w where v: "next_check nc env session step (lv_world lv) = (valid, w)" by fastforce
    show ?thesis using NextCheckOp assms False v next_check_covered [OF assms(1) _ _ _ v] invalid_closes(3) [of valid "lv_stream lv"]
      by (auto simp: guarded_def)
  qed (use assms False in \<open>auto simp: guarded_def Let_def case_prod_beta\<close>)
qed

lemma guarded_run:
  "codec_ok nc \<Longrightarrow> guarded nc session lv \<Longrightarrow> \<forall>op \<in> set ops. quiet session op \<Longrightarrow> guarded nc session (live_run nc env opts ops lv)"
  by (induction ops arbitrary: lv) (simp_all add: guarded_step)

lemma stream_session_row:
  assumes "stream_session cred tenant_sc (request_session env rq tenant sv) (cookie_view sv) = Some (CookieSession c)"
  shows "\<exists>r \<in> set (st_rows (sv_cookies sv)). sr_secret r = se_secret c \<and> sr_id r = se_id c"
proof (cases "request_session env rq tenant sv")
  case None
  then obtain ck pk where "resolve_session_from_cookie ck pk (cookie_view sv) = Some (CookieSession c)"
    using assms by (auto simp: stream_session_def resolve_tenant_cookie_session_def split: if_splits tenant_scope.splits)
  from cookie_resolved [OF this] show ?thesis using session_row by fastforce
next
  case (Some session)
  then have "request_session env rq tenant sv = Some (CookieSession c)"
    using assms by (auto simp: stream_session_def split: auth_session.splits if_splits)
  then show ?thesis by (rule request_session_row)
qed

lemma feed_stream_guarded:
  assumes codec: "codec_ok nc" and unique: "secrets_unique (sw_server w)"
    and stream: "feed_stream nc env og rq tenant pairs last_id w = Ok (opts, lv)" and guard: "lv_guard lv = Some session"
    and quiet: "quiet_opening session og"
  shows "guarded nc session lv"
proof -
  obtain query :: client_stream_query and presented w1 ids where p:
    "presented = stream_session (rq_cred rq) (scope_from_query (cq_paths query) (cq_user_cursors query))
       (request_session env rq tenant (sw_server w)) (cookie_view (sw_server w))"
    "authorize_stream nc env og (scope_from_query (cq_paths query) (cq_user_cursors query)) presented
       (world_run nc env (og_before_subscribe og) w) = Ok (lv_guard lv, w1)"
    "lv_world lv = world_run nc env (og_before_lookup og) w1"
    by (rule feed_streamD [OF stream]) blast
  let ?w = "world_run nc env (og_before_subscribe og) w"
  let ?fresh = "?w\<lparr>sw_rx := \<lparr>rv_buffer = [], rv_lagged = False, rv_closed = False\<rparr>\<rparr>"
  have authorized: "\<exists>s. presented = Some s \<and> stream_authorize nc env (Some s) (og_validation og) (og_checks og) ?fresh = (Ok session, w1)"
    using p(2) guard by (cases presented) (auto simp: authorize_stream_def stream_authorize_def simp del: is_valid.simps
        split: tenant_scope.splits subscription.splits sum.splits prod.splits)
  then obtain s where s: "presented = Some s" "stream_authorize nc env (Some s) (og_validation og) (og_checks og) ?fresh = (Ok session, w1)"
    by blast
  then have eq: "s = session"
    by (auto simp: stream_authorize_def Let_def simp del: is_valid.simps split: sum.splits prod.splits bool.splits)
  have "owns_secret session (sw_server w)"
  proof (cases session)
    case (CookieSession c)
    then have "stream_session (rq_cred rq) (scope_from_query (cq_paths query) (cq_user_cursors query))
       (request_session env rq tenant (sw_server w)) (cookie_view (sw_server w)) = Some (CookieSession c)"
      using p(1) s(1) eq by simp
    from row_owns [OF unique stream_session_row [OF this]] show ?thesis by (simp add: CookieSession)
  qed simp
  then have "sound_world session w" using unique by (simp add: sound_world_def)
  from sound_world_run [OF this] have "sound_world session ?w" using quiet by (simp add: quiet_opening_def)
  then have "sound_world session ?fresh" by (simp add: sound_world_def)
  then have w1: "sound_world session w1" "covered nc session w1"
    using stream_authorize_covered [OF codec _ _ _ s(2)] quiet eq by (simp_all add: quiet_opening_def)
  show ?thesis
    using guard p(3) sound_world_run [OF w1(1)] covered_run [OF codec w1(1) _ w1(2)] quiet
    by (simp add: guarded_def quiet_opening_def)
qed

text \<open>Only the sending of a batch and the reception of an event add to what was sent.\<close>

lemma guarded_sends:
  assumes "codec_ok nc" and "guarded nc session lv" and "quiet session op"
    and "st_out (lv_stream (live_step nc env opts op lv)) \<noteq> st_out (lv_stream lv)"
  shows "credential_live session (sw_server (lv_world (live_step nc env opts op lv))) \<or>
    in_flight nc session (lv_world (live_step nc env opts op lv))"
proof (cases op)
  case (SendOp now steps)
  obtain valid w where v: "guard_is_valid nc env now steps lv = (valid, w)" by fastforce
  have phase: "\<exists>e rest. st_phase (lv_stream lv) = Sending (e # rest)"
    using assms(4) SendOp by (auto split: stream_phase.splits list.splits)
  then have "valid" using assms(4) SendOp v by (auto simp: stream_send_def split: if_splits)
  then show ?thesis using guarded_check [OF assms(1,2) _ _ v] phase assms(3) SendOp v by auto
next
  case ReceiveOp
  then have "\<not> check_first lv" "st_phase (lv_stream lv) = Tailing"
    using assms(4) by (auto simp: stream_receive_def split: if_splits)
  then show ?thesis using ReceiveOp assms(2)
    by (auto simp: guarded_def check_first_def next_check_ready_def covered_def case_prod_beta)
qed (use assms(4) in \<open>auto simp: stream_drain_def stream_fetch_def stream_fetch_error_def stream_next_check_def
      stream_channel_closed_def Let_def case_prod_beta split: if_splits sum.splits option.splits\<close>)

section \<open>Examples\<close>

text \<open>The owner of the examples with a grant on the private folder, an uploaded file, and a
  live stream of that folder.\<close>

definition stream_claims :: grant_claims where
  "stream_claims = demo_claims\<lparr>gc_caps := [\<lparr>scope = StoragePath ''/priv/'', actions = [Read, Write]\<rparr>]\<rparr>"

definition stream_env :: "memory_store server_env" where
  "stream_env = demo_env\<lparr>ve_setup := example_setup\<lparr>su_env := example_env\<lparr>
     js_grant_json := (\<lambda>p. if p = ''p'' then Some stream_claims else None),
     js_verify_grant := (\<lambda>k j. if k = demo_owner \<and> j = ''h.p.s'' then Some stream_claims else None)\<rparr>\<rparr>\<rparr>"

definition stream_head :: "string \<Rightarrow> request_head" where
  "stream_head path = \<lparr>rq_now = 1200000000, rq_cred = \<lparr>cr_authorization = Some (''Bearer '' @ demo_bearer), cr_cookies = None\<rparr>,
     rq_target = \<lparr>req_path = path, req_query = None, req_host = None, req_pubky_host = None\<rparr>\<rparr>"

definition stream_put :: server_op where
  "stream_put = StorageOp example_run (stream_head (''/storage/'' @ z32 demo_owner @ ''/priv/z''))
     ''PUT'' example_headers Map.empty [Chunk ''hello'']"

definition stream_codec :: notify_codec where
  "stream_codec = \<lparr>nc_to_json = (\<lambda>r. case r of RevokeGrant gid \<Rightarrow> CHR ''g'' # gid
       | RevokeCookieSession i \<Rightarrow> (if i < 0 then CHR ''n'' else CHR ''c'') # replicate (nat \<bar>i\<bar>) (CHR ''1'')),
     nc_from_json = (\<lambda>s. case s of [] \<Rightarrow> None
       | k # rest \<Rightarrow> if k = CHR ''g'' then Some (RevokeGrant rest)
           else Some (RevokeCookieSession (if k = CHR ''n'' then - int (length rest) else int (length rest))))\<rparr>"

definition stream_start_world :: "memory_store stream_world" where
  "stream_start_world = \<lparr>sw_server = server_run stream_env (demo_ops @ [stream_put]) demo_start, sw_flight = [],
     sw_rx = \<lparr>rv_buffer = [], rv_lagged = False, rv_closed = False\<rparr>\<rparr>"

definition stream_example_opening :: stream_opening where
  "stream_example_opening = \<lparr>og_before_subscribe = [], og_subscription = Subscribed, og_validation = ([], 1200000000),
     og_checks = [], og_before_lookup = []\<rparr>"

definition stream_opened :: "(http_error, stream_options \<times> memory_store live_stream) result" where
  "stream_opened = feed_stream stream_codec stream_env stream_example_opening (stream_head ''/events-stream'') None
     [(''user'', z32 demo_owner), (''path'', ''/priv/''), (''live'', ''true'')] 0 stream_start_world"

lemma stream_codec_ok: "codec_ok stream_codec"
  by (auto simp: codec_ok_def stream_codec_def split: auth_revocation.split)

definition stream_sends :: "stream_options \<Rightarrow> memory_store live_stream \<Rightarrow> event_entity \<Rightarrow> bool" where
  "stream_sends opts lv e \<longleftrightarrow> st_out (lv_stream (live_run stream_codec stream_env opts [DrainOp 0 [], FetchOp] lv)) = [] \<and>
     st_out (lv_stream (live_run stream_codec stream_env opts [DrainOp 0 [], FetchOp, SendOp 0 []] lv)) = [e]"

lemma stream_example_runs:
  "case stream_opened of
     Inl _ \<Rightarrow> False
   | Inr (opts, lv) \<Rightarrow>
       (case (lv_guard lv, st_out (lv_stream (live_run stream_codec stream_env opts [DrainOp 0 [], FetchOp, SendOp 0 []] lv))) of
          (Some (GrantAuthSession g), [e]) \<Rightarrow> as_str (ep_path (vn_path e)) = ''/priv/z'' \<and> gs_user_key g = demo_owner \<and>
            st_out (lv_stream (live_run stream_codec stream_env opts [DrainOp 0 [], FetchOp] lv)) = []
        | _ \<Rightarrow> False)"
  by code_simp

lemma stream_example:
  obtains opts lv g e where "stream_opened = Ok (opts, lv)" "lv_guard lv = Some (GrantAuthSession g)" "gs_user_key g = demo_owner"
    "stream_sends opts lv e" "as_str (ep_path (vn_path e)) = ''/priv/z''"
  using stream_example_runs by (auto simp: stream_sends_def simp del: live_step.simps live_run_simps split: sum.split_asm prod.split_asm option.split_asm auth_session.split_asm list.split_asm)

section \<open>Properties\<close>

text \<open>C10: every event of a private path that a stream sends, at any moment of its life,
  was allowed by the session that guards it: the event is of the session's own user, and the
  session's capabilities give read access to the path of the event.\<close>

theorem private_events_authorized:
  assumes "feed_stream nc env og rq tenant pairs last_id w = Ok (opts, lv)"
    and "e \<in> set (st_out (lv_stream (live_run nc env opts ops lv)))"
    and "prefix PRIVATE_ROOT (as_str (ep_path (vn_path e)))"
  shows "\<exists>session. lv_guard lv = Some session \<and> permits (session_capabilities session) (ep_path (vn_path e)) Read \<and>
    user_get_id (session_user_key session) (us_db (fs_users (sv_store (sw_server (lv_world lv))))) = Ok (vn_user_id e)"
proof -
  let ?path = "as_str (ep_path (vn_path e))"
  obtain query :: client_stream_query and session w1 ids where open_facts:
    "authorized_paths (cq_paths query) (scope_from_query (cq_paths query) (cq_user_cursors query)) session = Ok (so_paths opts)"
    "authorize_stream nc env og (scope_from_query (cq_paths query) (cq_user_cursors query)) session
       (world_run nc env (og_before_subscribe og) w) = Ok (lv_guard lv, w1)"
    "resolve_user_ids (cq_user_cursors query) (us_db (fs_users (sv_store (sw_server (lv_world lv))))) = Ok ids"
    "lv_stream lv = stream_start (PerUser (collect_cursors ids))"
    by (rule feed_streamD [OF assms(1)]) blast
  have "confined opts (fst ` set ids) (lv_stream lv)"
    by (simp add: open_facts(4) stream_start_def confined_def collect_cursors_keys)
  from confined_run [OF this, of nc env ops] have sent: "sendable opts (fst ` set ids) e" using assms(2) by (simp add: confined_def)
  have "so_paths opts \<noteq> []" using open_facts(1) by (cases "cq_paths query") (auto simp: authorized_paths_def and_then_ok_iff split: if_splits)
  then obtain f where f: "f \<in> set (so_paths opts)" "filter_matches f ?path"
    using sent by (auto simp: sendable_def any_match_def list_ex_iff)
  have "prefix PRIVATE_ROOT (as_str f)"
    using authorized_public_or_private [OF open_facts(1) f(1)] filter_matches_prefix [OF f(2)] assms(3) roots_disjoint by blast
  from authorized_pathD [OF open_facts(1) f(1) this] obtain s where s: "session = Some s"
    "scope_tenant (scope_from_query (cq_paths query) (cq_user_cursors query)) = Some (session_user_key s)"
    "permits (session_capabilities s) f Read" by blast
  from single_scope [OF s(2)] obtain c where single: "cq_user_cursors query = [(session_user_key s, c)]"
    "scope_from_query (cq_paths query) (cq_user_cursors query) = PrivateSingleTenant (session_user_key s)" by blast
  have "lv_guard lv = Some s" using open_facts(2) authorize_stream_guard by (simp add: s(1) single(2))
  moreover have "permits (session_capabilities s) (ep_path (vn_path e)) Read"
    using permits_below [OF s(3) filter_matches_covers [OF f(2)]] by simp
  moreover have "user_get_id (session_user_key s) (us_db (fs_users (sv_store (sw_server (lv_world lv))))) = Ok (vn_user_id e)"
    using open_facts(3) sent by (auto simp: resolve_user_ids_def get_ids_def and_then_ok_iff single(1) sendable_def)
  ultimately show ?thesis by blast
qed

theorem private_events_authorized_witness:
  "\<exists>opts lv e g. stream_opened = Ok (opts, lv) \<and> stream_sends opts lv e \<and> lv_guard lv = Some (GrantAuthSession g) \<and>
     permits (gs_capabilities g) (ep_path (vn_path e)) Read"
proof -
  obtain opts lv g e where s: "stream_opened = Ok (opts, lv)" "lv_guard lv = Some (GrantAuthSession g)"
    "stream_sends opts lv e" "as_str (ep_path (vn_path e)) = ''/priv/z''" by (rule stream_example)
  have "e \<in> set (st_out (lv_stream (live_run stream_codec stream_env opts [DrainOp 0 [], FetchOp, SendOp 0 []] lv)))"
    "prefix PRIVATE_ROOT (as_str (ep_path (vn_path e)))"
    using s(3,4) by (simp_all add: stream_sends_def PRIVATE_ROOT_def del: live_step.simps live_run_simps)
  from private_events_authorized [OF s(1) [unfolded stream_opened_def] this] s show ?thesis by fastforce
qed

text \<open>C3: a revoked credential silences its streams.  A private stream is opened on a
  homeserver that has served any requests, and then runs while sign-outs, revocations, sign-ins,
  uploads, lost notifications, overruns of the channels and failures of the listener happen in
  any order, before, while and after it is opened.  Whenever the stream sends an event, its
  credential is not revoked at that moment, or the notification of the revocation is still on
  its way from the database to the listener; the random secrets of sessions are not drawn
  twice.\<close>

theorem revoked_stream_closes:
  assumes "codec_ok nc" and "sw_server w = server_run env requests (server_empty b)"
    and "feed_stream nc env og rq tenant pairs last_id w = Ok (opts, lv)" and "lv_guard lv = Some session"
    and "quiet_opening session og" and "\<forall>op \<in> set (ops @ [op]). quiet session op"
    and "lv' = live_run nc env opts ops lv"
    and "st_out (lv_stream (live_step nc env opts op lv')) \<noteq> st_out (lv_stream lv')"
  shows "credential_live session (sw_server (lv_world (live_step nc env opts op lv'))) \<or>
    in_flight nc session (lv_world (live_step nc env opts op lv'))"
proof -
  have "secrets_unique (sw_server w)"
    using secrets_unique_run [of "server_empty b"] by (simp add: assms(2) secrets_unique_def server_empty_def)
  from guarded_run [OF assms(1) feed_stream_guarded [OF assms(1) this assms(3-5)]] have "guarded nc session lv'"
    using assms(6) by (simp add: assms(7))
  from guarded_sends [OF assms(1) this _ assms(8)] show ?thesis using assms(6) by simp
qed

theorem revoked_stream_closes_witness:
  "\<exists>opts lv e g. stream_opened = Ok (opts, lv) \<and> stream_sends opts lv e \<and> lv_guard lv = Some (GrantAuthSession g) \<and>
     (let lv' = live_run stream_codec stream_env opts [DrainOp 0 [], FetchOp, SendOp 0 []] lv
      in credential_live (GrantAuthSession g) (sw_server (lv_world lv')) \<or> in_flight stream_codec (GrantAuthSession g) (lv_world lv'))"
proof -
  obtain opts lv g e where s: "stream_opened = Ok (opts, lv)" "lv_guard lv = Some (GrantAuthSession g)"
    "stream_sends opts lv e" by (rule stream_example)
  have w: "sw_server stream_start_world = server_run stream_env (demo_ops @ [stream_put]) demo_start"
    by (simp add: stream_start_world_def)
  have q: "quiet_opening (GrantAuthSession g) stream_example_opening"
    by (simp add: quiet_opening_def stream_example_opening_def calm_def)
  have "live_step stream_codec stream_env opts (SendOp 0 []) (live_run stream_codec stream_env opts [DrainOp 0 [], FetchOp] lv) =
      live_run stream_codec stream_env opts [DrainOp 0 [], FetchOp, SendOp 0 []] lv"
    by (simp del: live_step.simps)
  with revoked_stream_closes [OF stream_codec_ok w s(1) [unfolded stream_opened_def] s(2) q, of "[DrainOp 0 [], FetchOp]" "SendOp 0 []", OF _ refl] s
  show ?thesis by (auto simp: stream_sends_def Let_def simp del: live_step.simps live_run_simps credential_live.simps)
qed

end
