(* ===== verification/Rate_Limiter.thy ===== *)
theory Rate_Limiter
  imports Users Authorization
begin

text \<open>
  The rate limits of the client server (\<^verbatim>\<open>client_server/middleware/rate_limiter\<close>): the
  request-count layer with its path limits, the resolution of the bandwidth throttle of a
  request, the pool of limiters that users with the same rate share, and the throttled bodies.
  The limiter itself (the \<^verbatim>\<open>governor\<close> package), glob matching and the addresses of clients are
  parameters.  Instants are nanoseconds of the monotonic clock.
\<close>

section \<open>Model: keyed limiters\<close>

text \<open>What the layers use of a keyed limiter: \<^verbatim>\<open>check_key\<close> answers no wait when the cell is
  granted, \<^verbatim>\<open>retain_recent\<close> forgets the keys that have fully recovered.\<close>

record ('ip, 'g) governor =
  gv_keyed :: "governor_quota \<Rightarrow> 'g"
  gv_check_key :: "'ip limit_key \<Rightarrow> nat \<Rightarrow> 'g \<Rightarrow> nat option \<times> 'g"
  gv_retain_recent :: "nat \<Rightarrow> 'g \<Rightarrow> 'g"
  gv_is_empty :: "'g \<Rightarrow> bool"

section \<open>Model: the layer of request counts\<close>

record ('ip, 'g) limit_tuple =
  lt_limit :: "'ip path_limit"
  lt_limiter :: 'g

text \<open>The error is the message of the first failure, which the start of the server reports.\<close>

datatype 'ip limit_setup_error = WhitelistMismatch "'ip limit_key" | InvalidQuota quota_error

definition limit_tuple_new :: "('ip, 'g) governor \<Rightarrow> 'ip path_limit \<Rightarrow> ('ip limit_setup_error, ('ip, 'g) limit_tuple) result" where
  "limit_tuple_new gv path_limit =
     and_then (map_err WhitelistMismatch (path_limit_validate path_limit)) (\<lambda>_.
     and_then (map_err InvalidQuota (path_limit_to_governor path_limit)) (\<lambda>quota.
       Ok \<lparr>lt_limit = path_limit, lt_limiter = gv_keyed gv quota\<rparr>))"

definition limit_window :: "'ip path_limit \<Rightarrow> nat" where
  "limit_window l = time_unit_secs (rq_time_unit (pl_quota l))"

definition from_path_limits :: "('ip, 'g) governor \<Rightarrow> 'ip path_limit list \<Rightarrow> ('ip limit_setup_error, ('ip, 'g) limit_tuple list) result" where
  "from_path_limits gv limits = try_map (limit_tuple_new gv) (sort_key limit_window limits)"

text \<open>What the layers read of a request: its method and path, and the extensions that earlier
  layers have attached.\<close>

record 'ip limited_request =
  lr_method :: string
  lr_uri_path :: string
  lr_tenant :: "request_tenant option"
  lr_session :: "auth_session option"
  lr_header_ip :: "'ip option"
  lr_client_addr :: "'ip option"

text \<open>The address of a client behind a trusted proxy: exactly one value of the configured header,
  which parses.  Networks, parsing and the canonical form of addresses are parameters.\<close>

definition trusts_peer :: "('net \<Rightarrow> 'ip \<Rightarrow> bool) \<Rightarrow> ('ip \<Rightarrow> 'ip) \<Rightarrow> 'net list option \<Rightarrow> 'ip \<Rightarrow> bool" where
  "trusts_peer contains to_canonical trusted_header_proxies peer =
     (case trusted_header_proxies of
        None \<Rightarrow> True
      | Some networks \<Rightarrow> list_ex (\<lambda>network. contains network peer \<or> contains network (to_canonical peer)) networks)"

definition resolve_http_header :: "(string \<Rightarrow> 'ip option) \<Rightarrow> ('ip \<Rightarrow> 'ip) \<Rightarrow> string list \<Rightarrow> (nat, 'ip) result" where
  "resolve_http_header parse_ip to_canonical header_values =
     (case header_values of
        [] \<Rightarrow> Err 400
      | v # others \<Rightarrow> if others \<noteq> [] then Err 400 else map_ok to_canonical (ok_or 400 (parse_ip v)))"

datatype limit_key_error = MissingClientAddress | MissingRequestTenant

definition extract_ip :: "'ip limited_request \<Rightarrow> (limit_key_error, 'ip) result" where
  "extract_ip req = (case lr_header_ip req of Some ip \<Rightarrow> Ok ip | None \<Rightarrow> ok_or MissingClientAddress (lr_client_addr req))"

definition extract_key :: "'ip path_limit \<Rightarrow> 'ip limited_request \<Rightarrow> (limit_key_error, 'ip limit_key) result" where
  "extract_key l req =
     (case pl_key l of
        IpKey \<Rightarrow> map_ok LimitIp (extract_ip req)
      | UserKey \<Rightarrow> ok_or MissingRequestTenant (map_option (\<lambda>t. LimitUser (rt_public_key t)) (lr_tenant req)))"

definition limit_is_match :: "(string \<Rightarrow> string \<Rightarrow> bool) \<Rightarrow> 'ip path_limit \<Rightarrow> 'ip limited_request \<Rightarrow> bool" where
  "limit_is_match glob_match l req =
     (let path = (case Option.bind (lr_tenant req) rt_storage_path of Some p \<Rightarrow> as_str p | None \<Rightarrow> lr_uri_path req)
      in glob_match (pl_path l) path \<and> pl_method l = lr_method req)"

definition missing_client_address :: http_error where
  "missing_client_address = new_with_message 500 ''Missing client address for rate limiting''"

definition missing_limit_user :: http_error where
  "missing_limit_user = new_with_message 400 ''Failed to extract user for rate limiting''"

fun check_request_count_limits ::
  "(string \<Rightarrow> string \<Rightarrow> bool) \<Rightarrow> ('ip, 'g) governor \<Rightarrow> nat \<Rightarrow> 'ip limited_request \<Rightarrow> ('ip, 'g) limit_tuple list \<Rightarrow>
   (http_error, unit) result \<times> ('ip, 'g) limit_tuple list" where
  "check_request_count_limits glob_match gv now req [] = (Ok (), [])"
| "check_request_count_limits glob_match gv now req (l # ls) =
     (if \<not> limit_is_match glob_match (lt_limit l) req
      then (case check_request_count_limits glob_match gv now req ls of (r, ls) \<Rightarrow> (r, l # ls))
      else case extract_key (lt_limit l) req of
             Inl MissingClientAddress \<Rightarrow> (Err missing_client_address, l # ls)
           | Inl MissingRequestTenant \<Rightarrow> (Err missing_limit_user, l # ls)
           | Inr key \<Rightarrow>
               if is_whitelisted (lt_limit l) key
               then (case check_request_count_limits glob_match gv now req ls of (r, ls) \<Rightarrow> (r, l # ls))
               else (case gv_check_key gv key now (lt_limiter l) of
                       (Some wait_ns, g) \<Rightarrow>
                         (Err (too_many_requests ''Rate limit exceeded'' (max 1 (wait_ns div 1000000000))), l\<lparr>lt_limiter := g\<rparr> # ls)
                     | (None, g) \<Rightarrow>
                         (case check_request_count_limits glob_match gv now req ls of (r, ls) \<Rightarrow> (r, l\<lparr>lt_limiter := g\<rparr> # ls))))"

text \<open>The middleware passes a request no limit matches; otherwise the check decides.\<close>

definition request_limit_call ::
  "(string \<Rightarrow> string \<Rightarrow> bool) \<Rightarrow> ('ip, 'g) governor \<Rightarrow> nat \<Rightarrow> 'ip limited_request \<Rightarrow> ('ip, 'g) limit_tuple list \<Rightarrow>
   (http_error, unit) result \<times> ('ip, 'g) limit_tuple list" where
  "request_limit_call glob_match gv now req limits =
     (if \<not> list_ex (\<lambda>l. limit_is_match glob_match (lt_limit l) req) limits then (Ok (), limits)
      else check_request_count_limits glob_match gv now req limits)"

text \<open>The life of the layer: requests, and the cleanup task of each limit.\<close>

datatype 'ip limit_event = LimitRequest nat "'ip limited_request" | LimitCleanup nat nat

fun limit_event_time :: "'ip limit_event \<Rightarrow> nat" where
  "limit_event_time (LimitRequest now req) = now"
| "limit_event_time (LimitCleanup now i) = now"

text \<open>The answers given, with the requests and their instants.\<close>

fun limit_run ::
  "(string \<Rightarrow> string \<Rightarrow> bool) \<Rightarrow> ('ip, 'g) governor \<Rightarrow> 'ip limit_event list \<Rightarrow> ('ip, 'g) limit_tuple list \<Rightarrow>
   (nat \<times> 'ip limited_request \<times> (http_error, unit) result) list" where
  "limit_run glob_match gv [] limits = []"
| "limit_run glob_match gv (LimitRequest now req # evs) limits =
     (case request_limit_call glob_match gv now req limits of
        (r, limits) \<Rightarrow> (now, req, r) # limit_run glob_match gv evs limits)"
| "limit_run glob_match gv (LimitCleanup now i # evs) limits =
     limit_run glob_match gv evs
       (if i < length limits then limits[i := (limits ! i)\<lparr>lt_limiter := gv_retain_recent gv now (lt_limiter (limits ! i))\<rparr>] else limits)"

section \<open>Model: the bandwidth throttle of a request\<close>

text \<open>The limiters live behind shared references: the pools and the throttled bodies hold
  addresses into the heap of limiters.\<close>

type_synonym speed_limit_key = "bandwidth_quota \<times> nat option"

record 'g bandwidth_state =
  bw_defaults :: default_quotas
  bw_heap :: "'g list"
  bw_read :: "(speed_limit_key \<times> nat) list"
  bw_write :: "(speed_limit_key \<times> nat) list"
  bw_unauthenticated :: "nat option"

text \<open>\<^verbatim>\<open>None\<close> is the panic of a rate that has no governor quota.\<close>

definition get_or_create ::
  "('ip, 'g) governor \<Rightarrow> speed_limit_key \<Rightarrow> (speed_limit_key \<times> nat) list \<times> 'g list \<Rightarrow>
   (nat \<times> (speed_limit_key \<times> nat) list \<times> 'g list) option" where
  "get_or_create gv k ph =
     (case ph of (pool, heap) \<Rightarrow>
        case map_of pool k of
          Some a \<Rightarrow> Some (a, pool, heap)
        | None \<Rightarrow> map_option (\<lambda>quota. (length heap, (k, length heap) # pool, heap @ [gv_keyed gv quota]))
                    (to_governor_quota (fst k) (snd k)))"

definition bandwidth_state_new :: "('ip, 'g) governor \<Rightarrow> default_quotas \<Rightarrow> 'g bandwidth_state option" where
  "bandwidth_state_new gv dq =
     (case dq_unauthenticated_ip_rate_read dq of
        None \<Rightarrow> Some \<lparr>bw_defaults = dq, bw_heap = [], bw_read = [], bw_write = [], bw_unauthenticated = None\<rparr>
      | Some rate \<Rightarrow> map_option (\<lambda>quota. \<lparr>bw_defaults = dq, bw_heap = [gv_keyed gv quota], bw_read = [], bw_write = [],
                                bw_unauthenticated = Some 0\<rparr>) (to_governor_quota rate None))"

definition is_write_method :: "string \<Rightarrow> bool" where
  "is_write_method m \<longleftrightarrow> m \<in> {''PUT'', ''POST'', ''PATCH'', ''DELETE''}"

definition should_limit :: "'ip limited_request \<Rightarrow> 'g bandwidth_state \<Rightarrow> bool" where
  "should_limit req bw \<longleftrightarrow> lr_tenant req \<noteq> None \<or> bw_unauthenticated bw \<noteq> None"

type_synonym 'ip throttler = "('ip limit_key \<times> nat) option"

definition ip_throttler :: "(limit_key_error, 'ip) result \<Rightarrow> 'g bandwidth_state \<Rightarrow> (http_error, 'ip throttler) result" where
  "ip_throttler client_ip bw =
     (case bw_unauthenticated bw of
        None \<Rightarrow> Ok None
      | Some limiter \<Rightarrow> map_ok (\<lambda>ip. Some (LimitIp ip, limiter)) (map_err (\<lambda>_. missing_client_address) client_ip))"

text \<open>The answer of \<^verbatim>\<open>resolve_quota\<close> for the session's user is an input.\<close>

definition resolve_bandwidth_throttler ::
  "('ip, 'g) governor \<Rightarrow> (public_key \<Rightarrow> (sql_error, user_quota option) result) \<Rightarrow> 'ip limited_request \<Rightarrow> 'g bandwidth_state \<Rightarrow>
   ((http_error, 'ip throttler) result \<times> 'g bandwidth_state) option" where
  "resolve_bandwidth_throttler gv quota_of req bw =
     (case map_option session_user_key (lr_session req) of
        None \<Rightarrow> Some (ip_throttler (extract_ip req) bw, bw)
      | Some pubkey \<Rightarrow>
          (case quota_of pubkey of
             Inl _ \<Rightarrow> Some (Err (new_with_message 500 ''Failed to resolve user limits''), bw)
           | Inr None \<Rightarrow> Some (ip_throttler (extract_ip req) bw, bw)
           | Inr (Some quota) \<Rightarrow>
               (let dq = bw_defaults bw; is_write = is_write_method (lr_method req);
                    rate = (if is_write then resolve_with_default (uq_rate_write quota) (dq_rate_write dq)
                            else resolve_with_default (uq_rate_read quota) (dq_rate_read dq));
                    user_burst = (if is_write then uq_rate_write_burst quota else uq_rate_read_burst quota);
                    default_burst = (if is_write then dq_rate_write_burst dq else dq_rate_read_burst dq)
                in case rate of
                     None \<Rightarrow> Some (Ok None, bw)
                   | Some rate \<Rightarrow>
                       let burst = (case user_burst of Some b \<Rightarrow> Some b | None \<Rightarrow> default_burst)
                       in map_option (\<lambda>(limiter, pool, heap).
                            (Ok (Some (LimitUser pubkey, limiter)),
                             if is_write then bw\<lparr>bw_write := pool, bw_heap := heap\<rparr> else bw\<lparr>bw_read := pool, bw_heap := heap\<rparr>))
                            (get_or_create gv (rate, burst) (if is_write then bw_write bw else bw_read bw, bw_heap bw)))))"

text \<open>The cleanup task of a pool: every limiter forgets the keys that have recovered, and a
  limiter with no key left is dropped from the pool.\<close>

definition retain_all :: "('ip, 'g) governor \<Rightarrow> nat \<Rightarrow> nat list \<Rightarrow> 'g list \<Rightarrow> 'g list" where
  "retain_all gv now addresses heap =
     map (\<lambda>a. if a \<in> set addresses then gv_retain_recent gv now (heap ! a) else heap ! a) [0..<length heap]"

definition pool_cleanup ::
  "('ip, 'g) governor \<Rightarrow> nat \<Rightarrow> (speed_limit_key \<times> nat) list \<times> 'g list \<Rightarrow> (speed_limit_key \<times> nat) list \<times> 'g list" where
  "pool_cleanup gv now ph =
     (case ph of (pool, heap) \<Rightarrow>
        let heap = retain_all gv now (map snd pool) heap
        in (filter (\<lambda>(k, a). \<not> gv_is_empty gv (heap ! a)) pool, heap))"

section \<open>Model: a throttled body\<close>

text \<open>A body in transit: the key and the limiter it holds, the chunks still to come, the
  kilobytes of the current chunk that have been granted, and the bytes passed on.\<close>

definition div_ceil :: "nat \<Rightarrow> nat \<Rightarrow> nat" where
  "div_ceil n d = (n + d - 1) div d"

record 'ip throttled_body =
  tb_key :: "'ip limit_key"
  tb_limiter :: nat
  tb_chunks :: "nat list"
  tb_granted :: nat
  tb_passed :: nat

text \<open>One turn: a chunk without bytes passes at once; otherwise the limiter is asked for one
  more kilobyte, and the chunk passes once all of its kilobytes are granted.\<close>

definition throttle_turn ::
  "('ip, 'g) governor \<Rightarrow> nat \<Rightarrow> 'ip throttled_body \<times> 'g list \<Rightarrow> bool \<times> 'ip throttled_body \<times> 'g list" where
  "throttle_turn gv now th =
     (case th of (tb, heap) \<Rightarrow>
        case tb_chunks tb of
          [] \<Rightarrow> (False, tb, heap)
        | chunk # rest \<Rightarrow>
            let chunk_kilobytes = div_ceil chunk 1024
            in if tb_granted tb \<ge> chunk_kilobytes
               then (False, tb\<lparr>tb_chunks := rest, tb_granted := 0, tb_passed := tb_passed tb + chunk\<rparr>, heap)
               else case gv_check_key gv (tb_key tb) now (heap ! tb_limiter tb) of
                      (None, g) \<Rightarrow> (True, tb\<lparr>tb_granted := tb_granted tb + 1\<rparr>, heap[tb_limiter tb := g])
                    | (Some _, g) \<Rightarrow> (False, tb, heap[tb_limiter tb := g]))"

text \<open>The traffic of the layer: requests arrive, whose bodies and answers are throttled; the
  bodies take turns; the cleanup tasks run.\<close>

datatype 'ip traffic_event =
    Arrive "public_key \<Rightarrow> (sql_error, user_quota option) result" "'ip limited_request" "nat list" "nat list"
  | BodyTurn nat nat
  | CleanRead nat
  | CleanWrite nat
  | CleanIp nat

definition new_body :: "'ip limit_key \<Rightarrow> nat \<Rightarrow> nat list \<Rightarrow> 'ip throttled_body" where
  "new_body key limiter chunks = \<lparr>tb_key = key, tb_limiter = limiter, tb_chunks = chunks, tb_granted = 0, tb_passed = 0\<rparr>"

fun traffic_step ::
  "('ip, 'g) governor \<Rightarrow> 'ip traffic_event \<Rightarrow> 'g bandwidth_state \<times> 'ip throttled_body list \<Rightarrow>
   'g bandwidth_state \<times> 'ip throttled_body list" where
  "traffic_step gv (Arrive quota_of req sent answered) (bw, bodies) =
     (if \<not> should_limit req bw then (bw, bodies)
      else case resolve_bandwidth_throttler gv quota_of req bw of
             Some (Inr (Some (key, limiter)), bw) \<Rightarrow> (bw, bodies @ [new_body key limiter sent, new_body key limiter answered])
           | Some (_, bw) \<Rightarrow> (bw, bodies)
           | None \<Rightarrow> (bw, bodies))"
| "traffic_step gv (BodyTurn now j) (bw, bodies) =
     (if j < length bodies
      then case throttle_turn gv now (bodies ! j, bw_heap bw) of
             (_, tb, heap) \<Rightarrow> (bw\<lparr>bw_heap := heap\<rparr>, bodies[j := tb])
      else (bw, bodies))"
| "traffic_step gv (CleanRead now) (bw, bodies) =
     (case pool_cleanup gv now (bw_read bw, bw_heap bw) of (pool, heap) \<Rightarrow> (bw\<lparr>bw_read := pool, bw_heap := heap\<rparr>, bodies))"
| "traffic_step gv (CleanWrite now) (bw, bodies) =
     (case pool_cleanup gv now (bw_write bw, bw_heap bw) of (pool, heap) \<Rightarrow> (bw\<lparr>bw_write := pool, bw_heap := heap\<rparr>, bodies))"
| "traffic_step gv (CleanIp now) (bw, bodies) =
     (case bw_unauthenticated bw of
        None \<Rightarrow> (bw, bodies)
      | Some a \<Rightarrow> (bw\<lparr>bw_heap := retain_all gv now [a] (bw_heap bw)\<rparr>, bodies))"

fun traffic_time :: "'ip traffic_event \<Rightarrow> nat option" where
  "traffic_time (Arrive quota_of req sent answered) = None"
| "traffic_time (BodyTurn now j) = Some now"
| "traffic_time (CleanRead now) = Some now"
| "traffic_time (CleanWrite now) = Some now"
| "traffic_time (CleanIp now) = Some now"

definition traffic_run ::
  "('ip, 'g) governor \<Rightarrow> 'ip traffic_event list \<Rightarrow> 'g bandwidth_state \<times> 'ip throttled_body list \<Rightarrow>
   'g bandwidth_state \<times> 'ip throttled_body list" where
  "traffic_run gv evs st = fold (traffic_step gv) evs st"

section \<open>The contract of a limiter\<close>

datatype 'ip gate_event = GateCheck nat "'ip limit_key" | GateRetain nat

fun gate_time :: "'ip gate_event \<Rightarrow> nat" where
  "gate_time (GateCheck now key) = now"
| "gate_time (GateRetain now) = now"

text \<open>The grants of a limiter.\<close>

fun gate_grants :: "('ip, 'g) governor \<Rightarrow> 'ip gate_event list \<Rightarrow> 'g \<Rightarrow> (nat \<times> 'ip limit_key) list" where
  "gate_grants gv [] g = []"
| "gate_grants gv (GateCheck now key # evs) g =
     (case gv_check_key gv key now g of
        (None, g) \<Rightarrow> (now, key) # gate_grants gv evs g
      | (Some _, g) \<Rightarrow> gate_grants gv evs g)"
| "gate_grants gv (GateRetain now # evs) g = gate_grants gv evs (gv_retain_recent gv now g)"

text \<open>What the package documents of a keyed limiter with a quota: a burst, and one more cell
  for each interval that passes.\<close>

definition quota_cells :: "governor_quota \<Rightarrow> nat \<Rightarrow> nat" where
  "quota_cells quota window = max_burst quota + window div replenish_ns quota"

definition governor_ok :: "('ip, 'g) governor \<Rightarrow> bool" where
  "governor_ok gv \<longleftrightarrow> (\<forall>quota evs key start window.
     0 < replenish_ns quota \<longrightarrow> 0 < max_burst quota \<longrightarrow> sorted (map gate_time evs) \<longrightarrow>
     length (filter (\<lambda>(now, k). k = key \<and> start \<le> now \<and> now \<le> start + window) (gate_grants gv evs (gv_keyed gv quota)))
       \<le> quota_cells quota window)"

section \<open>Request counts\<close>

text \<open>What a request does to one limit: nothing, or one check of its limiter, which was granted
  if the request passes.\<close>

lemma check_limit_effect:
  assumes "check_request_count_limits glob gv now req ls = (r, ls')" and "i < length ls"
  shows "length ls' = length ls \<and> lt_limit (ls' ! i) = lt_limit (ls ! i) \<and>
    (lt_limiter (ls' ! i) = lt_limiter (ls ! i) \<and>
       \<not> (r = Ok () \<and> limit_is_match glob (lt_limit (ls ! i)) req \<and>
          (\<exists>key. extract_key (lt_limit (ls ! i)) req = Ok key \<and> \<not> is_whitelisted (lt_limit (ls ! i)) key)) \<or>
     (\<exists>key wait. extract_key (lt_limit (ls ! i)) req = Ok key \<and>
        gv_check_key gv key now (lt_limiter (ls ! i)) = (wait, lt_limiter (ls' ! i)) \<and> (r = Ok () \<longrightarrow> wait = None)))"
  using assms
proof (induction ls arbitrary: i r ls')
  case (Cons l ls)
  obtain r0 ls0 where rest: "check_request_count_limits glob gv now req ls = (r0, ls0)" by fastforce
  have len: "length ls0 = length ls" using Cons.IH [OF rest, of 0] rest by (cases ls) auto
  show ?case
  proof (cases i)
    case 0
    then show ?thesis using Cons.prems rest len
      by (auto split: if_splits sum.splits limit_key_error.splits prod.splits option.splits)
  next
    case (Suc j)
    then show ?thesis using Cons.prems rest len Cons.IH [OF rest, of j]
      by (auto split: if_splits sum.splits limit_key_error.splits prod.splits option.splits)
  qed
qed simp

definition charged :: "(string \<Rightarrow> string \<Rightarrow> bool) \<Rightarrow> 'ip path_limit \<Rightarrow> 'ip limit_key \<Rightarrow> nat \<times> 'ip limited_request \<times> (http_error, unit) result \<Rightarrow> bool" where
  "charged glob l key answer = (case answer of (now, req, r) \<Rightarrow>
     r = Ok () \<and> limit_is_match glob l req \<and> extract_key l req = Ok key \<and> \<not> is_whitelisted l key)"

lemma request_limit_effect:
  assumes "request_limit_call glob gv now req ls = (r, ls')" and "i < length ls"
  shows "length ls' = length ls \<and> lt_limit (ls' ! i) = lt_limit (ls ! i) \<and>
    (lt_limiter (ls' ! i) = lt_limiter (ls ! i) \<and> (\<forall>key. \<not> charged glob (lt_limit (ls ! i)) key (now, req, r)) \<or>
     (\<exists>key wait. gv_check_key gv key now (lt_limiter (ls ! i)) = (wait, lt_limiter (ls' ! i)) \<and>
        (\<forall>k. charged glob (lt_limit (ls ! i)) k (now, req, r) \<longrightarrow> k = key \<and> wait = None)))"
proof (cases "list_ex (\<lambda>l. limit_is_match glob (lt_limit l) req) ls")
  case True
  then have "check_request_count_limits glob gv now req ls = (r, ls')" using assms(1) by (simp add: request_limit_call_def)
  from check_limit_effect [OF this assms(2)] show ?thesis
  proof (elim conjE disjE exE)
    fix key wait
    assume "length ls' = length ls" "lt_limit (ls' ! i) = lt_limit (ls ! i)" "extract_key (lt_limit (ls ! i)) req = Ok key"
      "gv_check_key gv key now (lt_limiter (ls ! i)) = (wait, lt_limiter (ls' ! i))" "r = Ok () \<longrightarrow> wait = None"
    then show ?thesis by (intro conjI disjI2 exI [of _ key] exI [of _ wait]) (auto simp: charged_def)
  qed (auto simp: charged_def)
next
  case False
  then have "\<not> limit_is_match glob (lt_limit (ls ! i)) req" using assms(2) by (auto simp: list_ex_iff)
  then show ?thesis using False assms(1) by (auto simp: request_limit_call_def charged_def)
qed

text \<open>The requests a limit was charged for are among the grants of its limiter.\<close>

lemma charged_are_granted:
  "i < length ls \<Longrightarrow> \<exists>gevs. subseq (map gate_time gevs) (map limit_event_time evs) \<and>
     subseq (map (\<lambda>(now, _). (now, key)) (filter (charged glob (lt_limit (ls ! i)) key) (limit_run glob gv evs ls)))
       (gate_grants gv gevs (lt_limiter (ls ! i)))"
proof (induction evs arbitrary: ls)
  case Nil
  show ?case by (rule exI [of _ "[]"]) simp
next
  case (Cons ev evs)
  show ?case
  proof (cases ev)
    case (LimitRequest now req)
    obtain r ls' where call: "request_limit_call glob gv now req ls = (r, ls')" by fastforce
    note effect = request_limit_effect [OF call Cons.prems]
    from effect Cons.IH [of ls'] Cons.prems obtain gevs where g: "subseq (map gate_time gevs) (map limit_event_time evs)"
      "subseq (map (\<lambda>(now, _). (now, key)) (filter (charged glob (lt_limit (ls ! i)) key) (limit_run glob gv evs ls')))
         (gate_grants gv gevs (lt_limiter (ls' ! i)))" by auto
    from effect show ?thesis
    proof (elim conjE disjE exE)
      assume same: "lt_limiter (ls' ! i) = lt_limiter (ls ! i)" and "\<forall>key. \<not> charged glob (lt_limit (ls ! i)) key (now, req, r)"
      then show ?thesis using g call LimitRequest by (intro exI [of _ gevs]) auto
    next
      fix k wait
      assume check: "gv_check_key gv k now (lt_limiter (ls ! i)) = (wait, lt_limiter (ls' ! i))"
        and paid: "\<forall>k'. charged glob (lt_limit (ls ! i)) k' (now, req, r) \<longrightarrow> k' = k \<and> wait = None"
      show ?thesis
      proof (intro exI conjI)
        show "subseq (map gate_time (GateCheck now k # gevs)) (map limit_event_time (ev # evs))" using g(1) LimitRequest by simp
        show "subseq (map (\<lambda>(now, _). (now, key)) (filter (charged glob (lt_limit (ls ! i)) key) (limit_run glob gv (ev # evs) ls)))
          (gate_grants gv (GateCheck now k # gevs) (lt_limiter (ls ! i)))"
          using g(2) call check paid LimitRequest by (cases wait) auto
      qed
    qed
  next
    case (LimitCleanup now j)
    let ?ls = "if j < length ls then ls[j := (ls ! j)\<lparr>lt_limiter := gv_retain_recent gv now (lt_limiter (ls ! j))\<rparr>] else ls"
    have same: "lt_limit (?ls ! i) = lt_limit (ls ! i)" using Cons.prems by (auto simp: nth_list_update)
    have "i < length ?ls" using Cons.prems by simp
    from Cons.IH [OF this, unfolded same] obtain gevs where g: "subseq (map gate_time gevs) (map limit_event_time evs)"
      "subseq (map (\<lambda>(now, _). (now, key)) (filter (charged glob (lt_limit (ls ! i)) key) (limit_run glob gv evs ?ls)))
         (gate_grants gv gevs (lt_limiter (?ls ! i)))" by blast
    show ?thesis
    proof (cases "i = j")
      case True
      then show ?thesis using g LimitCleanup Cons.prems by (intro exI [of _ "GateRetain now # gevs"]) auto
    next
      case False
      then have "lt_limiter (?ls ! i) = lt_limiter (ls ! i)" using Cons.prems by auto
      then show ?thesis using g LimitCleanup by (intro exI [of _ gevs]) auto
    qed
  qed
qed

lemma subseq_sorted: "subseq xs ys \<Longrightarrow> sorted ys \<Longrightarrow> sorted (xs :: nat list)"
  by (induction rule: list_emb.induct) (auto dest: list_emb_set)

lemma granted_bound:
  assumes "governor_ok gv" and "0 < replenish_ns quota" and "0 < max_burst quota" and "sorted instants"
    and "subseq (map gate_time gevs) instants"
    and "subseq (map (\<lambda>(now, _). (now, key)) xs) (gate_grants gv gevs (gv_keyed gv quota))"
  shows "length (filter (\<lambda>(now, _). start \<le> now \<and> now \<le> start + window) xs) \<le> quota_cells quota window"
proof -
  let ?in = "\<lambda>(now, k). k = key \<and> start \<le> now \<and> now \<le> start + window"
  have "length (filter (\<lambda>(now, _). start \<le> now \<and> now \<le> start + window) xs) = length (filter ?in (map (\<lambda>(now, _). (now, key)) xs))"
    by (induction xs) auto
  also have "\<dots> \<le> length (filter ?in (gate_grants gv gevs (gv_keyed gv quota)))"
    by (rule list_emb_length [OF subseq_filter [OF assms(6)]])
  also have "\<dots> \<le> quota_cells quota window"
    using assms(1-3) subseq_sorted [OF assms(5,4)] by (simp add: governor_ok_def)
  finally show ?thesis .
qed

text \<open>Limits are checked from the shortest window to the longest, so a request that one of them
  rejects has been charged by none of a longer window.\<close>

lemma rejected_leaves_rest:
  assumes "check_request_count_limits glob gv now req ls = (Err e, ls')"
  shows "\<exists>j < length ls. \<forall>i. j < i \<longrightarrow> i < length ls \<longrightarrow> ls' ! i = ls ! i"
  using assms
proof (induction ls arbitrary: ls')
  case (Cons l ls)
  obtain r0 ls0 where rest: "check_request_count_limits glob gv now req ls = (r0, ls0)" by fastforce
  consider "r0 = Err e" "tl ls' = ls0" "length ls' = Suc (length ls0)" | "tl ls' = ls" "ls' \<noteq> []"
    using Cons.prems rest by (auto split: if_splits sum.splits limit_key_error.splits prod.splits option.splits)
  then show ?case
  proof cases
    case 1
    from Cons.IH [OF rest [unfolded 1(1)]] obtain j where "j < length ls" "\<forall>i. j < i \<longrightarrow> i < length ls \<longrightarrow> ls0 ! i = ls ! i" by blast
    then show ?thesis using 1 by (intro exI [of _ "Suc j"]) (auto simp: nth_tl [symmetric] less_Suc_eq_0_disj Suc_less_eq2 neq_Nil_conv length_Suc_conv)
  next
    case 2
    then show ?thesis by (intro exI [of _ 0]) (cases ls'; auto simp: nth_Cons')
  qed
qed simp

lemma limit_tuple_new_ok:
  "limit_tuple_new gv l = Ok t \<Longrightarrow> lt_limit t = l \<and> (\<exists>quota. path_limit_to_governor l = Ok quota \<and> lt_limiter t = gv_keyed gv quota)"
  by (auto simp: limit_tuple_new_def and_then_ok_iff)

lemma from_path_limits_sorted:
  assumes "from_path_limits gv limits = Ok ts"
  shows "map lt_limit ts = sort_key limit_window limits"
  using assms by (auto simp: from_path_limits_def try_map_ok_iff list_all2_conv_all_nth intro!: nth_equalityI dest!: limit_tuple_new_ok)

section \<open>Bandwidth\<close>

text \<open>The weight of a body is what it has passed and may pass with its grants; only a grant adds
  to it, at most a kilobyte.\<close>

definition body_weight :: "'ip throttled_body \<Rightarrow> nat" where
  "body_weight tb = tb_passed tb + 1024 * tb_granted tb"

definition holds :: "nat \<Rightarrow> 'ip limit_key \<Rightarrow> 'ip throttled_body \<Rightarrow> bool" where
  "holds a key tb \<longleftrightarrow> tb_limiter tb = a \<and> tb_key tb = key"

definition total_weight :: "nat \<Rightarrow> 'ip limit_key \<Rightarrow> 'ip throttled_body list \<Rightarrow> nat" where
  "total_weight a key bodies = sum_list (map body_weight (filter (holds a key) bodies))"

lemma div_ceil_bound: "n \<le> 1024 * div_ceil n 1024"
proof -
  have "n + 1023 = 1024 * ((n + 1023) div 1024) + (n + 1023) mod 1024" by simp
  moreover have "(n + 1023) mod 1024 < 1024" by simp
  ultimately show ?thesis by (simp add: div_ceil_def)
qed

lemma throttle_turn_effect:
  assumes "throttle_turn gv now (tb, heap) = (granted, tb', heap')"
  shows "tb_key tb' = tb_key tb \<and> tb_limiter tb' = tb_limiter tb \<and> length heap' = length heap \<and>
    (\<forall>a. a \<noteq> tb_limiter tb \<longrightarrow> heap' ! a = heap ! a) \<and>
    (heap' = heap \<and> body_weight tb' \<le> body_weight tb \<or>
     (\<exists>wait. gv_check_key gv (tb_key tb) now (heap ! tb_limiter tb) = (wait, snd (gv_check_key gv (tb_key tb) now (heap ! tb_limiter tb))) \<and>
        heap' = heap[tb_limiter tb := snd (gv_check_key gv (tb_key tb) now (heap ! tb_limiter tb))] \<and>
        body_weight tb' \<le> body_weight tb + (if wait = None then 1024 else 0)))"
proof (cases "tb_chunks tb")
  case (Cons chunk rest)
  have "chunk \<le> 1024 * tb_granted tb" if "div_ceil chunk 1024 \<le> tb_granted tb"
    using div_ceil_bound [of chunk] that by (meson le_trans mult_le_mono2)
  then show ?thesis using assms Cons
    by (auto simp: throttle_turn_def Let_def body_weight_def split: if_splits prod.splits option.splits)
qed (use assms in \<open>simp add: throttle_turn_def\<close>)

lemma total_weight_update:
  assumes "j < length bodies" and "tb_key tb = tb_key (bodies ! j)" and "tb_limiter tb = tb_limiter (bodies ! j)"
    and "body_weight tb \<le> body_weight (bodies ! j) + d"
  shows "total_weight a key (bodies[j := tb]) \<le> total_weight a key bodies + (if holds a key (bodies ! j) then d else 0)"
  using assms
proof (induction bodies arbitrary: j)
  case (Cons x bodies)
  show ?case
  proof (cases j)
    case 0
    then show ?thesis using Cons.prems by (auto simp: total_weight_def holds_def)
  next
    case (Suc n)
    then show ?thesis using Cons.IH [of n] Cons.prems by (auto simp: total_weight_def)
  qed
qed simp

fun gate_after :: "('ip, 'g) governor \<Rightarrow> 'ip gate_event list \<Rightarrow> 'g \<Rightarrow> 'g" where
  "gate_after gv [] g = g"
| "gate_after gv (GateCheck now key # evs) g = gate_after gv evs (snd (gv_check_key gv key now g))"
| "gate_after gv (GateRetain now # evs) g = gate_after gv evs (gv_retain_recent gv now g)"

lemma gate_grants_append: "gate_grants gv (xs @ ys) g = gate_grants gv xs g @ gate_grants gv ys (gate_after gv xs g)"
  by (induction gv xs g rule: gate_grants.induct) (auto split: prod.split option.split)

lemma gate_after_append: "gate_after gv (xs @ ys) g = gate_after gv ys (gate_after gv xs g)"
  by (induction gv xs g rule: gate_after.induct) auto

definition grants_of :: "'ip limit_key \<Rightarrow> (nat \<times> 'ip limit_key) list \<Rightarrow> nat" where
  "grants_of key gs = length (filter (\<lambda>(now, k). k = key) gs)"

definition gated :: "('ip, 'g) governor \<Rightarrow> nat \<Rightarrow> 'ip limit_key \<Rightarrow> nat list \<Rightarrow> 'g bandwidth_state \<times> 'ip throttled_body list \<Rightarrow>
    'g bandwidth_state \<times> 'ip throttled_body list \<Rightarrow> 'ip gate_event list \<Rightarrow> bool" where
  "gated gv a key instants st st' gevs \<longleftrightarrow> a < length (bw_heap (fst st')) \<and> subseq (map gate_time gevs) instants \<and>
     bw_heap (fst st') ! a = gate_after gv gevs (bw_heap (fst st) ! a) \<and>
     total_weight a key (snd st') \<le> total_weight a key (snd st) + 1024 * grants_of key (gate_grants gv gevs (bw_heap (fst st) ! a))"

lemma gated_same: "a < length (bw_heap bw') \<Longrightarrow> bw_heap bw' ! a = bw_heap bw ! a \<Longrightarrow> total_weight a key bodies' = total_weight a key bodies \<Longrightarrow>
    gated gv a key instants (bw, bodies) (bw', bodies') []"
  by (simp add: gated_def grants_of_def)

lemma gated_retain: "a < length (bw_heap bw') \<Longrightarrow> bw_heap bw' ! a = gv_retain_recent gv now (bw_heap bw ! a) \<Longrightarrow>
    gated gv a key [now] (bw, bodies) (bw', bodies) [GateRetain now]"
  by (simp add: gated_def grants_of_def)

lemma gated_trans:
  assumes "gated gv a key xs s1 s2 gevs" and "gated gv a key ys s2 s3 gevs'"
  shows "gated gv a key (xs @ ys) s1 s3 (gevs @ gevs')"
  using assms by (auto simp: gated_def gate_grants_append gate_after_append grants_of_def intro: list_emb_append_mono)

lemma gated_arrive:
  assumes "a < length (bw_heap bw)"
  shows "gated gv a key [] (bw, bodies) (traffic_step gv (Arrive quota_of req sent answered) (bw, bodies)) []"
proof -
  have heap: "length (bw_heap bw) \<le> length (bw_heap bw') \<and> bw_heap bw' ! a = bw_heap bw ! a"
    if "resolve_bandwidth_throttler gv quota_of req bw = Some (r, bw')" for r bw'
    using that assms by (auto simp: resolve_bandwidth_throttler_def get_or_create_def Let_def nth_append
        split: option.splits sum.splits if_splits)
  have "total_weight a key (bodies @ [new_body k l c1, new_body k l c2]) = total_weight a key bodies" for k l c1 c2
    by (simp add: total_weight_def new_body_def body_weight_def)
  then show ?thesis
    using assms heap by (auto split: option.splits sum.splits intro!: gated_same dest: order_less_le_trans)
qed

lemma gated_turn:
  assumes "a < length (bw_heap bw)"
  shows "\<exists>gevs. gated gv a key [now] (bw, bodies) (traffic_step gv (BodyTurn now j) (bw, bodies)) gevs"
proof (cases "j < length bodies")
  case True
  let ?tb = "bodies ! j"
  obtain granted tb heap where turn: "throttle_turn gv now (?tb, bw_heap bw) = (granted, tb, heap)" by (metis prod_cases3)
  note effect = throttle_turn_effect [OF turn]
  have step: "traffic_step gv (BodyTurn now j) (bw, bodies) = (bw\<lparr>bw_heap := heap\<rparr>, bodies[j := tb])" using True turn by simp
  from effect have keys: "tb_key tb = tb_key ?tb" "tb_limiter tb = tb_limiter ?tb" and len: "length heap = length (bw_heap bw)"
    and others: "\<And>b. b \<noteq> tb_limiter ?tb \<Longrightarrow> heap ! b = bw_heap bw ! b" by auto
  from effect show ?thesis
  proof (elim conjE disjE exE)
    assume "heap = bw_heap bw" "body_weight tb \<le> body_weight ?tb"
    then show ?thesis using total_weight_update [OF True keys, of 0 a key] assms step
      by (intro exI [of _ "[]"]) (simp add: gated_def grants_of_def)
  next
    fix wait
    assume check: "gv_check_key gv (tb_key ?tb) now (bw_heap bw ! tb_limiter ?tb) =
        (wait, snd (gv_check_key gv (tb_key ?tb) now (bw_heap bw ! tb_limiter ?tb)))"
      and heap: "heap = (bw_heap bw)[tb_limiter ?tb := snd (gv_check_key gv (tb_key ?tb) now (bw_heap bw ! tb_limiter ?tb))]"
      and weight: "body_weight tb \<le> body_weight ?tb + (if wait = None then 1024 else 0)"
    note w = total_weight_update [OF True keys weight, of a key]
    show ?thesis
    proof (cases "tb_limiter ?tb = a")
      case True
      then have "gated gv a key [now] (bw, bodies) (bw\<lparr>bw_heap := heap\<rparr>, bodies[j := tb]) [GateCheck now (tb_key ?tb)]"
        using w assms heap check by (cases wait) (auto simp: gated_def grants_of_def holds_def split: if_splits prod.splits)
      then show ?thesis using step by auto
    next
      case False
      then have "gated gv a key [now] (bw, bodies) (bw\<lparr>bw_heap := heap\<rparr>, bodies[j := tb]) []"
        using w assms others [of a] len by (simp add: gated_def grants_of_def holds_def)
      then show ?thesis using step by auto
    qed
  qed
qed (use assms in \<open>auto intro!: exI [of _ "[]"] gated_same\<close>)

lemma retain_all_nth:
  "length (retain_all gv now addresses heap) = length heap"
  "a < length heap \<Longrightarrow> retain_all gv now addresses heap ! a = (if a \<in> set addresses then gv_retain_recent gv now (heap ! a) else heap ! a)"
  by (simp_all add: retain_all_def)

lemma gated_cleanup:
  assumes "a < length (bw_heap bw)" and "bw_heap bw' = retain_all gv now addresses (bw_heap bw)"
  shows "\<exists>gevs. gated gv a key [now] (bw, bodies) (bw', bodies) gevs"
proof (cases "a \<in> set addresses")
  case True
  then have "gated gv a key [now] (bw, bodies) (bw', bodies) [GateRetain now]"
    using assms by (intro gated_retain) (simp_all add: retain_all_nth)
  then show ?thesis by blast
next
  case False
  then have "gated gv a key [now] (bw, bodies) (bw', bodies) []"
    using assms by (intro gated_same) (simp_all add: retain_all_nth)
  then show ?thesis by blast
qed

lemma gated_step:
  assumes "a < length (bw_heap bw)"
  shows "\<exists>gevs. gated gv a key (List.map_filter traffic_time [ev]) (bw, bodies) (traffic_step gv ev (bw, bodies)) gevs"
proof (cases ev)
  case (Arrive quota_of req sent answered)
  then show ?thesis using gated_arrive [OF assms, of gv key bodies quota_of req sent answered]
    by (auto simp: map_filter_simps simp del: traffic_step.simps)
next
  case (BodyTurn now j)
  then show ?thesis using gated_turn [OF assms] by (simp add: map_filter_simps del: traffic_step.simps)
next
  case (CleanIp now)
  show ?thesis
  proof (cases "bw_unauthenticated bw")
    case (Some b)
    then show ?thesis using gated_cleanup [OF assms, of _ gv now "[b]"] CleanIp by (simp add: map_filter_simps)
  qed (use CleanIp assms in \<open>auto simp: map_filter_simps intro!: exI gated_same\<close>)
qed (auto simp: map_filter_simps pool_cleanup_def Let_def intro!: gated_cleanup [OF assms])

lemma gated_run:
  "a < length (bw_heap (fst st)) \<Longrightarrow> \<exists>gevs. gated gv a key (List.map_filter traffic_time evs) st (traffic_run gv evs st) gevs"
proof (induction evs arbitrary: st)
  case Nil
  then show ?case by (cases st) (auto simp: traffic_run_def map_filter_simps intro!: exI gated_same)
next
  case (Cons ev evs)
  obtain bw bodies where st: "st = (bw, bodies)" by (cases st)
  obtain g1 where g1: "gated gv a key (List.map_filter traffic_time [ev]) st (traffic_step gv ev st) g1"
    using gated_step Cons.prems st by fastforce
  then have "a < length (bw_heap (fst (traffic_step gv ev st)))" by (simp add: gated_def)
  from Cons.IH [OF this] obtain g2 where
    g2: "gated gv a key (List.map_filter traffic_time evs) (traffic_step gv ev st) (traffic_run gv evs (traffic_step gv ev st)) g2" by blast
  have "List.map_filter traffic_time [ev] @ List.map_filter traffic_time evs = List.map_filter traffic_time (ev # evs)"
    by (simp add: map_filter_simps split: option.split)
  with gated_trans [OF g1 g2] show ?case by (auto simp: traffic_run_def)
qed

section \<open>A limiter that keeps the contract\<close>

text \<open>The generic cell rate algorithm: each key remembers the instant by which its grants so far
  would have been spread out evenly.\<close>

type_synonym 'ip gcra = "governor_quota \<times> ('ip limit_key \<times> nat) list"

definition gcra_check :: "'ip limit_key \<Rightarrow> nat \<Rightarrow> 'ip gcra \<Rightarrow> nat option \<times> 'ip gcra" where
  "gcra_check key now g =
     (case g of (quota, tats) \<Rightarrow>
        let tat = (case map_of tats key of Some t \<Rightarrow> max now t | None \<Rightarrow> now);
            latest = now + (max_burst quota - 1) * replenish_ns quota
        in if tat \<le> latest then (None, quota, (key, tat + replenish_ns quota) # tats) else (Some (tat - latest), quota, tats))"

definition gcra_governor :: "('ip, 'ip gcra) governor" where
  "gcra_governor = \<lparr>gv_keyed = (\<lambda>quota. (quota, [])), gv_check_key = gcra_check,
     gv_retain_recent = (\<lambda>now (quota, tats). (quota, filter (\<lambda>(k, t). case map_of tats k of Some t \<Rightarrow> now < t | None \<Rightarrow> False) tats)),
     gv_is_empty = (\<lambda>(quota, tats). tats = [])\<rparr>"

lemma gcra_sel [simp]:
  "gv_keyed gcra_governor quota = (quota, [])" "gv_check_key gcra_governor = gcra_check"
  by (simp_all add: gcra_governor_def)

lemma map_of_filter_keys: "map_of (filter (\<lambda>(k, t). P k) xs) k = (if P k then map_of xs k else None)"
  by (induction xs) auto

definition tat_floor :: "nat \<Rightarrow> nat \<Rightarrow> 'ip limit_key \<Rightarrow> ('ip limit_key \<times> nat) list \<Rightarrow> bool" where
  "tat_floor m low key tats \<longleftrightarrow> low \<le> m \<or> (\<exists>t. map_of tats key = Some t \<and> low \<le> t)"

lemma gcra_spread:
  assumes "sorted (map gate_time evs)" and "\<forall>ev \<in> set evs. m \<le> gate_time ev" and "tat_floor m low key tats"
    and "c = length (filter (\<lambda>(now, k). k = key \<and> now \<le> final) (gate_grants gcra_governor evs (quota, tats)))" and "0 < c"
  shows "low + (c - 1) * replenish_ns quota \<le> final + (max_burst quota - 1) * replenish_ns quota"
  using assms
proof (induction evs arbitrary: m low tats c)
  case (Cons ev evs)
  have later: "sorted (map gate_time evs)" "\<forall>e \<in> set evs. gate_time ev \<le> gate_time e" "m \<le> gate_time ev"
    using Cons.prems(1,2) by auto
  show ?case
  proof (cases ev)
    case (GateRetain now)
    let ?tats = "filter (\<lambda>(k, t). case map_of tats k of Some t \<Rightarrow> now < t | None \<Rightarrow> False) tats"
    have "tat_floor now low key ?tats"
      using Cons.prems(3) later(3) GateRetain by (auto simp: tat_floor_def map_of_filter_keys)
    then show ?thesis using Cons.IH [OF later(1) _ _ _ Cons.prems(5), of now low ?tats] later(2) Cons.prems(4) GateRetain
      by (simp add: gcra_governor_def)
  next
    case (GateCheck now k)
    define tat where "tat = (case map_of tats k of Some t \<Rightarrow> max now t | None \<Rightarrow> now)"
    let ?latest = "now + (max_burst quota - 1) * replenish_ns quota"
    have floor: "tat_floor now low key tats" using Cons.prems(3) later(3) GateCheck by (auto simp: tat_floor_def)
    show ?thesis
    proof (cases "tat \<le> ?latest")
      case False
      then show ?thesis using Cons.IH [OF later(1) _ floor _ Cons.prems(5)] later(2) Cons.prems(4) GateCheck
        by (simp add: gcra_check_def tat_def Let_def)
    next
      case True
      let ?tats = "(k, tat + replenish_ns quota) # tats"
      let ?c = "length (filter (\<lambda>(now, k). k = key \<and> now \<le> final) (gate_grants gcra_governor evs (quota, ?tats)))"
      have c: "c = (if k = key \<and> now \<le> final then Suc ?c else ?c)"
        using True Cons.prems(4) GateCheck by (simp add: gcra_check_def tat_def Let_def)
      show ?thesis
      proof (cases "k = key")
        case False
        then have "tat_floor now low key ?tats" using floor by (simp add: tat_floor_def)
        then show ?thesis using Cons.IH [OF later(1) _ _ refl, of now low ?tats] later(2) c False Cons.prems(5) GateCheck by simp
      next
        case same: True
        have low: "low \<le> tat" using floor same by (auto simp: tat_def tat_floor_def split: option.splits)
        then have fl: "tat_floor now (low + replenish_ns quota) key ?tats" using same by (simp add: tat_floor_def)
        have step: "low + replenish_ns quota + (?c - 1) * replenish_ns quota \<le> final + (max_burst quota - 1) * replenish_ns quota" if "0 < ?c"
          using Cons.IH [OF later(1) _ fl refl that] later(2) GateCheck by simp
        consider "now \<le> final" "0 < ?c" | "now \<le> final" "?c = 0" | "\<not> now \<le> final" by blast
        then show ?thesis
        proof cases
          case 1
          then have "c - 1 = Suc (?c - 1)" using c same by simp
          then show ?thesis using step [OF 1(2)] by simp
        next
          case 2
          then show ?thesis using c same low \<open>tat \<le> ?latest\<close> by simp
        next
          case 3
          then show ?thesis using step c Cons.prems(5) by simp
        qed
      qed
    qed
  qed
qed simp

lemma gate_grants_times: "(now, k) \<in> set (gate_grants gv evs g) \<Longrightarrow> now \<in> set (map gate_time evs)"
proof (induction evs arbitrary: g)
  case (Cons ev evs)
  then show ?case
  proof (cases ev)
    case (GateCheck t key)
    then show ?thesis using Cons by (cases "gv_check_key gv key t g"; cases "fst (gv_check_key gv key t g)") auto
  qed (use Cons in auto)
qed simp

lemma length_filter_mono: "(\<And>x. P x \<Longrightarrow> Q x) \<Longrightarrow> length (filter P xs) \<le> length (filter Q xs)"
  by (induction xs) auto

lemma gcra_quota: "fst (gate_after gcra_governor evs (quota, tats)) = quota"
proof (induction evs arbitrary: tats)
  case (Cons ev evs)
  then show ?case
    by (cases ev) (auto simp: gcra_governor_def gcra_check_def Let_def split: option.splits)
qed simp

lemma cells_of_span:
  assumes "0 < (step :: nat)" and "0 < burst" and "(c - 1) * step \<le> window + (burst - 1) * step"
  shows "c \<le> burst + window div step"
proof -
  have "c - 1 = (c - 1) * step div step" using assms(1) by simp
  also have "\<dots> \<le> (window + (burst - 1) * step) div step" by (rule div_le_mono [OF assms(3)])
  also have "\<dots> = window div step + (burst - 1)" using assms(1) by simp
  finally show ?thesis using assms(2) by simp
qed

lemma gcra_ok: "governor_ok (gcra_governor :: ('ip, 'ip gcra) governor)"
proof (unfold governor_ok_def, intro allI impI)
  fix quota :: governor_quota and evs :: "'ip gate_event list" and key :: "'ip limit_key" and start window
  assume pos: "0 < replenish_ns quota" "0 < max_burst quota" and sorted: "sorted (map gate_time evs)"
  let ?early = "takeWhile (\<lambda>ev. gate_time ev < start) evs" and ?late = "dropWhile (\<lambda>ev. gate_time ev < start) evs"
  let ?g = "gate_after gcra_governor ?early (gv_keyed gcra_governor quota)"
  let ?in = "\<lambda>(now, k). k = key \<and> start \<le> now \<and> now \<le> start + window"
  let ?c = "length (filter (\<lambda>(now, k). k = key \<and> now \<le> start + window) (gate_grants gcra_governor ?late ?g))"
  have after: "start \<le> gate_time ev" if "ev \<in> set ?late" for ev
    using that sorted
  proof (induction evs)
    case (Cons x evs)
    then show ?case by (auto split: if_splits)
  qed simp
  have srt: "sorted (map gate_time ?late)"
    using sorted by (metis dropWhile_eq_drop drop_map sorted_wrt_drop)
  have "filter ?in (gate_grants gcra_governor ?early (gv_keyed gcra_governor quota)) = []"
  proof -
    have "now < start" if "(now, k) \<in> set (gate_grants gcra_governor ?early (gv_keyed gcra_governor quota))" for now k
      using gate_grants_times [OF that] by (auto dest: set_takeWhileD)
    then show ?thesis by (fastforce simp: filter_empty_conv)
  qed
  then have "filter ?in (gate_grants gcra_governor evs (gv_keyed gcra_governor quota)) = filter ?in (gate_grants gcra_governor ?late ?g)"
    using gate_grants_append [of gcra_governor ?early ?late] by simp
  also have "length (filter ?in (gate_grants gcra_governor ?late ?g)) \<le> ?c"
    by (rule length_filter_mono) auto
  also have "?c \<le> quota_cells quota window"
  proof (cases "?c = 0")
    case False
    obtain tats where "?g = (quota, tats)"
      using gcra_quota [of ?early quota "[]"] by (metis gcra_sel(1) prod.collapse)
    then have "start + (?c - 1) * replenish_ns quota \<le> start + window + (max_burst quota - 1) * replenish_ns quota"
      using gcra_spread [OF srt, of start start key tats ?c "start + window" quota] after False by (simp add: tat_floor_def)
    then have "(?c - 1) * replenish_ns quota \<le> window + (max_burst quota - 1) * replenish_ns quota" by simp
    then show ?thesis unfolding quota_cells_def by (rule cells_of_span [OF pos])
  qed simp
  finally show "length (filter ?in (gate_grants gcra_governor evs (gv_keyed gcra_governor quota))) \<le> quota_cells quota window" .
qed

section \<open>Examples\<close>

definition example_limit :: "nat path_limit" where
  "example_limit = \<lparr>pl_path = ''*'', pl_method = ''PUT'', pl_quota = \<lparr>rq_rate = 1, rq_time_unit = Minute\<rparr>, pl_key = IpKey,
     pl_burst = None, pl_whitelist = []\<rparr>"

definition example_limited :: "nat limited_request" where
  "example_limited = \<lparr>lr_method = ''PUT'', lr_uri_path = ''/a'', lr_tenant = None, lr_session = None, lr_header_ip = None,
     lr_client_addr = Some 7\<rparr>"

definition example_tuple :: "(nat, nat gcra) limit_tuple" where
  "example_tuple = \<lparr>lt_limit = example_limit, lt_limiter = (\<lparr>replenish_ns = 60000000000, max_burst = 1\<rparr>, [])\<rparr>"

definition example_rate :: bandwidth_quota where
  "example_rate = \<lparr>bq_rate = 1, bq_unit = Kilobyte, bq_time_unit = Second\<rparr>"

definition example_bandwidth :: "nat gcra bandwidth_state" where
  "example_bandwidth = \<lparr>bw_defaults = \<lparr>dq_rate_read = None, dq_rate_write = None, dq_rate_read_burst = None,
     dq_rate_write_burst = None, dq_unauthenticated_ip_rate_read = Some example_rate\<rparr>,
     bw_heap = [(\<lparr>replenish_ns = 1000000000, max_burst = 1\<rparr>, [])], bw_read = [], bw_write = [], bw_unauthenticated = Some 0\<rparr>"

definition example_traffic :: "nat traffic_event list" where
  "example_traffic = [Arrive (\<lambda>_. Ok None) example_limited [3000] [], BodyTurn 0 0, BodyTurn 1 0, BodyTurn 1000000000 0,
     BodyTurn 2000000000 0, BodyTurn 2000000000 0]"

text \<open>A signed-in user with a read rate of one kilobyte per second.\<close>

definition example_user_quota :: user_quota where
  "example_user_quota = \<lparr>uq_storage_quota_mb = Default, uq_rate_read = Value example_rate, uq_rate_write = Default,
     uq_rate_read_burst = None, uq_rate_write_burst = None, uq_allowed_write_paths = None\<rparr>"

definition example_download :: "nat traffic_event" where
  "example_download = Arrive (\<lambda>_. Ok (Some example_user_quota)) (example_limited\<lparr>lr_method := ''GET'',
     lr_tenant := Some \<lparr>rt_public_key = PublicKey ''u'', rt_storage_path = None\<rparr>,
     lr_session := Some (GrantAuthSession \<lparr>gs_user_key = PublicKey ''u'', gs_capabilities = [], gs_grant_id = [],
       gs_token_expires_at = 0, gs_token_hash = []\<rparr>)\<rparr>) [] [1024, 1024]"

text \<open>A download starts, sends a kilobyte and is paused; a minute later the cleanup runs and a
  second download starts.\<close>

definition example_paused :: "nat traffic_event list" where
  "example_paused = [example_download, BodyTurn 0 1, BodyTurn 0 1, CleanRead 60000000000, example_download]"

definition example_resumed :: "nat traffic_event list" where
  "example_resumed = [BodyTurn 61000000000 1, BodyTurn 61000000000 1, BodyTurn 61000000000 3, BodyTurn 61000000000 3]"

definition user_bytes :: "public_key \<Rightarrow> nat gcra bandwidth_state \<times> nat throttled_body list \<Rightarrow> nat" where
  "user_bytes pk st = sum_list (map tb_passed (filter (\<lambda>tb. tb_key tb = LimitUser pk) (snd st)))"

section \<open>Properties\<close>

text \<open>C18: No client gets more requests through than a limit allows.  Whatever requests arrive
  and whenever the cleanup tasks run, in any interval of time at most the burst of the limit
  plus one request per replenishment interval pass that match the limit under one key, unless
  the key is whitelisted.\<close>

theorem request_count_bound:
  assumes "governor_ok gv" and "from_path_limits gv limits = Ok ts" and "i < length ts"
    and "0 < rq_rate (pl_quota (lt_limit (ts ! i)))" and "pl_burst (lt_limit (ts ! i)) \<noteq> Some 0"
    and "path_limit_to_governor (lt_limit (ts ! i)) = Ok quota" and "\<not> is_whitelisted (lt_limit (ts ! i)) key"
    and "sorted (map limit_event_time evs)"
  shows "length (filter (\<lambda>(now, req, r). r = Ok () \<and> limit_is_match glob (lt_limit (ts ! i)) req \<and>
      extract_key (lt_limit (ts ! i)) req = Ok key \<and> start \<le> now \<and> now \<le> start + window) (limit_run glob gv evs ts))
    \<le> quota_cells quota window"
proof -
  have "limit_tuple_new gv (sort_key limit_window limits ! i) = Ok (ts ! i)"
    using assms(2,3) by (auto simp: from_path_limits_def try_map_ok_iff list_all2_conv_all_nth)
  from limit_tuple_new_ok [OF this] assms(6) have g: "lt_limiter (ts ! i) = gv_keyed gv quota" by auto
  have pos: "0 < replenish_ns quota" "0 < max_burst quota"
    using assms(4-6) by (auto simp: path_limit_to_governor_def request_count_to_governor_def Let_def and_then_ok_iff split: if_splits option.splits)
  obtain gevs where "subseq (map gate_time gevs) (map limit_event_time evs)"
    "subseq (map (\<lambda>(now, _). (now, key)) (filter (charged glob (lt_limit (ts ! i)) key) (limit_run glob gv evs ts)))
       (gate_grants gv gevs (gv_keyed gv quota))"
    using charged_are_granted [OF assms(3)] unfolding g by blast
  note bound = granted_bound [OF assms(1) pos assms(8) this, of start window]
  have "(\<lambda>(now, req, r). r = Ok () \<and> limit_is_match glob (lt_limit (ts ! i)) req \<and>
      extract_key (lt_limit (ts ! i)) req = Ok key \<and> start \<le> now \<and> now \<le> start + window) =
    (\<lambda>x. charged glob (lt_limit (ts ! i)) key x \<and> (case x of (now, _) \<Rightarrow> start \<le> now \<and> now \<le> start + window))"
    using assms(7) by (auto simp: fun_eq_iff charged_def)
  then show ?thesis using bound unfolding filter_filter by (simp only: conj_commute)
qed

theorem request_count_bound_witness:
  "length (filter (\<lambda>(now, req, r). r = Ok () \<and> limit_is_match (\<lambda>_ _. True) example_limit req \<and>
      extract_key example_limit req = Ok (LimitIp 7) \<and> 0 \<le> now \<and> now \<le> 0 + 60000000000)
      (limit_run (\<lambda>_ _. True) gcra_governor (map (\<lambda>n. LimitRequest n example_limited) [0, 1, 60000000000]) [example_tuple])) \<le> 2"
proof -
  have new: "from_path_limits gcra_governor [example_limit] = Ok [example_tuple]" by code_simp
  have "path_limit_to_governor example_limit = Ok \<lparr>replenish_ns = 60000000000, max_burst = 1\<rparr>" by code_simp
  moreover have "quota_cells \<lparr>replenish_ns = 60000000000, max_burst = 1\<rparr> 60000000000 = 2" by (simp add: quota_cells_def)
  ultimately show ?thesis
    using request_count_bound [OF gcra_ok new, of 0 _ "LimitIp 7" "map (\<lambda>n. LimitRequest n example_limited) [0, 1, 60000000000]"
        "\<lambda>_ _. True" 0 60000000000]
    by (simp add: example_tuple_def example_limit_def is_whitelisted_def del: limit_run.simps)
qed




end
