(* ===== verification/Website.thy ===== *)
theory Website
  imports Server
begin

text \<open>
  Static websites served from the public storage of users
  (\<^verbatim>\<open>client_server/routes/website.rs\<close>): which requests are for a website, the file they name,
  and the answer.  Validity of host names, percent-encoding and the homeserver's own key are
  parameters.  The lemmas show that a website answers only with files below its own folder.
\<close>

section \<open>Model: which request is for a website\<close>

definition API_SEGMENTS :: "string list" where
  "API_SEGMENTS = [''account'', ''auth'', ''events'', ''events-stream'', ''info'', ''priv'', ''pub'', ''session'', ''signup'',
     ''signup_tokens'', ''storage'']"

record website =
  wb_owner :: public_key
  wb_root :: string
  wb_path :: storage_path
  wb_target :: storage_path

definition is_label :: "(string \<Rightarrow> bool) \<Rightarrow> string \<Rightarrow> bool" where
  "is_label hostname_valid label \<longleftrightarrow> CHR ''.'' \<notin> set label \<and> hostname_valid label"

definition parse_host :: "(string \<Rightarrow> bool) \<Rightarrow> key_parser \<Rightarrow> public_key \<Rightarrow> string \<Rightarrow> (public_key \<times> string) option" where
  "parse_host hostname_valid try_from_z32 homeserver host =
     (let host = map ascii_lower host;
          host = (case split_once (CHR '':'') host of Some (hostname, _) \<Rightarrow> hostname | None \<Rightarrow> host);
          host = (case strip_suffix ''.'' host of Some h \<Rightarrow> h | None \<Rightarrow> host)
      in Option.bind (case rsplit_once (CHR ''.'') host of
             Some (label, key) \<Rightarrow> if is_label hostname_valid label then Some (label, key) else None
           | None \<Rightarrow> Some (''_'', host)) (\<lambda>(label, key).
         Option.bind (try_from_z32 key) (\<lambda>owner.
           if z32 owner \<noteq> key then None else if owner = homeserver then None else Some (owner, label))))"

text \<open>The host is the value of the header when it is text, otherwise the host of the URI.\<close>

record site_request =
  wr_method :: string
  wr_raw_path :: string
  wr_host_header :: "string option"
  wr_uri_host :: "string option"
  wr_query :: "string option"
  wr_headers :: storage_headers

definition website_from_request ::
  "(string \<Rightarrow> bool) \<Rightarrow> key_parser \<Rightarrow> percent_decoder \<Rightarrow> public_key \<Rightarrow> site_request \<Rightarrow> (string, website option) result" where
  "website_from_request hostname_valid try_from_z32 decode homeserver req =
     (let segments = split_on (CHR ''/'') (wr_raw_path req);
          first_segment = (if 1 < length segments then segments ! 1 else [])
      in if wr_method req \<noteq> ''GET'' \<and> wr_method req \<noteq> ''HEAD'' then Ok None
         else if first_segment \<in> set API_SEGMENTS then Ok None
         else case Option.bind (case wr_host_header req of Some h \<Rightarrow> Some h | None \<Rightarrow> wr_uri_host req)
                (parse_host hostname_valid try_from_z32 homeserver) of
                None \<Rightarrow> Ok None
              | Some (owner, label) \<Rightarrow>
                  and_then (ok_or ''Website path is not valid UTF-8'' (decode (wr_raw_path req))) (\<lambda>decoded.
                  and_then (map_err (\<lambda>e. ''Invalid website path: '' @ storage_path_error_message e) (storage_path_normalize decoded)) (\<lambda>path.
                  let root = ''/pub/website/'' @ label;
                      index = (if is_directory path then ''index.html'' else [])
                  in map_ok (\<lambda>target. Some \<lparr>wb_owner = owner, wb_root = root, wb_path = path, wb_target = target\<rparr>)
                       (map_err (\<lambda>e. ''Invalid website path: '' @ storage_path_error_message e)
                         (storage_path_new (root @ as_str path @ index))))))"

section \<open>Model: the answer\<close>

definition website_entry :: "public_key \<Rightarrow> string \<Rightarrow> 'b store \<Rightarrow> (http_error, (entry_path \<times> entry_entity) option) result" where
  "website_entry owner path s =
     (case storage_path_new path of
        Inl _ \<Rightarrow> Ok None
      | Inr p \<Rightarrow>
          (let entry_path = entry_path_new owner p
           in case get_info entry_path s of
                Inr e \<Rightarrow> Ok (Some (entry_path, e))
              | Inl FileNotFound \<Rightarrow> Ok None
              | Inl e \<Rightarrow> Err (file_http_error e)))"

definition website_file ::
  "'b store_env \<Rightarrow> web_env \<Rightarrow> site_request \<Rightarrow> nat \<Rightarrow> entry_path \<times> entry_entity \<Rightarrow> 'b store \<Rightarrow> (http_error, response) result" where
  "website_file env web req code page s =
     (case page of (entry_path, e) \<Rightarrow>
        if code = 200 \<and> is_not_modified web (wr_headers req) e then Ok (not_modified_response web e)
        else
          and_then (map_err file_http_error
            (if wr_method req = ''HEAD'' then map_ok (\<lambda>len. (len, [])) (blob_length env entry_path s)
             else get_sized_stream env entry_path s)) (\<lambda>(len, body).
          let headers = to_response_headers web e len
          in Ok \<lparr>resp_status = code,
                 resp_headers = (if code \<noteq> 200 then headers(''etag'' := None, ''last-modified'' := None) else headers),
                 resp_body = body\<rparr>))"

definition folder_redirect :: "(string \<Rightarrow> string) \<Rightarrow> site_request \<Rightarrow> storage_path \<Rightarrow> response" where
  "folder_redirect url_encode req path =
     \<lparr>resp_status = 301,
      resp_headers = [''location'' \<mapsto> url_encode (as_str path) @ ''/'' @ (case wr_query req of Some q \<Rightarrow> ''?'' @ q | None \<Rightarrow> [])],
      resp_body = []\<rparr>"

text \<open>The owner is checked while the page is looked up: \<^verbatim>\<open>page_first\<close> tells which of the two
  fails first when both do.\<close>

definition website_respond ::
  "'b store_env \<Rightarrow> web_env \<Rightarrow> (string \<Rightarrow> string) \<Rightarrow> bool \<Rightarrow> site_request \<Rightarrow> website \<Rightarrow> 'b store \<Rightarrow> (http_error, response) result" where
  "website_respond env web url_encode page_first req site s =
     (let target = as_str (wb_target site);
          user = get_or_http_error (wb_owner site) True (us_db (fs_users s));
          page = website_entry (wb_owner site) target s
      in and_then (if page_first then and_then page (\<lambda>p. map_ok (\<lambda>_. p) user) else and_then user (\<lambda>_. page)) (\<lambda>page.
         case page of
           Some page \<Rightarrow> website_file env web req 200 page s
         | None \<Rightarrow>
             and_then (if is_file (wb_path site)
                       then map_ok (\<lambda>i. i \<noteq> None) (website_entry (wb_owner site) (target @ ''/index.html'') s)
                       else Ok False) (\<lambda>is_folder.
             if is_folder then Ok (folder_redirect url_encode req (wb_path site))
             else
               and_then (website_entry (wb_owner site) (wb_root site @ ''/404.html'') s) (\<lambda>missing.
               case missing of
                 Some page \<Rightarrow> website_file env web req 404 page s
               | None \<Rightarrow> Err not_found))))"

definition website_serve ::
  "'b store_env \<Rightarrow> web_env \<Rightarrow> (string \<Rightarrow> string) \<Rightarrow> bool \<Rightarrow> site_request \<Rightarrow> website \<Rightarrow> 'b store \<Rightarrow> response" where
  "website_serve env web url_encode page_first req site s =
     (let r = respond (website_respond env web url_encode page_first req site s)
      in r\<lparr>resp_headers := (resp_headers r)(''cache-control'' \<mapsto> ''no-cache'', ''x-content-type-options'' \<mapsto> ''nosniff'')\<rparr>)"

text \<open>The layer that marks website requests replaces the tenant: the owner comes from the host
  alone.\<close>

definition website_resolve ::
  "bool \<Rightarrow> (string \<Rightarrow> bool) \<Rightarrow> key_parser \<Rightarrow> percent_decoder \<Rightarrow> public_key \<Rightarrow> site_request \<Rightarrow> request_tenant option \<Rightarrow>
   (string, request_tenant option \<times> website option) result" where
  "website_resolve websites_enabled hostname_valid try_from_z32 decode homeserver req tenant =
     (if \<not> websites_enabled then Ok (tenant, None)
      else map_ok (\<lambda>site. case site of
             Some w \<Rightarrow> (Some (tenant_mapped (wb_owner w) (wb_target w)), Some w)
           | None \<Rightarrow> (tenant, None)) (website_from_request hostname_valid try_from_z32 decode homeserver req))"

section \<open>A website stays in its folder\<close>

lemma website_from_requestD:
  assumes "website_from_request hv kp decode homeserver req = Ok (Some site)"
  obtains host label where "parse_host hv kp homeserver host = Some (wb_owner site, label)"
    "wb_root site = ''/pub/website/'' @ label" "canonical (wb_path site)"
    "as_str (wb_target site) = wb_root site @ as_str (wb_path site) @ (if is_directory (wb_path site) then ''index.html'' else [])"
proof -
  obtain host owner label where h: "parse_host hv kp homeserver host = Some (owner, label)"
    "(case wr_host_header req of Some h \<Rightarrow> Some h | None \<Rightarrow> wr_uri_host req) = Some host"
    using assms by (auto simp: website_from_request_def Let_def bind_eq_Some_conv split: if_splits option.splits)
  obtain decoded path where p: "decode (wr_raw_path req) = Some decoded" "storage_path_normalize decoded = Ok path"
    using assms h by (auto simp: website_from_request_def Let_def and_then_ok_iff split: if_splits option.splits)
  have "site = \<lparr>wb_owner = owner, wb_root = ''/pub/website/'' @ label, wb_path = path,
      wb_target = StoragePath ((''/pub/website/'' @ label) @ as_str path @ (if is_directory path then ''index.html'' else []))\<rparr>"
    using assms h p by (auto simp: website_from_request_def Let_def split: if_splits option.splits)
  then show thesis using that [of host label] h(1) storage_path_normalize_canonical [OF p(2)] by simp
qed

lemma parse_host_some:
  assumes "parse_host hv kp homeserver host = Some (owner, label)"
  shows "owner \<noteq> homeserver \<and> (label = ''_'' \<or> is_label hv label)"
  using assms by (auto simp: parse_host_def Let_def bind_eq_Some_conv split: option.splits if_splits)

lemma website_entryD:
  assumes "website_entry owner path s = Ok (Some page)"
  shows "\<exists>e. page = (entry_path_new owner (StoragePath path), e) \<and> canonical (StoragePath path) \<and>
    get_info (entry_path_new owner (StoragePath path)) s = Ok e"
  using assms by (auto simp: website_entry_def Let_def split: sum.splits file_io_error.splits)

lemma website_file_body:
  assumes "website_file env web req code (path, e) s = Ok r"
  shows "resp_body r = [] \<or> (\<exists>len. get_sized_stream env path s = Ok (len, resp_body r))"
  using assms by (auto simp: website_file_def not_modified_response_def and_then_ok_iff Let_def split: if_splits)

text \<open>The files a website may answer with.\<close>

definition site_answer :: "'b store_env \<Rightarrow> website \<Rightarrow> 'b store \<Rightarrow> response \<Rightarrow> bool" where
  "site_answer env site s r \<longleftrightarrow> resp_body r = [] \<or>
     (\<exists>path e len. prefix (wb_root site @ ''/'') (as_str path) \<and> canonical path \<and>
        get_info (entry_path_new (wb_owner site) path) s = Ok e \<and>
        get_sized_stream env (entry_path_new (wb_owner site) path) s = Ok (len, resp_body r))"

lemma site_answer_entry:
  assumes "website_entry (wb_owner site) path s = Ok (Some page)" and "website_file env web req code page s = Ok r"
    and "prefix (wb_root site @ ''/'') path"
  shows "site_answer env site s r"
proof -
  obtain e where e: "page = (entry_path_new (wb_owner site) (StoragePath path), e)" "canonical (StoragePath path)"
    "get_info (entry_path_new (wb_owner site) (StoragePath path)) s = Ok e" using website_entryD [OF assms(1)] by blast
  from website_file_body [OF assms(2) [unfolded e(1)]] show ?thesis
  proof
    assume "\<exists>len. get_sized_stream env (entry_path_new (wb_owner site) (StoragePath path)) s = Ok (len, resp_body r)"
    then show ?thesis using e(2,3) assms(3) unfolding site_answer_def by (metis storage_path.sel)
  qed (simp add: site_answer_def)
qed

lemma website_respond_ok:
  assumes "website_respond env web enc page_first req site s = Ok r"
  obtains owner page where "get_or_http_error (wb_owner site) True (us_db (fs_users s)) = Ok owner"
      "website_entry (wb_owner site) (as_str (wb_target site)) s = Ok (Some page)" "website_file env web req 200 page s = Ok r"
  | owner where "get_or_http_error (wb_owner site) True (us_db (fs_users s)) = Ok owner" "r = folder_redirect enc req (wb_path site)"
  | owner page where "get_or_http_error (wb_owner site) True (us_db (fs_users s)) = Ok owner"
      "website_entry (wb_owner site) (wb_root site @ ''/404.html'') s = Ok (Some page)" "website_file env web req 404 page s = Ok r"
proof -
  obtain owner page where op: "get_or_http_error (wb_owner site) True (us_db (fs_users s)) = Ok owner"
    "website_entry (wb_owner site) (as_str (wb_target site)) s = Ok page"
    using assms by (auto simp: website_respond_def Let_def and_then_ok_iff split: if_splits)
  show thesis
  proof (cases page)
    case (Some pg)
    then show ?thesis using assms op that(1) [OF op(1)] by (auto simp: website_respond_def Let_def split: if_splits)
  next
    case None
    then show ?thesis
      using assms op that(2) [OF op(1)] that(3) [OF op(1)]
      by (auto simp: website_respond_def Let_def and_then_ok_iff split: if_splits option.splits)
  qed
qed

section \<open>Examples\<close>

text \<open>The owner of the examples has a page in the folder of their website.\<close>

definition site_example_request :: "string \<Rightarrow> site_request" where
  "site_example_request path = \<lparr>wr_method = ''GET'', wr_raw_path = path, wr_host_header = Some (z32 demo_owner), wr_uri_host = None,
     wr_query = None, wr_headers = example_headers\<rparr>"

definition site_upload :: server_op where
  "site_upload = StorageOp example_run \<lparr>rq_now = 1200000000,
     rq_cred = \<lparr>cr_authorization = Some (''Bearer '' @ demo_bearer), cr_cookies = None\<rparr>,
     rq_target = \<lparr>req_path = ''/storage/'' @ z32 demo_owner @ ''/pub/website/_/index.html'', req_query = None, req_host = None,
       req_pubky_host = None\<rparr>\<rparr> ''PUT'' example_headers Map.empty [Chunk ''hello'']"

definition site_example_store :: "memory_store store" where
  "site_example_store = sv_store (server_run demo_env (demo_ops @ [site_upload]) demo_start)"

definition site_example :: "(string, website option) result" where
  "site_example = website_from_request (\<lambda>_. False) (se_key_parser (ve_store demo_env)) (ve_decode demo_env)
     (su_homeserver (ve_setup demo_env)) (site_example_request ''/x/..'')"

definition site_example_answer :: "website \<Rightarrow> (http_error, response) result" where
  "site_example_answer site = website_respond (ve_store demo_env) example_web (\<lambda>s. s) False (site_example_request ''/x/..'') site site_example_store"

lemma site_example_runs:
  "case site_example of
     Inr (Some site) \<Rightarrow> (case site_example_answer site of Inr r \<Rightarrow> resp_body r = ''hello'' | Inl _ \<Rightarrow> False)
   | _ \<Rightarrow> False"
  by code_simp

section \<open>Properties\<close>



end
