(* ===== verification/Admin_Server.thy ===== *)
theory Admin_Server
  imports Event_Routes
begin

text \<open>
  The admin server: the password layer (\<^verbatim>\<open>admin_server/auth_middleware.rs\<close>), the routes behind it
  (\<^verbatim>\<open>admin_server/routes\<close>) on the state of the homeserver, and the WebDAV endpoint with its basic
  authentication (\<^verbatim>\<open>admin_server/routes/dav_handler.rs\<close>).  Parsing of request bodies, base64, the
  random signup codes and the WebDAV handler itself are parameters.  The requests of both servers
  then run on one state; the lemmas show what an administrator's call may change, and that a
  disabled account keeps or loses its files and gains none.
\<close>

section \<open>Model: the password\<close>

text \<open>A header value that is not visible ASCII reads as the empty text.\<close>

datatype admin_auth = AdminAllowed | InvalidAdminPassword | MissingAdminPassword

definition admin_auth_check :: "string \<Rightarrow> string option option \<Rightarrow> admin_auth" where
  "admin_auth_check password header =
     (case header of
        Some value \<Rightarrow> if (case value of Some v \<Rightarrow> v | None \<Rightarrow> []) = password then AdminAllowed else InvalidAdminPassword
      | None \<Rightarrow> MissingAdminPassword)"

definition is_valid_authorization_header_str :: "(string \<Rightarrow> string option) \<Rightarrow> string \<Rightarrow> string \<Rightarrow> bool" where
  "is_valid_authorization_header_str base64_decode auth_header should_password =
     (case strip_prefix ''Basic '' auth_header of
        None \<Rightarrow> False
      | Some encoded \<Rightarrow>
          (case base64_decode encoded of
             None \<Rightarrow> False
           | Some decoded \<Rightarrow>
               valid_utf8 decoded \<and>
               (case split_once (CHR '':'') decoded of
                  None \<Rightarrow> False
                | Some (name, password) \<Rightarrow> name = ''admin'' \<and> password = should_password)))"

definition is_valid_authorization_header :: "(string \<Rightarrow> string option) \<Rightarrow> string option option \<Rightarrow> string \<Rightarrow> bool" where
  "is_valid_authorization_header base64_decode header should_password =
     (case header of
        Some (Some auth_header) \<Rightarrow> is_valid_authorization_header_str base64_decode auth_header should_password
      | _ \<Rightarrow> False)"

section \<open>Model: the routes\<close>

definition z32_pubkey :: "key_parser \<Rightarrow> string \<Rightarrow> (http_error, public_key) result" where
  "z32_pubkey try_from_z32 s =
     (if is_pubky_prefixed s then Err path_rejection else ok_or path_rejection (try_from_z32 s))"

record users_query =
  uq_limit :: "nat option"
  uq_cursor :: "public_key option"
  uq_state :: "user_list_state option"
  uq_sort_by :: "user_list_sort_by option"
  uq_reverse :: bool

definition users_list_query :: "users_query \<Rightarrow> user_list_query" where
  "users_list_query q =
     \<lparr>lq_state = (case uq_state q of Some s \<Rightarrow> s | None \<Rightarrow> AllUsers),
      lq_sort_by = (case uq_sort_by q of Some s \<Rightarrow> s | None \<Rightarrow> CreatedAt),
      lq_reverse = uq_reverse q, lq_limit = uq_limit q, lq_cursor = uq_cursor q\<rparr>"

record signup_tokens_query =
  tq_limit :: "nat option"
  tq_cursor :: "string option"
  tq_state :: "signup_code_list_state option"

definition tokens_list_query :: "signup_tokens_query \<Rightarrow> signup_code_list_query" where
  "tokens_list_query q =
     \<lparr>cq_state = (case tq_state q of Some s \<Rightarrow> s | None \<Rightarrow> AllCodes), cq_limit = tq_limit q, cq_cursor = tq_cursor q\<rparr>"

record signup_token_item =
  ti_token :: string
  ti_created_at :: int
  ti_used_at :: "int option"
  ti_used_by :: "string option"
  ti_quota :: user_quota

definition signup_token_item_of :: "(string \<Rightarrow> storage_path list option) \<Rightarrow> signup_code_entity \<Rightarrow> signup_token_item" where
  "signup_token_item_of from_json c =
     \<lparr>ti_token = sc_id c, ti_created_at = sc_created_at c, ti_used_at = sc_used_at c,
      ti_used_by = map_option z32 (sc_used_by c), ti_quota = signup_code_quota from_json c\<rparr>"

text \<open>The addresses the configuration publishes.  An IP address is the text it prints as.\<close>

record admin_net =
  an_public_ip :: string
  an_public_pubky_tls_port :: "nat option"
  an_pubky_listen_port :: nat
  an_icann_domain :: "string option"
  an_public_icann_http_port :: "nat option"
  an_icann_listen_port :: nat

definition pkarr_pubky_tls_address :: "admin_net \<Rightarrow> string option" where
  "pkarr_pubky_tls_address config =
     (let port = (case an_public_pubky_tls_port config of Some p \<Rightarrow> p | None \<Rightarrow> an_pubky_listen_port config)
      in if port = 0 then None else Some (an_public_ip config @ '':'' @ show_nat port))"

definition pkarr_icann_domain :: "admin_net \<Rightarrow> string option" where
  "pkarr_icann_domain config =
     Option.bind (an_icann_domain config) (\<lambda>domain.
       let port = (case an_public_icann_http_port config of Some p \<Rightarrow> p | None \<Rightarrow> an_icann_listen_port config)
       in if port = 0 then None else Some (domain @ '':'' @ show_nat port))"

record info_response =
  if_num_users :: nat
  if_num_disabled_users :: nat
  if_total_disk_used_mb :: nat
  if_num_signup_codes :: nat
  if_num_unused_signup_codes :: nat
  if_public_key :: string
  if_pkarr_pubky_address :: "string option"
  if_pkarr_icann_domain :: "string option"

text \<open>The configured quotas, and the two credentials' decoders.\<close>

record 'b admin_env =
  ae_server :: "'b server_env"
  ae_password :: string
  ae_base64 :: "string \<Rightarrow> string option"
  ae_default_quota_mb :: "nat option"
  ae_default_quotas :: default_quotas
  ae_net :: admin_net
  ae_dav :: "string \<Rightarrow> 'b store \<Rightarrow> response \<times> 'b store"

datatype admin_call =
    GenerateToken string
  | GenerateTokenWith string user_quota
  | ListSignupTokens signup_tokens_query
  | ListUsers users_query
  | GetUser string
  | DisableUser string
  | EnableUser string
  | GetUserQuota string
  | PatchUserQuota string user_quota_patch
  | DeleteEntry "db_run \<times> db_run" string
  | Info
  | AdminEvents "(string \<times> string) list" nat

datatype admin_answer =
    Done nat
  | TokenIssued string
  | TokenPage "signup_token_item list" "string option"
  | UserPage "user_item list" "string option"
  | OneUser user_item
  | Quotas user_quota_response
  | Overview info_response
  | EventsOpened stream_options

definition create_signup_code ::
  "(storage_path list \<Rightarrow> string) \<Rightarrow> int \<Rightarrow> string \<Rightarrow> user_quota \<Rightarrow> 'b server \<Rightarrow> (http_error, admin_answer) result \<times> 'b server" where
  "create_signup_code to_json now code_id limits sv =
     (case signup_code_create to_json now code_id limits (sv_codes sv) of
        Inl _ \<Rightarrow> (Err internal_server, sv)
      | Inr (code, t) \<Rightarrow> (Ok (TokenIssued (sc_id code)), sv\<lparr>sv_codes := t\<rparr>))"

definition put_users :: "user_table \<Rightarrow> 'b server \<Rightarrow> 'b server" where
  "put_users t sv = sv\<lparr>sv_store := (sv_store sv)\<lparr>fs_users := (fs_users (sv_store sv))\<lparr>us_db := t\<rparr>\<rparr>\<rparr>"

definition unprocessable :: "string \<Rightarrow> http_error" where
  "unprocessable message = new_with_message 422 message"

text \<open>The texts of quota errors are a parameter.\<close>

fun patch_http_error :: "(quota_error \<Rightarrow> string) \<Rightarrow> patch_error \<Rightarrow> http_error" where
  "patch_http_error msg (PatchHttp e) = e"
| "patch_http_error msg (PatchUnprocessable e) = unprocessable (msg e)"

definition generate_signup_token ::
  "'b admin_env \<Rightarrow> int \<Rightarrow> string \<Rightarrow> 'b server \<Rightarrow> (http_error, admin_answer) result \<times> 'b server" where
  "generate_signup_token env now code_id sv =
     create_signup_code (su_to_json (ve_setup (ae_server env))) now code_id default_user_quota sv"

definition generate_signup_token_with_limits ::
  "'b admin_env \<Rightarrow> (quota_error \<Rightarrow> string) \<Rightarrow> int \<Rightarrow> string \<Rightarrow> user_quota \<Rightarrow> 'b server \<Rightarrow> (http_error, admin_answer) result \<times> 'b server" where
  "generate_signup_token_with_limits env msg now code_id config sv =
     st_then (map_err (\<lambda>e. unprocessable (msg e)) (user_quota_validate config), sv) (\<lambda>_ sv.
       create_signup_code (su_to_json (ve_setup (ae_server env))) now code_id config sv)"

definition list_signup_tokens ::
  "'b admin_env \<Rightarrow> signup_tokens_query \<Rightarrow> 'b server \<Rightarrow> (http_error, admin_answer) result" where
  "list_signup_tokens env params sv =
     (case signup_code_list (tokens_list_query params) (sv_codes sv) of
        (items, next_cursor) \<Rightarrow> Ok (TokenPage (map (signup_token_item_of (su_from_json (ve_setup (ae_server env)))) items) next_cursor))"

definition list_users :: "'b admin_env \<Rightarrow> users_query \<Rightarrow> 'b server \<Rightarrow> (http_error, admin_answer) result" where
  "list_users env params sv =
     (case user_list (users_list_query params) (us_db (fs_users (sv_store sv))) of
        Inl RowNotFound \<Rightarrow> Err (bad_request ''Unknown cursor'')
      | Inl _ \<Rightarrow> Err internal_server
      | Inr (items, next_cursor) \<Rightarrow>
          Ok (UserPage (map (\<lambda>u. user_item_new (su_from_json (ve_setup (ae_server env))) u (ae_default_quota_mb env) (ae_default_quotas env)) items)
             (map_option z32 next_cursor)))"

definition get_user :: "'b admin_env \<Rightarrow> string \<Rightarrow> 'b server \<Rightarrow> (http_error, admin_answer) result" where
  "get_user env pubkey sv =
     and_then (z32_pubkey (se_key_parser (ve_store (ae_server env))) pubkey) (\<lambda>pk.
     and_then (get_or_http_error pk False (us_db (fs_users (sv_store sv)))) (\<lambda>user.
     Ok (OneUser (user_item_new (su_from_json (ve_setup (ae_server env))) user (ae_default_quota_mb env) (ae_default_quotas env)))))"

definition disable_user :: "'b admin_env \<Rightarrow> string \<Rightarrow> 'b server \<Rightarrow> (http_error, admin_answer) result \<times> 'b server" where
  "disable_user env pubkey sv =
     st_then (z32_pubkey (se_key_parser (ve_store (ae_server env))) pubkey, sv) (\<lambda>pk sv.
     st_then (set_disabled pk True (us_db (fs_users (sv_store sv))), sv) (\<lambda>t sv. (Ok (Done 200), put_users t sv)))"

definition enable_user :: "'b admin_env \<Rightarrow> string \<Rightarrow> 'b server \<Rightarrow> (http_error, admin_answer) result \<times> 'b server" where
  "enable_user env pubkey sv =
     st_then (z32_pubkey (se_key_parser (ve_store (ae_server env))) pubkey, sv) (\<lambda>pk sv.
     st_then (set_disabled pk False (us_db (fs_users (sv_store sv))), sv) (\<lambda>t sv. (Ok (Done 200), put_users t sv)))"

definition get_user_quota :: "'b admin_env \<Rightarrow> string \<Rightarrow> 'b server \<Rightarrow> (http_error, admin_answer) result" where
  "get_user_quota env pubkey sv =
     and_then (z32_pubkey (se_key_parser (ve_store (ae_server env))) pubkey) (\<lambda>pk.
     and_then (get_or_http_error pk False (us_db (fs_users (sv_store sv)))) (\<lambda>user.
     Ok (Quotas (user_quota_response_new (su_from_json (ve_setup (ae_server env))) user (ae_default_quota_mb env) (ae_default_quotas env)))))"

definition patch_user_quota ::
  "'b admin_env \<Rightarrow> (quota_error \<Rightarrow> string) \<Rightarrow> string \<Rightarrow> user_quota_patch \<Rightarrow> 'b server \<Rightarrow> (http_error, admin_answer) result \<times> 'b server" where
  "patch_user_quota env msg pubkey patch sv =
     st_then (z32_pubkey (se_key_parser (ve_store (ae_server env))) pubkey, sv) (\<lambda>pk sv.
     st_then (map_err (\<lambda>e. unprocessable (msg e)) (user_quota_patch_validate patch), sv) (\<lambda>_ sv.
     case patch_quota (su_to_json (ve_setup (ae_server env))) (su_from_json (ve_setup (ae_server env))) pk patch (fs_users (sv_store sv)) of
       Inl e \<Rightarrow> (Err (patch_http_error msg e), sv)
     | Inr (_, service) \<Rightarrow> (Ok (Done 200), sv\<lparr>sv_store := (sv_store sv)\<lparr>fs_users := service\<rparr>\<rparr>)))"

definition delete_entry_route ::
  "'b admin_env \<Rightarrow> int \<Rightarrow> db_run \<times> db_run \<Rightarrow> string \<Rightarrow> 'b server \<Rightarrow> (http_error, admin_answer) result \<times> 'b server" where
  "delete_entry_route env now dbs path sv =
     st_then (ok_or path_rejection (entry_path_pub_from_str (se_key_parser (ve_store (ae_server env))) path), sv) (\<lambda>entry_path sv.
     case admin_delete (ve_store (ae_server env)) now dbs None entry_path (sv_store sv) of
       (r, st) \<Rightarrow> (map_ok (\<lambda>_. Done 204) (map_err file_http_error r), sv\<lparr>sv_store := st\<rparr>))"

definition info :: "'b admin_env \<Rightarrow> 'b server \<Rightarrow> (http_error, admin_answer) result" where
  "info env sv =
     (let user_overview = user_get_overview (us_db (fs_users (sv_store sv)));
          (num_signup_codes, num_unused_signup_codes) = signup_code_get_overview (sv_codes sv)
      in Ok (Overview
        \<lparr>if_num_users = uo_count user_overview, if_num_disabled_users = uo_disabled_count user_overview,
         if_total_disk_used_mb = uo_total_used_mb user_overview, if_num_signup_codes = num_signup_codes,
         if_num_unused_signup_codes = num_unused_signup_codes, if_public_key = z32 (su_homeserver (ve_setup (ae_server env))),
         if_pkarr_pubky_address = pkarr_pubky_tls_address (ae_net env), if_pkarr_icann_domain = pkarr_icann_domain (ae_net env)\<rparr>))"

text \<open>The admin feed is opened on the tables alone; its run is modelled with the event routes.\<close>

definition admin_events :: "'b admin_env \<Rightarrow> (string \<times> string) list \<Rightarrow> nat \<Rightarrow> 'b server \<Rightarrow> (http_error, admin_answer) result" where
  "admin_events env pairs last_id sv =
     map_ok (\<lambda>(opts, _). EventsOpened opts)
       (admin_feed_stream (ae_server env) pairs last_id
          \<lparr>sw_server = sv, sw_flight = [], sw_rx = \<lparr>rv_buffer = [], rv_lagged = False, rv_closed = False\<rparr>\<rparr>)"

fun admin_handle ::
  "'b admin_env \<Rightarrow> (quota_error \<Rightarrow> string) \<Rightarrow> int \<Rightarrow> admin_call \<Rightarrow> 'b server \<Rightarrow> (http_error, admin_answer) result \<times> 'b server" where
  "admin_handle env msg now (GenerateToken code_id) sv = generate_signup_token env now code_id sv"
| "admin_handle env msg now (GenerateTokenWith code_id config) sv = generate_signup_token_with_limits env msg now code_id config sv"
| "admin_handle env msg now (ListSignupTokens params) sv = (list_signup_tokens env params sv, sv)"
| "admin_handle env msg now (ListUsers params) sv = (list_users env params sv, sv)"
| "admin_handle env msg now (GetUser pubkey) sv = (get_user env pubkey sv, sv)"
| "admin_handle env msg now (DisableUser pubkey) sv = disable_user env pubkey sv"
| "admin_handle env msg now (EnableUser pubkey) sv = enable_user env pubkey sv"
| "admin_handle env msg now (GetUserQuota pubkey) sv = (get_user_quota env pubkey sv, sv)"
| "admin_handle env msg now (PatchUserQuota pubkey patch) sv = patch_user_quota env msg pubkey patch sv"
| "admin_handle env msg now (DeleteEntry dbs path) sv = delete_entry_route env now dbs path sv"
| "admin_handle env msg now Info sv = (info env sv, sv)"
| "admin_handle env msg now (AdminEvents pairs last_id) sv = (admin_events env pairs last_id sv, sv)"

text \<open>The app: the public root, the routes behind the password, and the WebDAV endpoint.\<close>

datatype admin_request =
    AdminRoot
  | AdminRoute "string option option" admin_call
  | AdminDav "string option option" string

datatype admin_reply = RootText | Unauthorised string | Answered "(http_error, admin_answer) result" | DavAnswer response

definition admin_app ::
  "'b admin_env \<Rightarrow> (quota_error \<Rightarrow> string) \<Rightarrow> int \<Rightarrow> admin_request \<Rightarrow> 'b server \<Rightarrow> admin_reply \<times> 'b server" where
  "admin_app env msg now req sv =
     (case req of
        AdminRoot \<Rightarrow> (RootText, sv)
      | AdminRoute header call \<Rightarrow>
          (case admin_auth_check (ae_password env) header of
             AdminAllowed \<Rightarrow> (case admin_handle env msg now call sv of (r, sv) \<Rightarrow> (Answered r, sv))
           | InvalidAdminPassword \<Rightarrow> (Unauthorised ''Invalid admin password'', sv)
           | MissingAdminPassword \<Rightarrow> (Unauthorised ''Missing admin password'', sv))
      | AdminDav header body \<Rightarrow>
          if \<not> is_valid_authorization_header (ae_base64 env) header (ae_password env) then (Unauthorised ''Unauthorized'', sv)
          else (case ae_dav env body (sv_store sv) of (r, st) \<Rightarrow> (DavAnswer r, sv\<lparr>sv_store := st\<rparr>)))"

section \<open>Model: the two servers on one state\<close>

datatype home_op = ClientRequest server_op | AdminRequest int admin_request

fun home_step :: "'b admin_env \<Rightarrow> (quota_error \<Rightarrow> string) \<Rightarrow> home_op \<Rightarrow> 'b server \<Rightarrow> 'b server" where
  "home_step env msg (ClientRequest op) sv = server_step (ae_server env) op sv"
| "home_step env msg (AdminRequest now req) sv = snd (admin_app env msg now req sv)"

definition home_run :: "'b admin_env \<Rightarrow> (quota_error \<Rightarrow> string) \<Rightarrow> home_op list \<Rightarrow> 'b server \<Rightarrow> 'b server" where
  "home_run env msg ops sv = fold (home_step env msg) ops sv"

lemma home_run_simps [simp]:
  "home_run env msg [] sv = sv"
  "home_run env msg (op # ops) sv = home_run env msg ops (home_step env msg op sv)"
  by (simp_all add: home_run_def)

lemma home_run_append: "home_run env msg (ops @ ops') sv = home_run env msg ops' (home_run env msg ops sv)"
  by (simp add: home_run_def)

section \<open>What an admin call does\<close>

lemmas admin_route_defs = generate_signup_token_def generate_signup_token_with_limits_def disable_user_def enable_user_def
  patch_user_quota_def delete_entry_route_def

text \<open>A call changes nothing, runs one account operation, or deletes one public file.  The switch
  of an account is turned only by the two calls made for it.\<close>

definition switches :: "key_parser \<Rightarrow> admin_call \<Rightarrow> public_key \<Rightarrow> bool \<Rightarrow> bool" where
  "switches parser call pk d \<longleftrightarrow> (case call of
     DisableUser key \<Rightarrow> d \<and> z32_pubkey parser key = Ok pk
   | EnableUser key \<Rightarrow> \<not> d \<and> z32_pubkey parser key = Ok pk
   | _ \<Rightarrow> False)"

lemma create_code_step:
  "snd (create_signup_code (su_to_json (ve_setup env)) now code_id limits sv) = server_step env (AccountOp now (CreateCode code_id limits)) sv"
  by (auto simp: create_signup_code_def put_accounts_def accounts_of_def or_unchanged_def split: sum.splits)

lemma switch_step:
  "snd (st_then (z32_pubkey parser key, sv) (\<lambda>pk sv.
       st_then (set_disabled pk d (us_db (fs_users (sv_store sv))), sv) (\<lambda>t sv. (Ok (Done 200), put_users t sv)))) = sv \<or>
   (\<exists>pk. z32_pubkey parser key = Ok pk \<and>
     snd (st_then (z32_pubkey parser key, sv) (\<lambda>pk sv.
       st_then (set_disabled pk d (us_db (fs_users (sv_store sv))), sv) (\<lambda>t sv. (Ok (Done 200), put_users t sv)))) =
     server_step env (AccountOp now (account_op.SetDisabled pk d)) sv)"
  by (auto simp: st_then_def put_users_def put_accounts_def accounts_of_def or_unchanged_def split: sum.splits)

lemma patch_step:
  "snd (admin_handle env msg now (PatchUserQuota key patch) sv) = sv \<or>
   (\<exists>pk. snd (admin_handle env msg now (PatchUserQuota key patch) sv) =
     server_step (ae_server env) (AccountOp now (account_op.PatchQuota pk patch)) sv)"
proof (cases "z32_pubkey (se_key_parser (ve_store (ae_server env))) key")
  case (Inr pk)
  show ?thesis
  proof (cases "user_quota_patch_validate patch")
    case valid: (Inr x)
    have "snd (admin_handle env msg now (PatchUserQuota key patch) sv) =
        server_step (ae_server env) (AccountOp now (account_op.PatchQuota pk patch)) sv"
      using Inr valid by (auto simp: admin_route_defs put_accounts_def accounts_of_def or_unchanged_def split: sum.splits)
    then show ?thesis by blast
  qed (simp add: admin_route_defs Inr)
qed (simp add: admin_route_defs)

lemma admin_handle_cases:
  obtains (none) "snd (admin_handle env msg now call sv) = sv"
  | (account) aop where "snd (admin_handle env msg now call sv) = server_step (ae_server env) (AccountOp now aop) sv"
      "\<And>pk d. aop = account_op.SetDisabled pk d \<Longrightarrow> switches (se_key_parser (ve_store (ae_server env))) call pk d"
  | (delete) dbs key path r st where "call = DeleteEntry dbs key"
      "entry_path_pub_from_str (se_key_parser (ve_store (ae_server env))) key = Some path"
      "admin_delete (ve_store (ae_server env)) now dbs None path (sv_store sv) = (r, st)"
      "snd (admin_handle env msg now call sv) = sv\<lparr>sv_store := st\<rparr>"
proof (cases call)
  case (GenerateToken code_id)
  show thesis
    by (rule account [of "CreateCode code_id default_user_quota"]) (simp_all add: admin_route_defs GenerateToken create_code_step del: server_step.simps)
next
  case (GenerateTokenWith code_id config)
  show thesis
  proof (cases "user_quota_validate config")
    case (Inr x)
    show thesis
      by (rule account [of "CreateCode code_id config"]) (simp_all add: admin_route_defs GenerateTokenWith Inr create_code_step del: server_step.simps)
  qed (use none GenerateTokenWith in \<open>simp add: admin_route_defs\<close>)
next
  case (DisableUser key)
  then show thesis
    using switch_step [of "se_key_parser (ve_store (ae_server env))" key sv True "ae_server env" now] none account
    by (auto simp: admin_route_defs switches_def simp del: server_step.simps)
next
  case (EnableUser key)
  then show thesis
    using switch_step [of "se_key_parser (ve_store (ae_server env))" key sv False "ae_server env" now] none account
    by (auto simp: admin_route_defs switches_def simp del: server_step.simps)
next
  case (PatchUserQuota key patch)
  then show thesis
    using patch_step [of env msg now key patch sv] none account by (auto simp del: server_step.simps admin_handle.simps)
next
  case (DeleteEntry dbs key)
  show thesis
  proof (cases "entry_path_pub_from_str (se_key_parser (ve_store (ae_server env))) key")
    case (Some path)
    obtain r st where d: "admin_delete (ve_store (ae_server env)) now dbs None path (sv_store sv) = (r, st)" by (metis prod.exhaust)
    show thesis by (rule delete [OF DeleteEntry Some d]) (simp add: admin_route_defs DeleteEntry Some d)
  qed (use none DeleteEntry in \<open>simp add: admin_route_defs\<close>)
qed (use none in simp_all)

section \<open>The invariant under both servers\<close>

text \<open>The text of a deleted path is UTF-8, as every text is; the WebDAV handler is not part of
  these runs.\<close>

definition admin_text :: "admin_request \<Rightarrow> bool" where
  "admin_text req \<longleftrightarrow> (case req of
     AdminRoute header (DeleteEntry dbs key) \<Rightarrow> valid_utf8 key
   | AdminDav header body \<Rightarrow> False
   | _ \<Rightarrow> True)"

fun home_ok :: "home_op \<Rightarrow> bool" where
  "home_ok (ClientRequest op) = True"
| "home_ok (AdminRequest now req) = admin_text req"

fun home_bytes :: "home_op \<Rightarrow> nat" where
  "home_bytes (ClientRequest op) = op_bytes op"
| "home_bytes (AdminRequest now req) = 0"

fun home_presented :: "home_op \<Rightarrow> (int \<times> string) list" where
  "home_presented (ClientRequest op) = presented op"
| "home_presented (AdminRequest now req) = []"

lemma deleted_path_wf:
  assumes env: "server_env_wf env" and key: "entry_path_pub_from_str (se_key_parser (ve_store env)) key = Some path" and "valid_utf8 key"
  shows "path_wf path" and "parse_opendal (se_key_parser (ve_store env)) (ep_key path) = Ok path"
proof -
  have e: "entry_path_from_str (se_key_parser (ve_store env)) key = Ok path"
    using key by (auto simp: entry_path_pub_from_str_def split: sum.splits if_splits)
  note ok = entry_path_from_str_ok [OF e]
  have keys: "keys_print (se_key_parser (ve_store env))" using env by (simp add: server_env_wf_def)
  obtain k where k: "se_key_parser (ve_store env) k = Some (ep_pubkey path)" "key = k @ as_str (ep_path path)" using ok(3) by blast
  obtain rest where "as_str (ep_path path) = CHR ''/'' # rest" using canonical_starts_slash [OF ok(1)] by blast
  then have "valid_utf8 (as_str (ep_path path))"
    using assms(3) k(2) valid_utf8_before_ascii [of k "CHR ''/''" rest] valid_utf8_append [of k "as_str (ep_path path)"] by simp
  then show "path_wf path" using ok by (simp add: path_wf_def)
  have "length (z32 (ep_pubkey path)) = 52" "CHR ''/'' \<notin> set (z32 (ep_pubkey path))"
    "se_key_parser (ve_store env) (z32 (ep_pubkey path)) = Some (ep_pubkey path)"
    using keys k(1) unfolding keys_print_def by blast+
  from entry_key_parses [of "ep_pubkey path" "se_key_parser (ve_store env)" "ep_path path", OF this ok(1)] ok(2) show "parse_opendal (se_key_parser (ve_store env)) (ep_key path) = Ok path"
    by (simp add: parse_opendal_def)
qed

lemma home_step_invar:
  assumes inv: "server_invar (ae_server env) tokens volume sv" and env: "server_env_wf (ae_server env)"
    and ok: "home_ok op" and small: "volume + home_bytes op < 2 ^ 63"
  shows "server_invar (ae_server env) (home_presented op @ tokens) (volume + home_bytes op) (home_step env msg op sv)"
proof (cases op)
  case (ClientRequest cop)
  then show ?thesis using server_invar_step [OF inv env, of cop] small by simp
next
  case (AdminRequest now req)
  have "server_invar (ae_server env) tokens volume (snd (admin_handle env msg now call sv))" if "req = AdminRoute header call" for header call
  proof (cases rule: admin_handle_cases [of env msg now call sv])
    case (account aop)
    then show ?thesis using server_invar_step [OF inv env, of "AccountOp now aop"] small by (simp add: op_bytes_def presented_def)
  next
    case (delete dbs key path r st)
    have "valid_utf8 key" using ok AdminRequest that delete(1) by (simp add: admin_text_def)
    note wf = deleted_path_wf [OF env delete(2) this]
    have "keeps (ve_store (ae_server env)) volume volume (sv_store sv) st"
      using inv small by (intro delete_with_keeps [OF _ wf(1) _ wf(2) delete(3) [unfolded admin_delete_def]]) (simp_all add: server_invar_def)
    from server_invar_store [OF inv env this] show ?thesis by (simp add: delete(4))
  qed (use inv in simp)
  then show ?thesis using AdminRequest inv ok
    by (cases req) (auto simp: admin_app_def admin_text_def case_prod_beta split: admin_auth.splits)
qed

lemma home_run_invar:
  assumes "server_invar (ae_server env) tokens volume sv" and env: "server_env_wf (ae_server env)"
    and "list_all home_ok ops" and "volume + sum_list (map home_bytes ops) < 2 ^ 63"
  shows "\<exists>tokens'. server_invar (ae_server env) tokens' (volume + sum_list (map home_bytes ops)) (home_run env msg ops sv)"
  using assms(1,3,4)
proof (induction ops arbitrary: tokens volume sv)
  case (Cons op ops)
  have "server_invar (ae_server env) (home_presented op @ tokens) (volume + home_bytes op) (home_step env msg op sv)"
    using Cons.prems by (intro home_step_invar env) simp_all
  from Cons.IH [OF this] Cons.prems(2,3) show ?case by (simp add: add.assoc)
qed auto

section \<open>A disabled account\<close>

definition frozen :: "public_key \<Rightarrow> int \<Rightarrow> 'b server \<Rightarrow> bool" where
  "frozen pk i sv \<longleftrightarrow> (\<exists>u. user_get pk (us_db (fs_users (sv_store sv))) = Ok u \<and> ue_id u = i \<and> ue_disabled u)"

definition only_removed :: "int \<Rightarrow> 'b server \<Rightarrow> 'b server \<Rightarrow> bool" where
  "only_removed i sv sv' \<longleftrightarrow> (\<forall>p. files_of (tables_of (sv_store sv')) (i, p) \<in> {None, files_of (tables_of (sv_store sv)) (i, p)})"

lemma frozen_kept:
  "frozen pk i sv \<Longrightarrow> flags_kept (us_db (fs_users (sv_store sv))) (us_db (fs_users (sv_store sv'))) \<Longrightarrow> frozen pk i sv'"
  unfolding frozen_def flags_kept_def by metis

lemma only_removed_trans: "only_removed i sv sv' \<Longrightarrow> only_removed i sv' sv'' \<Longrightarrow> only_removed i sv sv''"
  unfolding only_removed_def by (metis insert_iff singletonD)

lemma only_removed_same: "files_of (tables_of (sv_store sv')) = files_of (tables_of (sv_store sv)) \<Longrightarrow> only_removed i sv sv'"
  by (simp add: only_removed_def)

text \<open>The requests of clients leave every account switched as it is.\<close>

lemma cookie_flags:
  assumes "signup_invar fj (ck_accounts s)"
  shows "flags_kept (ck_users s) (ck_users (snd (cookie_signup env tj fj mode clock secret body token s)))"
    and "ck_accounts (snd (cookie_signin env clock secret body s)) = ck_accounts s"
    and "ck_accounts (cookie_signout auth s) = ck_accounts s"
proof -
  have create: "ck_accounts (snd (cookie_create_session now secret user t u)) = ck_accounts u" for now user t u
    by (auto simp: cookie_create_session_def split: sum.splits)
  show "flags_kept (ck_users s) (ck_users (snd (cookie_signup env tj fj mode clock secret body token s)))"
    using create_new_user_flags [OF assms] by (auto simp: cookie_signup_def create split: prod.splits sum.splits)
  show "ck_accounts (snd (cookie_signin env clock secret body s)) = ck_accounts s"
    by (auto simp: cookie_signin_def create split: prod.splits sum.splits sql_error.splits)
  show "ck_accounts (cookie_signout auth s) = ck_accounts s"
    by (auto simp: cookie_signout_def split: option.splits auth_session.splits)
qed

lemma st_then_accounts:
  "gt_accounts (snd r) = a \<Longrightarrow> (\<And>x s. gt_accounts s = a \<Longrightarrow> gt_accounts (snd (f x s)) = a) \<Longrightarrow> gt_accounts (snd (st_then r f)) = a"
  by (auto simp: st_then_def split: prod.splits sum.splits)

lemma nonce_accounts [simp]: "gt_accounts (snd (check_nonce_replay now pop s)) = gt_accounts s"
  by (simp add: check_nonce_replay_def case_prod_beta Let_def)

lemma revoke_accounts [simp]: "gt_accounts (revoke_grant now gid s) = gt_accounts s"
  by (simp add: revoke_grant_def)

lemma grant_accounts:
  shows "gt_accounts (snd (create_grant_session env hs now bearer g p s)) = gt_accounts s"
    and "gt_accounts (snd (signout_with_proof env hs now g p s)) = gt_accounts s"
    and "gt_accounts (snd (revoke_user_grant now gid auth s)) = gt_accounts s"
proof -
  have mint: "gt_accounts (snd (mint_session env hs now bearer claims t)) = gt_accounts t" for claims t
    by (auto simp: mint_session_def Let_def split: sum.splits)
  show "gt_accounts (snd (create_grant_session env hs now bearer g p s)) = gt_accounts s"
    unfolding create_grant_session_def verify_grant_and_pop_def by (intro st_then_accounts) (simp_all add: mint store_grant_def)
  show "gt_accounts (snd (signout_with_proof env hs now g p s)) = gt_accounts s"
    unfolding signout_with_proof_def by (intro st_then_accounts) simp_all
  show "gt_accounts (snd (revoke_user_grant now gid auth s)) = gt_accounts s"
    unfolding revoke_user_grant_def by (intro st_then_accounts) simp_all
qed

lemma grant_signup_flags:
  assumes "signup_invar fj (gt_accounts s)"
  shows "flags_kept (gt_users s) (gt_users (snd (signup_grant_account env hs tj fj mode now g p token s)))"
proof -
  obtain r t where v: "verify_signup_grant_and_pop env hs now g p s = (r, t)" by fastforce
  have "gt_accounts (snd (verify_signup_grant_and_pop env hs now g p s)) = gt_accounts s"
    unfolding verify_signup_grant_and_pop_def by (intro st_then_accounts) simp_all
  then have t: "gt_accounts t = gt_accounts s" using v by simp
  show ?thesis
    using create_new_user_flags [OF assms] by (cases r) (auto simp: signup_grant_account_def v t split: sum.splits prod.splits)
qed

lemma server_step_flags:
  assumes inv: "server_invar env tokens volume sv" and env: "server_env_wf env" and small: "volume + op_bytes op < 2 ^ 63"
    and other: "\<And>now pk d. op \<noteq> AccountOp now (account_op.SetDisabled pk d)"
  shows "flags_kept (us_db (fs_users (sv_store sv))) (us_db (fs_users (sv_store (server_step env op sv))))"
proof -
  have sg: "signup_invar (su_from_json (ve_setup env)) (accounts_of sv)" using inv by (simp add: server_invar_def grant_invar_def)
  then have views: "signup_invar (su_from_json (ve_setup env)) (ck_accounts (cookie_view sv))"
    "signup_invar (su_from_json (ve_setup env)) (gt_accounts (grant_view sv))" by simp_all
  show ?thesis
  proof (cases op)
    case (StorageOp run rq m headers params body)
    from env show ?thesis
    proof (cases rule: serve_storage_cases [where run = run and rq = rq and m = m and headers = headers and params = params and body = body and sv = sv])
      case none
      then show ?thesis by (simp add: StorageOp)
    next
      case (routed tenant path answer st)
      have "keeps (ve_store env) volume (volume + body_volume body) (sv_store sv) st"
        using storage_route_keeps [where req = "\<lparr>sr_method = m, sr_uri_path = req_path (rq_target rq),
         sr_session = request_session env rq (Some tenant) sv, sr_path = path, sr_headers = headers, sr_params = params,
         sr_body = body\<rparr>" and web = "ve_web env" and run = run and env = "ve_store env" and volume = volume and s = "sv_store sv"]
          inv env routed(3,4,5) small StorageOp by (simp add: server_invar_def server_env_wf_def op_bytes_def)
      then show ?thesis using inv routed(6) StorageOp by (simp add: keeps_def server_invar_def)
    qed
  next
    case (AccountOp now aop)
    then show ?thesis using account_step_flags [OF sg, of aop] other by simp
  next
    case (CookieSignupOp clock secret host token body)
    then show ?thesis using cookie_flags(1) [OF views(1)]
      by (cases "parse_signup_token (ve_code_decode env) token") (simp_all add: cookie_signup_route_def signup_of_def case_prod_beta)
  next
    case (GrantSignupOp now token req)
    then show ?thesis using grant_signup_flags [OF views(2)]
      by (cases "parse_signup_token (ve_code_decode env) token") (simp_all add: grant_signup_route_def signup_of_def case_prod_beta)
  qed (auto simp: with_tenant_def cookie_signin_route_def cookie_signout_route_def create_grant_session_route_def grant_signout_route_def
      signout_grant_session_def revoke_grant_route_def st_then_def case_prod_beta cookie_flags(2,3) [OF views(1)] grant_accounts
      split: sum.splits option.splits auth_session.splits)
qed

lemma server_step_removes:
  assumes inv: "server_invar env tokens volume sv" and env: "server_env_wf env" and small: "volume + op_bytes op < 2 ^ 63"
    and frozen: "frozen pk i sv"
  shows "only_removed i sv (server_step env op sv)"
proof (cases "\<exists>run rq m headers params body. op = StorageOp run rq m headers params body")
  case False
  then show ?thesis using other_ops_keep_files [of op env sv] by (intro only_removed_same) metis
next
  case True
  then obtain run rq m headers params body where op: "op = StorageOp run rq m headers params body" by blast
  obtain u where u: "user_get pk (us_db (fs_users (sv_store sv))) = Ok u" "ue_id u = i" "ue_disabled u"
    using frozen by (auto simp: frozen_def)
  have users: "user_invar (us_db (fs_users (sv_store sv)))" using inv by (simp add: server_invar_def store_invar_def tables_invar_def)
  have hash: "\<forall>c. length (cn_hash (se_content (ve_store env)) c) = 32" using env by (simp add: server_env_wf_def)
  have store: "store_invar volume (sv_store sv)" and fits: "volume + body_volume body < 2 ^ 63"
    using inv small op by (simp_all add: server_invar_def op_bytes_def)
  from env show ?thesis
  proof (cases rule: serve_storage_cases [where run = run and rq = rq and m = m and headers = headers and params = params and body = body and sv = sv])
    case none
    then show ?thesis by (simp add: op only_removed_def)
  next
    case (routed tenant path answer st)
    have "files_of (tables_of st) (i, p) = None" if diff: "files_of (tables_of st) (i, p) \<noteq> files_of (tables_of (sv_store sv)) (i, p)" for p
    proof -
      obtain owner where o: "m \<in> {''PUT'', ''DELETE''}" "user_get (ep_pubkey path) (us_db (fs_users (sv_store sv))) = Ok owner"
        "m = ''PUT'' \<longrightarrow> \<not> ue_disabled owner" "m = ''DELETE'' \<longrightarrow> files_of (tables_of st) (i, p) = None" "i = ue_id owner"
        using storage_route_alone [where volume = volume, OF store _ _ _ _ routed(5) diff] hash routed(3,4) fits by auto
      have "Some owner = Some u" by (rule trans [OF user_row_by_id [OF users o(2), symmetric, folded o(5)] user_row_by_id [OF users u(1), unfolded u(2)]])
      then have "owner = u" by (rule option.inject [THEN iffD1])
      with o(1,3,4) u(3) show ?thesis by auto
    qed
    then show ?thesis using routed(6) by (auto simp: only_removed_def op)
  qed
qed

lemma server_step_frozen:
  assumes inv: "server_invar env tokens volume sv" and env: "server_env_wf env" and small: "volume + op_bytes op < 2 ^ 63"
    and frozen: "frozen pk i sv" and other: "\<And>now. op \<noteq> AccountOp now (account_op.SetDisabled pk False)"
  shows "frozen pk i (server_step env op sv)"
proof (cases "\<exists>now q d. op = AccountOp now (account_op.SetDisabled q d)")
  case True
  then obtain now q d where op: "op = AccountOp now (account_op.SetDisabled q d)" by blast
  have "user_invar (us_db (fs_users (sv_store sv)))" using inv by (simp add: server_invar_def store_invar_def tables_invar_def)
  from set_disabled_ok [OF this, of q d] frozen other op show ?thesis
    by (cases "set_disabled q d (us_db (fs_users (sv_store sv)))") (auto simp: frozen_def or_unchanged_def)
next
  case False
  then show ?thesis using frozen_kept [OF frozen server_step_flags [OF inv env small]] by blast
qed

text \<open>A request that may switch the account on.\<close>

definition enables :: "key_parser \<Rightarrow> public_key \<Rightarrow> home_op \<Rightarrow> bool" where
  "enables parser pk op \<longleftrightarrow> (case op of
     ClientRequest (AccountOp now (account_op.SetDisabled q d)) \<Rightarrow> q = pk \<and> \<not> d
   | AdminRequest now (AdminRoute header call) \<Rightarrow> switches parser call pk False
   | _ \<Rightarrow> False)"

lemma admin_delete_removes:
  assumes inv: "server_invar env tokens volume sv" and env: "server_env_wf env" and small: "volume < 2 ^ 63"
    and path: "entry_path_pub_from_str (se_key_parser (ve_store env)) key = Some path" "valid_utf8 key"
    and del: "admin_delete (ve_store env) now dbs None path (sv_store sv) = (r, st)" and frozen: "frozen pk i sv"
  shows "frozen pk i (sv\<lparr>sv_store := st\<rparr>)" and "only_removed j sv (sv\<lparr>sv_store := st\<rparr>)"
proof -
  note wf = deleted_path_wf [OF env path]
  have store: "store_invar volume (sv_store sv)" using inv by (simp add: server_invar_def)
  note del = del [unfolded admin_delete_def]
  have "keeps (ve_store env) volume volume (sv_store sv) st" by (rule delete_with_keeps [OF store wf(1) small wf(2) del])
  then show "frozen pk i (sv\<lparr>sv_store := st\<rparr>)" using store by (intro frozen_kept [OF frozen]) (simp add: keeps_def)
  show "only_removed j sv (sv\<lparr>sv_store := st\<rparr>)"
    using delete_with_changes [OF store wf(1) small wf(2) del] by (auto simp: only_removed_def)
qed

lemma home_step_frozen:
  assumes inv: "server_invar (ae_server env) tokens volume sv" and env: "server_env_wf (ae_server env)"
    and ok: "home_ok op" and small: "volume + home_bytes op < 2 ^ 63" and frozen: "frozen pk i sv"
    and other: "\<not> enables (se_key_parser (ve_store (ae_server env))) pk op"
  shows "frozen pk i (home_step env msg op sv) \<and> only_removed i sv (home_step env msg op sv)"
proof (cases op)
  case (ClientRequest cop)
  then show ?thesis using server_step_removes [OF inv env _ frozen, of cop] server_step_frozen [OF inv env _ frozen, of cop] small other
    by (simp add: enables_def) force
next
  case (AdminRequest now req)
  have same: "frozen pk i sv \<and> only_removed i sv sv" using frozen by (simp add: only_removed_def)
  have "frozen pk i (snd (admin_handle env msg now call sv)) \<and> only_removed i sv (snd (admin_handle env msg now call sv))"
    if "req = AdminRoute header call" for header call
  proof (cases rule: admin_handle_cases [of env msg now call sv])
    case (account aop)
    have "aop \<noteq> account_op.SetDisabled pk False" using account(2) other AdminRequest that by (auto simp: enables_def)
    then show ?thesis
      using server_step_removes [OF inv env _ frozen, of "AccountOp now aop"] server_step_frozen [OF inv env _ frozen, of "AccountOp now aop"]
        small account(1) by (simp add: op_bytes_def)
  next
    case (delete dbs key path r st)
    have "valid_utf8 key" using ok AdminRequest that delete(1) by (simp add: admin_text_def)
    from admin_delete_removes [OF inv env _ delete(2) this delete(3) frozen] small show ?thesis by (simp add: delete(4))
  qed (use same in simp)
  then show ?thesis using AdminRequest same ok
    by (cases req) (auto simp: admin_app_def admin_text_def case_prod_beta split: admin_auth.splits)
qed

lemma home_run_frozen:
  assumes "server_invar (ae_server env) tokens volume sv" and env: "server_env_wf (ae_server env)"
    and "list_all home_ok ops" and "volume + sum_list (map home_bytes ops) < 2 ^ 63" and "frozen pk i sv"
    and "\<forall>op \<in> set ops. \<not> enables (se_key_parser (ve_store (ae_server env))) pk op"
  shows "frozen pk i (home_run env msg ops sv) \<and> only_removed i sv (home_run env msg ops sv)"
  using assms(1,3-)
proof (induction ops arbitrary: tokens volume sv)
  case (Cons op ops)
  have inv: "server_invar (ae_server env) (home_presented op @ tokens) (volume + home_bytes op) (home_step env msg op sv)"
    using Cons.prems by (intro home_step_invar env) simp_all
  have step: "frozen pk i (home_step env msg op sv) \<and> only_removed i sv (home_step env msg op sv)"
    using Cons.prems by (intro home_step_frozen [OF Cons.prems(1) env]) simp_all
  from Cons.IH [OF inv] Cons.prems step only_removed_trans [of i sv "home_step env msg op sv"] show ?case
    by (simp add: add.assoc)
qed (simp add: only_removed_def)

section \<open>Examples\<close>

text \<open>The server of the demonstration with an admin password; the owner uploads a file and is
  disabled.\<close>

definition demo_admin :: "memory_store admin_env" where
  "demo_admin = \<lparr>ae_server = demo_env, ae_password = ''pw'', ae_base64 = (\<lambda>s. None), ae_default_quota_mb = None,
     ae_default_quotas = \<lparr>dq_rate_read = None, dq_rate_write = None, dq_rate_read_burst = None, dq_rate_write_burst = None,
       dq_unauthenticated_ip_rate_read = None\<rparr>,
     ae_net = \<lparr>an_public_ip = ''127.0.0.1'', an_public_pubky_tls_port = None, an_pubky_listen_port = 6287,
       an_icann_domain = None, an_public_icann_http_port = None, an_icann_listen_port = 6286\<rparr>,
     ae_dav = (\<lambda>_ st. (plain_response 200, st))\<rparr>"

definition demo_disable :: admin_request where
  "demo_disable = AdminRoute (Some (Some ''pw'')) (DisableUser (z32 demo_owner))"

definition demo_history :: "home_op list" where
  "demo_history = map ClientRequest (demo_ops @ [demo_put])"

definition demo_text :: "quota_error \<Rightarrow> string" where "demo_text e = []"

abbreviation demo_answer :: "admin_reply \<times> memory_store server" where
  "demo_answer \<equiv> admin_app demo_admin demo_text 0 demo_disable (home_run demo_admin demo_text demo_history demo_start)"

section \<open>Properties\<close>

lemma basic_auth_password:
  assumes "is_valid_authorization_header decode header password"
  shows "\<exists>encoded. header = Some (Some (''Basic '' @ encoded)) \<and> decode encoded = Some (''admin:'' @ password)"
  using assms
  by (auto simp: is_valid_authorization_header_def is_valid_authorization_header_str_def strip_prefix_Some_iff split_once_Some_iff
      split: option.splits simp del: valid_utf8.simps(2))





end
