(* ===== verification/Spec2Isabelle.thy ===== *)
theory Spec2Isabelle
  imports Event_Routes Rate_Limiter Website Admin_Server
begin

text \<open>
  \<^bold>\<open>Verification of the pubky homeserver.\<close>

  The program is a multi-tenant storage server.  A user is a public key; a user signs up, obtains a
  session by a signed auth token (cookies) or by a signed grant (bearer tokens), and then reads and
  writes files under paths such as \<^verbatim>\<open>/pub/app/file\<close>.  File contents live in an object store, and
  their entries, the log of events, the accounts, sessions, grants and locks in a PostgreSQL
  database.  Clients follow the event log by streams; an administrator manages accounts and signup
  codes.  The modelled code is in \<^verbatim>\<open>src/pubky-homeserver/src\<close> (below: \<^verbatim>\<open>H\<close>) and
  \<^verbatim>\<open>src/pubky-common/src\<close> (below: \<^verbatim>\<open>C\<close>).

  \<^bold>\<open>How the model is built.\<close>  Every component is a group of top-level definitions with the
  names of the source.  A Rust \<^verbatim>\<open>Result\<close> is a sum with the error on the left; \<^verbatim>\<open>?\<close> is
  \<^const>\<open>and_then\<close>, and \<^const>\<open>st_then\<close> where the handler also threads the state.  A table
  is the list of its rows with its id sequence, and a statement is a function on it; transactions
  that the row locks of the source serialise are single steps, and those that run at READ COMMITTED
  take both the state their checks read and the state their writes meet.  Clocks, random
  identifiers, failures of single statements, the outcome of a commit and the steps of concurrent
  requests are arguments, so a property holds for each of their values.  Third-party packages
  (signatures, base64, JSON, postcard, percent decoding, glob matching, the governor limiter, the
  object store) are parameters; what a property needs of them is a named predicate, such as
  \<^const>\<open>jws_sound\<close>, \<^const>\<open>object_store_laws\<close> or \<^const>\<open>governor_ok\<close>, and the witness of the
  property gives an instance that satisfies it.  Machine integers are \<^typ>\<open>nat\<close> or \<^typ>\<open>int\<close> with
  saturation and wrap-around written out where the source has it.

  \<^bold>\<open>The theories.\<close>

  \<^item> \<^theory_text>\<open>Pubky_Prelude\<close>, \<^theory_text>\<open>Paging\<close>: strings as UTF-8 bytes, results, tables, and the interfaces
    as locales: a text format with printer and parser (\<^verbatim>\<open>textual\<close>, \<^verbatim>\<open>listable\<close>), a coverage preorder
    (\<^verbatim>\<open>coverage\<close>), a store that retains what it promised until a deadline (\<^verbatim>\<open>retention\<close>,
    \<^verbatim>\<open>replay_store\<close>), and keyset pagination (\<^verbatim>\<open>paged_listing\<close>, \<^verbatim>\<open>keyset_feed\<close>; \<^verbatim>\<open>H/shared/utils.rs\<close>).
    Each is interpreted on the model's own operations: capabilities and rates for the formats, paths
    and capabilities for coverage, entry locks, seen tokens and nonces for retention, users, signup
    codes and listings for pagination.
  \<^item> \<^theory_text>\<open>Storage_Path\<close>, \<^theory_text>\<open>Capability\<close>, \<^theory_text>\<open>Entry_Path\<close>: \<^verbatim>\<open>C/storage_path.rs\<close>, \<^verbatim>\<open>C/capabilities.rs\<close>, \<^verbatim>\<open>C/keys.rs\<close>,
    \<^verbatim>\<open>H/shared/webdav\<close> and the tenant of a request.  Normalisation yields exactly the canonical paths and
    never climbs out; normalised capability lists permit the same accesses; text forms round-trip;
    the key of an entry determines its owner and path.
  \<^item> \<^theory_text>\<open>Authorization\<close>, \<^theory_text>\<open>Entry_Lock\<close>, \<^theory_text>\<open>Quota\<close>: permission checks and cache policy, WebDAV locks
    (\<^verbatim>\<open>entry_lock.rs\<close>, \<^verbatim>\<open>routes/tenants/lock.rs\<close>), quotas (\<^verbatim>\<open>H/shared/quota\<close>).  Private answers are not
    shared by caches; a live lock has one holder and a bounded life; which rates make the conversion
    to a limiter panic.
  \<^item> \<^theory_text>\<open>Users\<close>, \<^theory_text>\<open>Signup\<close>: the tables \<^verbatim>\<open>users\<close> and \<^verbatim>\<open>signup_codes\<close>, the quota cache, the signup
    transaction.  A code admits one user; signup refines an abstract policy; the cache answers what
    the database would, except in a race whose window is bounded.
  \<^item> \<^theory_text>\<open>Cookie_Auth\<close>, \<^theory_text>\<open>Grant_Auth\<close>, \<^theory_text>\<open>Auth_Routes\<close>: \<^verbatim>\<open>H/client_server/auth\<close>.  A token is accepted once and
    exactly under the stated conditions; a bearer stands for a grant signed by its user; revocation
    is final; sessions end in time; the window in which a proof of possession can be replayed.
  \<^item> \<^theory_text>\<open>Entries\<close>, \<^theory_text>\<open>Events\<close>, \<^theory_text>\<open>Event_Stream\<close>: the tables and listings, the event log, and the replay and
    live phases of a stream with the listener.  Following the cursors of a listing ends and returns
    every entry once; a stream skips no event, whatever the interleaving, and once the writers pause
    it has delivered all of them.
  \<^item> \<^theory_text>\<open>Blob_Store\<close>, \<^theory_text>\<open>File_Store\<close>, \<^theory_text>\<open>File_Invariant\<close>: \<^verbatim>\<open>H/persistence/files\<close>.  Staged uploads,
    finalization in one transaction, deletion.  Whatever fails, the charge of a user is the size of
    the user's files, the event log replays to the files, and no file is a folder of another.
  \<^item> \<^theory_text>\<open>Tenant_Routes\<close>, \<^theory_text>\<open>Storage_Requests\<close>: \<^verbatim>\<open>H/client_server/routes/tenants\<close>, with other requests between
    the steps of a handler.  A change needs a session with the write permission and respects locks; what
    was written is read back with its length and entity tag; what a handler keeps of the invariants.
  \<^item> \<^theory_text>\<open>Server\<close>: the record of the whole state and its operations.  From the empty server, over any
    sequence of operations, every change of a file goes back to a signature of its owner.
  \<^item> \<^theory_text>\<open>Revocation\<close>, \<^theory_text>\<open>Event_Routes\<close>: the revocation listener with its supervisor, the guard of
    private streams and the event routes.  A private stream sends only what its session may read, and
    closes after its credential was revoked, also when notifications are lost.
  \<^item> \<^theory_text>\<open>Rate_Limiter\<close>: \<^verbatim>\<open>H/client_server/middleware/rate_limiter\<close>.  Bounds on requests and bytes in an
    interval, and the case in which dropping an idle limiter lets a user exceed the rate.
  \<^item> \<^theory_text>\<open>Website\<close>: \<^verbatim>\<open>H/client_server/routes/website.rs\<close>.  A site serves only files of its own folder.
  \<^item> \<^theory_text>\<open>Admin_Server\<close>: \<^verbatim>\<open>H/admin_server\<close>, and the runs of both servers on one state.  Nothing happens
    without the password; a disabled account only loses files until it is enabled again.

  \<^bold>\<open>Bounds.\<close>  No definition uses fuel: loops are structural recursion or \<^verbatim>\<open>function\<close>s with a termination
  proof.  Properties about charges assume that fewer than \<^verbatim>\<open>2^63\<close> bytes are uploaded in the run, since
  the source casts sizes to \<^verbatim>\<open>i64\<close>; \<^const>\<open>store_invar\<close> carries the bytes uploaded so far.  The
  length of a hash is 32, as the packages document.  In \<^theory_text>\<open>Server\<close> the requests run one after the
  other; interference within a request is treated in \<^theory_text>\<open>Tenant_Routes\<close>, \<^theory_text>\<open>Event_Stream\<close> and
  \<^theory_text>\<open>Revocation\<close>.  Runs of both servers leave out the WebDAV handler of the administrator, which is
  third-party code on the object store.

  \<^bold>\<open>Not modelled.\<close>  The client SDK and its JavaScript bindings, the command line tool and the test
  network: the server relies on nothing they do, and any request they could send is an input here.
  Within the homeserver: the SQL driver, the migrations (tables have the shape the last one leaves), the
  construction of object stores and the one-off repair of object names, the republishers of DHT
  records, configuration files and the data directory, TLS and sockets, metrics and tracing: input and
  output through packages, with no decision the modelled handlers read back.  In \<^verbatim>\<open>C\<close>: the
  recovery file and the encryption keys, which wrap cryptographic packages.
\<close>

end
